(* ===== verification/KPrelude.thy ===== *)
theory KPrelude
  imports Main "HOL-Library.Word" "HOL-Library.Multiset"
begin

unbundle bit_operations_syntax

text \<open>
  Shared vocabulary of the development: the kernel's error numbers, the result type of
  fallible kernel functions, names for the machine integers of the 32-bit ARM target of
  the repository (\<open>apollo_rev02_defconfig\<close>), and the facts on words and lists that more
  than one component uses.

  A C function that returns \<open>0\<close> or a positive value on success and \<open>-E\<dots>\<close> on failure is a
  HOL function into \<open>'a kres\<close>: \<open>Inl e\<close> is the return of \<open>-e\<close>, \<open>Inr v\<close> the return of \<open>v\<close>.
\<close>

section \<open>Error numbers and results\<close>

datatype errno =
    EPERM | ENOENT | ESRCH | EINTR | EIO | EAGAIN | ENOMEM | EACCES | EFAULT
  | EBADF | EBUSY | EEXIST | ENODEV | ENOTDIR | EISDIR | EINVAL | ENOTTY | ENOSPC | EROFS | ERANGE
  | ENODATA | ENOSYS | EOPNOTSUPP

type_synonym 'a kres = "errno + 'a"

abbreviation is_ok :: "'a kres \<Rightarrow> bool" where
  "is_ok r \<equiv> \<not> isl r"

section \<open>Machine integers\<close>

text \<open>On the ARM target \<open>int\<close>, \<open>long\<close> and pointers have 32 bits.\<close>

type_synonym u8 = "8 word"
type_synonym u16 = "16 word"
type_synonym u32 = "32 word"
type_synonym u64 = "64 word"

lemma word_AND_exp_eq_0:
  fixes w :: "'a::len word"
  shows "(w AND push_bit n 1 = 0) \<longleftrightarrow> \<not> bit w n"
  by (simp add: and_exp_eq_0_iff_not_bit)

end
