(* ===== verification/Capability.thy ===== *)
theory Capability
  imports KPrelude
begin

text \<open>
  Capability sets: the macros and inline functions of \<open>src/kernel/include/linux/capability.h\<close>.
  A \<open>kernel_cap_t\<close> is the array \<open>__u32 cap[2]\<close>; the model is a record of its two words, read
  by index with \<open>cap_at\<close>. The abstract view of such a value is the set of the capability numbers
  it holds, \<open>caps_of\<close>; the locale \<open>cap_sets\<close> is the contract the credential code relies on, and
  its interpretation \<open>kcap\<close> shows that the bit operations of the header keep it.
\<close>

section \<open>Representation\<close>

record kernel_cap_t =
  cap0 :: u32
  cap1 :: u32

definition CAP_CHOWN :: nat where "CAP_CHOWN = 0"
definition CAP_DAC_OVERRIDE :: nat where "CAP_DAC_OVERRIDE = 1"
definition CAP_DAC_READ_SEARCH :: nat where "CAP_DAC_READ_SEARCH = 2"
definition CAP_FOWNER :: nat where "CAP_FOWNER = 3"
definition CAP_FSETID :: nat where "CAP_FSETID = 4"
definition CAP_SETGID :: nat where "CAP_SETGID = 6"
definition CAP_SETUID :: nat where "CAP_SETUID = 7"
definition CAP_SETPCAP :: nat where "CAP_SETPCAP = 8"
definition CAP_NET_ADMIN :: nat where "CAP_NET_ADMIN = 12"
definition CAP_NET_RAW :: nat where "CAP_NET_RAW = 13"
definition CAP_SYS_PTRACE :: nat where "CAP_SYS_PTRACE = 19"
definition CAP_SYS_ADMIN :: nat where "CAP_SYS_ADMIN = 21"
definition CAP_SYS_NICE :: nat where "CAP_SYS_NICE = 23"
definition CAP_SYS_RESOURCE :: nat where "CAP_SYS_RESOURCE = 24"
definition CAP_SYS_TIME :: nat where "CAP_SYS_TIME = 25"
definition CAP_MKNOD :: nat where "CAP_MKNOD = 27"
definition CAP_SETFCAP :: nat where "CAP_SETFCAP = 31"
definition CAP_MAC_OVERRIDE :: nat where "CAP_MAC_OVERRIDE = 32"
definition CAP_MAC_ADMIN :: nat where "CAP_MAC_ADMIN = 33"
definition CAP_LAST_CAP :: nat where "CAP_LAST_CAP = CAP_MAC_ADMIN"

lemmas CAP_defs =
  CAP_CHOWN_def CAP_DAC_OVERRIDE_def CAP_DAC_READ_SEARCH_def CAP_FOWNER_def CAP_FSETID_def
  CAP_SETGID_def CAP_SETUID_def CAP_SETPCAP_def CAP_NET_ADMIN_def CAP_NET_RAW_def
  CAP_SYS_PTRACE_def CAP_SYS_ADMIN_def CAP_SYS_NICE_def CAP_SYS_RESOURCE_def CAP_SYS_TIME_def
  CAP_MKNOD_def CAP_SETFCAP_def CAP_MAC_OVERRIDE_def CAP_MAC_ADMIN_def CAP_LAST_CAP_def

definition cap_valid :: "nat \<Rightarrow> bool" where
  "cap_valid x \<longleftrightarrow> x \<le> CAP_LAST_CAP"

definition CAP_TO_INDEX :: "nat \<Rightarrow> nat" where
  "CAP_TO_INDEX x = drop_bit 5 x"

definition CAP_TO_MASK :: "nat \<Rightarrow> u32" where
  "CAP_TO_MASK x = push_bit (x AND 31) 1"

text \<open>
  \<open>c.cap[i]\<close>. The array has two elements; the callers index it with \<open>CAP_TO_INDEX\<close> of a
  capability below 64, and the index is then 0 or 1 (\<open>CAP_TO_INDEX_less\<close>).
\<close>

definition cap_at :: "kernel_cap_t \<Rightarrow> nat \<Rightarrow> u32" where
  "cap_at c i = (if i = 0 then cap0 c else cap1 c)"

definition cap_set_at :: "kernel_cap_t \<Rightarrow> nat \<Rightarrow> u32 \<Rightarrow> kernel_cap_t" where
  "cap_set_at c i w = (if i = 0 then c\<lparr>cap0 := w\<rparr> else c\<lparr>cap1 := w\<rparr>)"

definition CAP_EMPTY_SET :: kernel_cap_t where
  "CAP_EMPTY_SET = \<lparr>cap0 = 0, cap1 = 0\<rparr>"

definition CAP_FULL_SET :: kernel_cap_t where
  "CAP_FULL_SET = \<lparr>cap0 = NOT 0, cap1 = NOT 0\<rparr>"

definition CAP_INIT_EFF_SET :: kernel_cap_t where
  "CAP_INIT_EFF_SET = \<lparr>cap0 = NOT (CAP_TO_MASK CAP_SETPCAP), cap1 = NOT 0\<rparr>"

definition CAP_FS_MASK_B0 :: u32 where
  "CAP_FS_MASK_B0 = CAP_TO_MASK CAP_CHOWN OR CAP_TO_MASK CAP_DAC_OVERRIDE
     OR CAP_TO_MASK CAP_DAC_READ_SEARCH OR CAP_TO_MASK CAP_FOWNER OR CAP_TO_MASK CAP_FSETID"

definition CAP_FS_MASK_B1 :: u32 where
  "CAP_FS_MASK_B1 = CAP_TO_MASK CAP_MAC_OVERRIDE"

definition CAP_FS_SET :: kernel_cap_t where
  "CAP_FS_SET = \<lparr>cap0 = CAP_FS_MASK_B0, cap1 = CAP_FS_MASK_B1\<rparr>"

definition CAP_NFSD_SET :: kernel_cap_t where
  "CAP_NFSD_SET = \<lparr>cap0 = CAP_FS_MASK_B0 OR CAP_TO_MASK CAP_SYS_RESOURCE OR CAP_TO_MASK CAP_MKNOD,
     cap1 = CAP_FS_MASK_B1\<rparr>"

section \<open>Operations\<close>

definition cap_raise :: "kernel_cap_t \<Rightarrow> nat \<Rightarrow> kernel_cap_t" where
  "cap_raise c flag = cap_set_at c (CAP_TO_INDEX flag) (cap_at c (CAP_TO_INDEX flag) OR CAP_TO_MASK flag)"

definition cap_lower :: "kernel_cap_t \<Rightarrow> nat \<Rightarrow> kernel_cap_t" where
  "cap_lower c flag = cap_set_at c (CAP_TO_INDEX flag) (cap_at c (CAP_TO_INDEX flag) AND NOT (CAP_TO_MASK flag))"

definition cap_raised :: "kernel_cap_t \<Rightarrow> nat \<Rightarrow> bool" where
  "cap_raised c flag \<longleftrightarrow> cap_at c (CAP_TO_INDEX flag) AND CAP_TO_MASK flag \<noteq> 0"

definition CAP_BOP_ALL :: "(u32 \<Rightarrow> u32 \<Rightarrow> u32) \<Rightarrow> kernel_cap_t \<Rightarrow> kernel_cap_t \<Rightarrow> kernel_cap_t" where
  "CAP_BOP_ALL f a b = \<lparr>cap0 = f (cap_at a 0) (cap_at b 0), cap1 = f (cap_at a 1) (cap_at b 1)\<rparr>"

definition CAP_UOP_ALL :: "(u32 \<Rightarrow> u32) \<Rightarrow> kernel_cap_t \<Rightarrow> kernel_cap_t" where
  "CAP_UOP_ALL f a = \<lparr>cap0 = f (cap_at a 0), cap1 = f (cap_at a 1)\<rparr>"

definition cap_combine :: "kernel_cap_t \<Rightarrow> kernel_cap_t \<Rightarrow> kernel_cap_t" where
  "cap_combine a b = CAP_BOP_ALL (OR) a b"

definition cap_intersect :: "kernel_cap_t \<Rightarrow> kernel_cap_t \<Rightarrow> kernel_cap_t" where
  "cap_intersect a b = CAP_BOP_ALL (AND) a b"

definition cap_drop :: "kernel_cap_t \<Rightarrow> kernel_cap_t \<Rightarrow> kernel_cap_t" where
  "cap_drop a d = CAP_BOP_ALL (\<lambda>x y. x AND NOT y) a d"

definition cap_invert :: "kernel_cap_t \<Rightarrow> kernel_cap_t" where
  "cap_invert c = CAP_UOP_ALL NOT c"

definition cap_isclear :: "kernel_cap_t \<Rightarrow> bool" where
  "cap_isclear a \<longleftrightarrow> (if cap_at a 0 \<noteq> 0 then False else if cap_at a 1 \<noteq> 0 then False else True)"

definition cap_issubset :: "kernel_cap_t \<Rightarrow> kernel_cap_t \<Rightarrow> bool" where
  "cap_issubset a s \<longleftrightarrow> cap_isclear (cap_drop a s)"

definition cap_is_fs_cap :: "nat \<Rightarrow> bool" where
  "cap_is_fs_cap cap \<longleftrightarrow> CAP_TO_MASK cap AND cap_at CAP_FS_SET (CAP_TO_INDEX cap) \<noteq> 0"

definition cap_drop_fs_set :: "kernel_cap_t \<Rightarrow> kernel_cap_t" where
  "cap_drop_fs_set a = cap_drop a CAP_FS_SET"

definition cap_raise_fs_set :: "kernel_cap_t \<Rightarrow> kernel_cap_t \<Rightarrow> kernel_cap_t" where
  "cap_raise_fs_set a permitted = cap_combine a (cap_intersect permitted CAP_FS_SET)"

definition cap_drop_nfsd_set :: "kernel_cap_t \<Rightarrow> kernel_cap_t" where
  "cap_drop_nfsd_set a = cap_drop a CAP_NFSD_SET"

definition cap_raise_nfsd_set :: "kernel_cap_t \<Rightarrow> kernel_cap_t \<Rightarrow> kernel_cap_t" where
  "cap_raise_nfsd_set a permitted = cap_combine a (cap_intersect permitted CAP_NFSD_SET)"

section \<open>The abstract view: sets of capability numbers\<close>

definition caps_of :: "kernel_cap_t \<Rightarrow> nat set" where
  "caps_of c = {i. i < 64 \<and> bit (cap_at c (i div 32)) (i mod 32)}"

lemma CAP_TO_INDEX_div: "CAP_TO_INDEX x = x div 32"
  by (simp add: CAP_TO_INDEX_def drop_bit_eq_div)

lemma CAP_TO_INDEX_less: "x < 64 \<Longrightarrow> CAP_TO_INDEX x < 2"
  by (simp add: CAP_TO_INDEX_div)

lemma cap_valid_less: "cap_valid x \<Longrightarrow> x < 64"
  by (simp add: cap_valid_def CAP_defs)

lemma AND_31_mod: "(x::nat) AND 31 = x mod 32"
  using take_bit_eq_mask [of 5 x] by (simp add: take_bit_eq_mod mask_eq_exp_minus_1)

lemma bit_CAP_TO_MASK: "bit (CAP_TO_MASK x) n \<longleftrightarrow> n = x mod 32"
  by (auto simp: CAP_TO_MASK_def AND_31_mod bit_simps)

lemma word32_eq_0_iff: "(w::u32) = 0 \<longleftrightarrow> (\<forall>n<32. \<not> bit w n)"
  by (auto simp: bit_eq_iff dest: bit_imp_le_length)

lemma below_64_cases:
  "(\<forall>i<64. P (i div 32) (i mod 32)) \<longleftrightarrow> (\<forall>n<32. P 0 n) \<and> (\<forall>n<32. P (1::nat) (n::nat))"
proof (intro iffI conjI allI impI)
  fix n :: nat assume *: "\<forall>i<64. P (i div 32) (i mod 32)" and n: "n < 32"
  show "P 0 n" using *[rule_format, of n] n by simp
  have "(n + 32) div 32 = 1" using n by (intro div_nat_eqI) auto
  then show "P 1 n" using *[rule_format, of "n + 32"] n by simp
next
  fix i :: nat assume *: "(\<forall>n<32. P 0 n) \<and> (\<forall>n<32. P 1 n)" and i: "i < 64"
  show "P (i div 32) (i mod 32)"
  proof (cases "i < 32")
    case True with * show ?thesis by simp
  next
    case False
    with i have "i div 32 = 1" by (intro div_nat_eqI) auto
    with * show ?thesis by simp
  qed
qed

lemma mem_caps_of: "i \<in> caps_of c \<longleftrightarrow> i < 64 \<and> bit (cap_at c (i div 32)) (i mod 32)"
  by (simp add: caps_of_def)

lemma caps_of_bounded: "caps_of c \<subseteq> {..<64}"
  by (auto simp: caps_of_def)

lemma cap_at_BOP: "cap_at (CAP_BOP_ALL f a b) i = f (cap_at a i) (cap_at b i)"
  by (simp add: CAP_BOP_ALL_def cap_at_def)

lemma cap_at_UOP: "cap_at (CAP_UOP_ALL f a) i = f (cap_at a i)"
  by (simp add: CAP_UOP_ALL_def cap_at_def)

lemma caps_of_empty: "caps_of CAP_EMPTY_SET = {}"
  by (auto simp: caps_of_def CAP_EMPTY_SET_def cap_at_def)

lemma caps_of_full: "caps_of CAP_FULL_SET = {..<64}"
  by (auto simp: caps_of_def CAP_FULL_SET_def cap_at_def bit_simps)

lemma caps_of_combine: "caps_of (cap_combine a b) = caps_of a \<union> caps_of b"
  by (auto simp: caps_of_def cap_combine_def cap_at_BOP bit_simps)

lemma caps_of_intersect: "caps_of (cap_intersect a b) = caps_of a \<inter> caps_of b"
  by (auto simp: caps_of_def cap_intersect_def cap_at_BOP bit_simps)

lemma caps_of_drop: "caps_of (cap_drop a b) = caps_of a - caps_of b"
  by (auto simp: caps_of_def cap_drop_def cap_at_BOP bit_simps)

lemma caps_of_invert: "caps_of (cap_invert a) = {..<64} - caps_of a"
  by (auto simp: caps_of_def cap_invert_def cap_at_UOP bit_simps)

lemma caps_of_isclear: "cap_isclear a \<longleftrightarrow> caps_of a = {}"
proof -
  have "caps_of a = {} \<longleftrightarrow> (\<forall>i<64. \<not> bit (cap_at a (i div 32)) (i mod 32))"
    by (auto simp: caps_of_def)
  also have "\<dots> \<longleftrightarrow> cap_at a 0 = 0 \<and> cap_at a 1 = 0"
    by (simp add: below_64_cases [of "\<lambda>i n. \<not> bit (cap_at a i) n"] word32_eq_0_iff)
  finally show ?thesis by (simp add: cap_isclear_def)
qed

lemma caps_of_issubset: "cap_issubset a b \<longleftrightarrow> caps_of a \<subseteq> caps_of b"
  by (auto simp: cap_issubset_def caps_of_isclear caps_of_drop)

lemma caps_of_raised: "i < 64 \<Longrightarrow> cap_raised c i \<longleftrightarrow> i \<in> caps_of c"
  by (simp add: cap_raised_def CAP_TO_MASK_def and_exp_eq_0_iff_not_bit mem_caps_of
      CAP_TO_INDEX_div AND_31_mod)

lemma cap_at_set_at:
  "i < 2 \<Longrightarrow> j < 2 \<Longrightarrow> cap_at (cap_set_at c i w) j = (if i = j then w else cap_at c j)"
  by (auto simp: cap_at_def cap_set_at_def)

lemma div_mod_32_eq: "i div 32 = j div 32 \<and> i mod 32 = j mod 32 \<longleftrightarrow> i = (j::nat)"
  by (metis div_mult_mod_eq)

lemma cap_at_set_at_div:
  assumes "i < 64" "x < 64"
  shows "cap_at (cap_set_at c (i div 32) w) (x div 32) = (if x div 32 = i div 32 then w else cap_at c (x div 32))"
  using assms by (subst cap_at_set_at) auto

lemma caps_of_raise:
  assumes i: "i < 64"
  shows "caps_of (cap_raise c i) = insert i (caps_of c)"
proof (rule set_eqI)
  fix x
  show "x \<in> caps_of (cap_raise c i) \<longleftrightarrow> x \<in> insert i (caps_of c)"
  proof (cases "x < 64")
    case True
    then show ?thesis
      using i div_mod_32_eq [of x i]
      by (auto simp: mem_caps_of cap_raise_def CAP_TO_INDEX_div cap_at_set_at_div bit_or_iff
          bit_CAP_TO_MASK simp del: One_nat_def)
  qed (use i in \<open>auto simp: mem_caps_of\<close>)
qed

lemma caps_of_lower:
  assumes i: "i < 64"
  shows "caps_of (cap_lower c i) = caps_of c - {i}"
proof (rule set_eqI)
  fix x
  show "x \<in> caps_of (cap_lower c i) \<longleftrightarrow> x \<in> caps_of c - {i}"
  proof (cases "x < 64")
    case True
    then have "x mod 32 < 32" by simp
    with True show ?thesis
      using i div_mod_32_eq [of x i]
      by (auto simp: mem_caps_of cap_lower_def CAP_TO_INDEX_div cap_at_set_at_div bit_and_iff
          bit_not_iff bit_CAP_TO_MASK simp del: One_nat_def)
  qed (use i in \<open>auto simp: mem_caps_of\<close>)
qed

lemma caps_of_inject: "caps_of a = caps_of b \<Longrightarrow> a = b"
proof -
  assume eq: "caps_of a = caps_of b"
  have "\<forall>i<64. bit (cap_at a (i div 32)) (i mod 32) = bit (cap_at b (i div 32)) (i mod 32)"
    using eq by (auto simp: set_eq_iff mem_caps_of)
  then have "\<forall>n<32. bit (cap_at a 0) n = bit (cap_at b 0) n" "\<forall>n<32. bit (cap_at a 1) n = bit (cap_at b 1) n"
    by (simp_all add: below_64_cases [of "\<lambda>i n. bit (cap_at a i) n = bit (cap_at b i) n"])
  then have "cap_at a 0 = cap_at b 0" "cap_at a 1 = cap_at b 1"
    by (auto simp: bit_eq_iff dest: bit_imp_le_length)
  then have "cap0 a = cap0 b" "cap1 a = cap1 b" by (simp_all add: cap_at_def)
  then show ?thesis by simp
qed

section \<open>The contract of capability sets\<close>

text \<open>
  What the credential code relies on: the operations behave as the operations on sets of
  capability numbers. The lemmas of the locale are the set inequalities behind the rules
  of \<open>commoncap.c\<close> (which bounds each recomputed set stays within).
\<close>

locale cap_sets =
  fixes caps :: "'c \<Rightarrow> nat set"
    and empty :: 'c
    and combine :: "'c \<Rightarrow> 'c \<Rightarrow> 'c"
    and intersect :: "'c \<Rightarrow> 'c \<Rightarrow> 'c"
    and drp :: "'c \<Rightarrow> 'c \<Rightarrow> 'c"
    and isclear :: "'c \<Rightarrow> bool"
    and issubset :: "'c \<Rightarrow> 'c \<Rightarrow> bool"
  assumes caps_empty: "caps empty = {}"
    and caps_combine: "caps (combine a b) = caps a \<union> caps b"
    and caps_intersect: "caps (intersect a b) = caps a \<inter> caps b"
    and caps_drp: "caps (drp a b) = caps a - caps b"
    and caps_isclear: "isclear a \<longleftrightarrow> caps a = {}"
    and caps_issubset: "issubset a b \<longleftrightarrow> caps a \<subseteq> caps b"
begin

lemma issubset_refl: "issubset a a"
  by (simp add: caps_issubset)

lemma issubset_trans: "issubset a b \<Longrightarrow> issubset b c \<Longrightarrow> issubset a c"
  by (auto simp: caps_issubset)

lemma issubset_empty: "issubset empty a"
  by (simp add: caps_issubset caps_empty)

lemma isclear_empty: "isclear empty"
  by (simp add: caps_isclear caps_empty)

lemma combine_least: "issubset (combine a b) c \<longleftrightarrow> issubset a c \<and> issubset b c"
  by (auto simp: caps_issubset caps_combine)

lemma combine_upper: "issubset a (combine a b)" "issubset b (combine a b)"
  by (auto simp: caps_issubset caps_combine)

lemma intersect_lower: "issubset (intersect a b) a" "issubset (intersect a b) b"
  by (auto simp: caps_issubset caps_intersect)

lemma drop_within: "issubset e p \<Longrightarrow> issubset (drp e f) p"
  by (auto simp: caps_issubset caps_drp)

lemma raise_within: "issubset e p \<Longrightarrow> issubset (combine e (intersect p f)) p"
  by (auto simp: caps_issubset caps_combine caps_intersect)

lemma exec_within: "issubset (combine (intersect x fp) (intersect i fi)) (combine x i)"
  by (auto simp: caps_issubset caps_combine caps_intersect)

lemma forced_available:
  "isclear (drp fp (combine (intersect x fp) (intersect i fi))) \<longleftrightarrow>
   issubset fp (combine x (intersect i fi))"
  by (auto simp: caps_isclear caps_drp caps_issubset caps_combine caps_intersect)

end

interpretation kcap: cap_sets caps_of CAP_EMPTY_SET cap_combine cap_intersect cap_drop
  cap_isclear cap_issubset
  by unfold_locales
    (simp_all add: caps_of_empty caps_of_combine caps_of_intersect caps_of_drop caps_of_isclear
      caps_of_issubset)

lemmas cap_simps [simp] =
  kcap.issubset_refl kcap.issubset_empty kcap.isclear_empty kcap.intersect_lower kcap.combine_upper

end
