(* ===== verification/GroupInfo.thy ===== *)
theory GroupInfo
  imports KPrelude
begin

text \<open>
  Supplementary groups: \<open>groups_alloc\<close>, \<open>groups_to_user\<close>, \<open>groups_from_user\<close>,
  \<open>groups_sort\<close> and \<open>groups_search\<close> of \<open>src/kernel/kernel/sys.c\<close> over the
  \<open>struct group_info\<close> of \<open>include/linux/cred.h\<close>.

  A \<open>group_info\<close> stores its gids in blocks of one page (1024 gids), or in the embedded
  \<open>small_block\<close> of 32 gids, and is read through \<open>GROUP_AT\<close>. The abstract view is the plain
  list \<open>gi_list\<close> of its \<open>ngroups\<close> gids. Reference counts (\<open>usage\<close>) and the release of pages
  are not part of the model. The memory allocator is a parameter, \<open>alloc_env\<close>: which requests
  succeed, and what fresh memory holds. User memory is a partial map from the index in the user
  array to the gid stored there; an index that is not mapped faults.
\<close>

type_synonym gid_t = u32

record group_info =
  ngroups :: nat
  nblocks :: nat
  blocks :: "gid_t list list"

definition NGROUPS_MAX :: nat where "NGROUPS_MAX = 65536"
definition NGROUPS_SMALL :: nat where "NGROUPS_SMALL = 32"
definition NGROUPS_PER_BLOCK :: nat where "NGROUPS_PER_BLOCK = 1024"

text \<open>\<open>GROUP_AT\<close> as an expression, and as the target of an assignment.\<close>

definition GROUP_AT :: "group_info \<Rightarrow> nat \<Rightarrow> gid_t" where
  "GROUP_AT gi i = blocks gi ! (i div NGROUPS_PER_BLOCK) ! (i mod NGROUPS_PER_BLOCK)"

definition GROUP_AT_set :: "group_info \<Rightarrow> nat \<Rightarrow> gid_t \<Rightarrow> group_info" where
  "GROUP_AT_set gi i v = gi\<lparr>blocks := (blocks gi)[i div NGROUPS_PER_BLOCK :=
     (blocks gi ! (i div NGROUPS_PER_BLOCK))[i mod NGROUPS_PER_BLOCK := v]]\<rparr>"

section \<open>Allocation and copies from and to user space\<close>

record alloc_env =
  kmalloc_ok :: bool
  get_free_page_ok :: "nat \<Rightarrow> bool"
  fresh_mem :: "nat \<Rightarrow> nat \<Rightarrow> gid_t"

definition groups_alloc :: "alloc_env \<Rightarrow> nat \<Rightarrow> group_info option" where
  "groups_alloc env gidsetsize =
     (let n0 = (gidsetsize + NGROUPS_PER_BLOCK - 1) div NGROUPS_PER_BLOCK;
          nb = (if n0 \<noteq> 0 then n0 else 1)
      in if \<not> kmalloc_ok env then None
         else if gidsetsize \<le> NGROUPS_SMALL
         then Some \<lparr>ngroups = gidsetsize, nblocks = nb,
                blocks = [map (fresh_mem env 0) [0..<NGROUPS_SMALL]]\<rparr>
         else if list_all (get_free_page_ok env) [0..<nb]
         then Some \<lparr>ngroups = gidsetsize, nblocks = nb,
                blocks = map (\<lambda>i. map (fresh_mem env i) [0..<NGROUPS_PER_BLOCK]) [0..<nb]\<rparr>
         else None)"

type_synonym umem = "nat \<rightharpoonup> gid_t"

text \<open>
  \<open>copy_to_user\<close> of a list of gids to the user array at index \<open>pos\<close>: fails when an index is not
  mapped. \<open>copy_from_user\<close> of \<open>n\<close> gids likewise; the gids read overwrite the front of the block.
\<close>

definition copy_to_user :: "umem \<Rightarrow> nat \<Rightarrow> gid_t list \<Rightarrow> umem option" where
  "copy_to_user m pos xs =
     (if list_all (\<lambda>i. m i \<noteq> None) [pos..<pos + length xs]
      then Some (\<lambda>i. if pos \<le> i \<and> i < pos + length xs then Some (xs ! (i - pos)) else m i)
      else None)"

definition copy_from_user :: "umem \<Rightarrow> nat \<Rightarrow> nat \<Rightarrow> gid_t list \<Rightarrow> gid_t list option" where
  "copy_from_user m pos n b =
     (if list_all (\<lambda>i. m i \<noteq> None) [pos..<pos + n]
      then Some (map (\<lambda>i. the (m i)) [pos..<pos + n] @ drop n b) else None)"

fun groups_to_user_loop :: "umem \<Rightarrow> nat \<Rightarrow> nat \<Rightarrow> gid_t list list \<Rightarrow> umem kres" where
  "groups_to_user_loop m pos cnt [] = Inr m"
| "groups_to_user_loop m pos cnt (b # bs) =
     (let cp_count = min NGROUPS_PER_BLOCK cnt
      in case copy_to_user m pos (take cp_count b) of
           None \<Rightarrow> Inl EFAULT
         | Some m' \<Rightarrow> groups_to_user_loop m' (pos + NGROUPS_PER_BLOCK) (cnt - cp_count) bs)"

definition groups_to_user :: "umem \<Rightarrow> group_info \<Rightarrow> umem kres" where
  "groups_to_user m gi = groups_to_user_loop m 0 (ngroups gi) (take (nblocks gi) (blocks gi))"

fun groups_from_user_loop :: "umem \<Rightarrow> nat \<Rightarrow> nat \<Rightarrow> gid_t list list \<Rightarrow> gid_t list list kres" where
  "groups_from_user_loop m pos cnt [] = Inr []"
| "groups_from_user_loop m pos cnt (b # bs) =
     (let cp_count = min NGROUPS_PER_BLOCK cnt
      in case copy_from_user m pos cp_count b of
           None \<Rightarrow> Inl EFAULT
         | Some b' \<Rightarrow>
             (case groups_from_user_loop m (pos + NGROUPS_PER_BLOCK) (cnt - cp_count) bs of
                Inl e \<Rightarrow> Inl e
              | Inr bs' \<Rightarrow> Inr (b' # bs')))"

definition groups_from_user :: "umem \<Rightarrow> group_info \<Rightarrow> group_info kres" where
  "groups_from_user m gi =
     (case groups_from_user_loop m 0 (ngroups gi) (take (nblocks gi) (blocks gi)) of
        Inl e \<Rightarrow> Inl e
      | Inr bs \<Rightarrow> Inr (gi\<lparr>blocks := bs\<rparr>))"

section \<open>Sorting: a Shell sort\<close>

text \<open>
  The three nested loops of \<open>groups_sort\<close>, from the innermost. \<open>stride\<close> is not zero in the two
  inner loops (the outer loop is \<open>while (stride)\<close>); the test \<open>0 < stride\<close> of \<open>gs_shift\<close> records it.
  All indices stay below 65536 (\<open>NGROUPS_MAX\<close>), far from the limits of \<open>int\<close>.
\<close>

function gs_first_stride :: "nat \<Rightarrow> nat \<Rightarrow> nat" where
  "gs_first_stride n stride = (if stride < n then gs_first_stride n (3 * stride + 1) else stride)"
  by pat_completeness auto
termination
  by (relation "measure (\<lambda>(n, stride). n - stride)") auto

function gs_shift :: "nat \<Rightarrow> gid_t \<Rightarrow> group_info \<Rightarrow> int \<Rightarrow> int \<Rightarrow> group_info \<times> int" where
  "gs_shift stride tmp gi left right =
     (if 0 < stride \<and> 0 \<le> left \<and> GROUP_AT gi (nat left) > tmp
      then gs_shift stride tmp (GROUP_AT_set gi (nat right) (GROUP_AT gi (nat left)))
             (left - int stride) left
      else (gi, right))"
  by pat_completeness auto
termination
  by (relation "measure (\<lambda>(stride, tmp, gi, left, right). nat (left + 1))") auto

definition gs_insert :: "nat \<Rightarrow> nat \<Rightarrow> group_info \<Rightarrow> group_info" where
  "gs_insert stride base gi =
     (let left = int base; right = left + int stride; tmp = GROUP_AT gi (nat right);
          (gi', r) = gs_shift stride tmp gi left right
      in GROUP_AT_set gi' (nat r) tmp)"

definition gs_pass :: "nat \<Rightarrow> group_info \<Rightarrow> group_info" where
  "gs_pass stride gi = fold (gs_insert stride) [0..<ngroups gi - stride] gi"

fun gs_strides :: "nat \<Rightarrow> group_info \<Rightarrow> group_info" where
  "gs_strides stride gi = (if stride = 0 then gi else gs_strides (stride div 3) (gs_pass stride gi))"

definition groups_sort :: "group_info \<Rightarrow> group_info" where
  "groups_sort gi = gs_strides (gs_first_stride (ngroups gi) 1 div 3) gi"

section \<open>Searching: a binary search\<close>

text \<open>
  \<open>int cmp = grp - GROUP_AT(group_info, mid)\<close>: the difference of two unsigned gids wraps and is
  then read as a signed number.
\<close>

function groups_search_loop :: "group_info \<Rightarrow> gid_t \<Rightarrow> nat \<Rightarrow> nat \<Rightarrow> bool" where
  "groups_search_loop gi grp left right =
     (if left < right
      then let mid = (left + right) div 2; cmp = sint (grp - GROUP_AT gi mid)
           in if cmp > 0 then groups_search_loop gi grp (mid + 1) right
              else if cmp < 0 then groups_search_loop gi grp left mid
              else True
      else False)"
  by pat_completeness auto
termination
  by (relation "measure (\<lambda>(gi, grp, left, right). right - left)") auto

definition groups_search :: "group_info option \<Rightarrow> gid_t \<Rightarrow> bool" where
  "groups_search gi grp =
     (case gi of None \<Rightarrow> False | Some gi \<Rightarrow> groups_search_loop gi grp 0 (ngroups gi))"

declare gs_first_stride.simps [simp del] gs_shift.simps [simp del] gs_strides.simps [simp del]
  groups_search_loop.simps [simp del]

section \<open>The abstract view\<close>

definition gi_list :: "group_info \<Rightarrow> gid_t list" where
  "gi_list gi = map (GROUP_AT gi) [0..<ngroups gi]"

definition gi_wf :: "group_info \<Rightarrow> bool" where
  "gi_wf gi \<longleftrightarrow> length (blocks gi) = nblocks gi \<and>
     (\<forall>i<ngroups gi. i div NGROUPS_PER_BLOCK < nblocks gi \<and>
        i mod NGROUPS_PER_BLOCK < length (blocks gi ! (i div NGROUPS_PER_BLOCK)))"

lemma length_gi_list [simp]: "length (gi_list gi) = ngroups gi"
  by (simp add: gi_list_def)

lemma gi_list_nth: "i < ngroups gi \<Longrightarrow> gi_list gi ! i = GROUP_AT gi i"
  by (simp add: gi_list_def)

lemma GROUP_AT_set_fields [simp]:
  "ngroups (GROUP_AT_set gi i v) = ngroups gi" "nblocks (GROUP_AT_set gi i v) = nblocks gi"
  by (simp_all add: GROUP_AT_set_def)

lemma length_block_update: "length (bs[a := (bs ! a)[b := v]] ! c) = length (bs ! c)"
  by (cases "a < length bs"; cases "a = c") (auto simp: nth_list_update list_update_beyond)

lemma GROUP_AT_set_wf [simp]: "gi_wf gi \<Longrightarrow> gi_wf (GROUP_AT_set gi i v)"
  by (simp add: gi_wf_def GROUP_AT_set_def length_block_update)

lemma div_mod_block_eq:
  "i div NGROUPS_PER_BLOCK = j div NGROUPS_PER_BLOCK \<Longrightarrow>
   i mod NGROUPS_PER_BLOCK = j mod NGROUPS_PER_BLOCK \<Longrightarrow> i = j"
  by (metis div_mult_mod_eq)

lemma GROUP_AT_GROUP_AT_set:
  assumes "gi_wf gi" "i < ngroups gi" "j < ngroups gi"
  shows "GROUP_AT (GROUP_AT_set gi i v) j = (if i = j then v else GROUP_AT gi j)"
proof (cases "i div NGROUPS_PER_BLOCK = j div NGROUPS_PER_BLOCK")
  case True
  then have "i mod NGROUPS_PER_BLOCK = j mod NGROUPS_PER_BLOCK \<longleftrightarrow> i = j"
    using div_mod_block_eq [of i j] by auto
  with True show ?thesis
    using assms by (auto simp: gi_wf_def GROUP_AT_def GROUP_AT_set_def nth_list_update)
next
  case False
  then show ?thesis
    by (auto simp: GROUP_AT_def GROUP_AT_set_def)
qed

lemma gi_list_GROUP_AT_set:
  assumes "gi_wf gi" "i < ngroups gi"
  shows "gi_list (GROUP_AT_set gi i v) = (gi_list gi)[i := v]"
  using assms
  by (intro nth_equalityI) (auto simp: gi_list_nth GROUP_AT_GROUP_AT_set nth_list_update)

section \<open>The sort permutes and sorts\<close>

lemma mset_update_swap:
  assumes "l < length xs" "r < length xs" "l \<noteq> r"
  shows "mset (xs[r := xs ! l, l := t]) = mset (xs[r := t])"
proof -
  have "xs[r := xs ! l, l := t] = (xs[r := t])[l := (xs[r := t]) ! r, r := (xs[r := t]) ! l]"
    using assms by (intro nth_equalityI) (auto simp: nth_list_update)
  then show ?thesis
    using assms mset_swap [of l "xs[r := t]" r] by simp
qed

text \<open>
  One run of the innermost loop: it stays in range, leaves the sizes alone, and moves gids
  without losing one (the gid held in \<open>tmp\<close> stands for the hole at \<open>right\<close>).
\<close>

lemma gs_shift_mset:
  assumes "gs_shift stride tmp gi left right = (gi', r)"
    and "gi_wf gi" "left < right" "0 \<le> right" "right < int (ngroups gi)"
  shows "gi_wf gi' \<and> ngroups gi' = ngroups gi \<and> nblocks gi' = nblocks gi \<and> 0 \<le> r \<and> r < int (ngroups gi) \<and>
    mset ((gi_list gi')[nat r := tmp]) = mset ((gi_list gi)[nat right := tmp])"
  using assms
proof (induction stride tmp gi left right rule: gs_shift.induct)
  case (1 stride tmp gi left right)
  show ?case
  proof (cases "0 < stride \<and> 0 \<le> left \<and> GROUP_AT gi (nat left) > tmp")
    case True
    let ?gi = "GROUP_AT_set gi (nat right) (GROUP_AT gi (nat left))"
    have rec: "gs_shift stride tmp ?gi (left - int stride) left = (gi', r)"
      using "1.prems"(1) True by (simp add: gs_shift.simps [of stride tmp gi left right])
    have "gi_list ?gi = (gi_list gi)[nat right := gi_list gi ! nat left]"
      using "1.prems" True by (subst gi_list_GROUP_AT_set) (auto simp: gi_list_nth nat_less_iff)
    then have "mset ((gi_list ?gi)[nat left := tmp]) = mset ((gi_list gi)[nat right := tmp])"
      using "1.prems" True by (simp add: mset_update_swap nat_less_iff nat_eq_iff)
    with "1.IH" [OF True rec] show ?thesis
      using "1.prems" True by simp
  next
    case False
    then show ?thesis
      using "1.prems" by (auto simp: gs_shift.simps [of stride tmp gi left right])
  qed
qed

lemma gs_insert_mset:
  assumes "gi_wf gi" "0 < stride" "base + stride < ngroups gi"
  shows "gi_wf (gs_insert stride base gi) \<and> ngroups (gs_insert stride base gi) = ngroups gi \<and>
    mset (gi_list (gs_insert stride base gi)) = mset (gi_list gi)"
proof -
  let ?right = "int base + int stride"
  let ?tmp = "GROUP_AT gi (nat ?right)"
  obtain gi' r where sh: "gs_shift stride ?tmp gi (int base) ?right = (gi', r)"
    by (cases "gs_shift stride ?tmp gi (int base) ?right")
  have *: "gi_wf gi' \<and> ngroups gi' = ngroups gi \<and> nblocks gi' = nblocks gi \<and> 0 \<le> r \<and> r < int (ngroups gi) \<and>
    mset ((gi_list gi')[nat r := ?tmp]) = mset ((gi_list gi)[nat ?right := ?tmp])"
    using gs_shift_mset [OF sh] assms by auto
  have "(gi_list gi)[nat ?right := ?tmp] = gi_list gi"
    using assms by (simp add: gi_list_nth [symmetric] nat_int_add)
  moreover have "gs_insert stride base gi = GROUP_AT_set gi' (nat r) ?tmp"
    by (simp add: gs_insert_def sh)
  ultimately show ?thesis
    using * by (simp add: gi_list_GROUP_AT_set nat_less_iff)
qed

lemma gs_fold_mset:
  assumes "gi_wf gi" "0 < stride" "\<forall>b\<in>set bs. b + stride < ngroups gi"
  shows "gi_wf (fold (gs_insert stride) bs gi) \<and> ngroups (fold (gs_insert stride) bs gi) = ngroups gi \<and>
    mset (gi_list (fold (gs_insert stride) bs gi)) = mset (gi_list gi)"
  using assms
proof (induction bs arbitrary: gi)
  case (Cons b bs)
  then show ?case
    using gs_insert_mset [of gi stride b] by simp
qed simp

lemma gs_pass_mset:
  assumes "gi_wf gi" "0 < stride"
  shows "gi_wf (gs_pass stride gi) \<and> ngroups (gs_pass stride gi) = ngroups gi \<and>
    mset (gi_list (gs_pass stride gi)) = mset (gi_list gi)"
  unfolding gs_pass_def using assms by (intro gs_fold_mset) auto

lemma gs_strides_mset:
  assumes "gi_wf gi"
  shows "gi_wf (gs_strides stride gi) \<and> ngroups (gs_strides stride gi) = ngroups gi \<and>
    mset (gi_list (gs_strides stride gi)) = mset (gi_list gi)"
  using assms
proof (induction stride gi rule: gs_strides.induct)
  case (1 stride gi)
  then show ?case
    using gs_pass_mset [of gi stride] by (cases "stride = 0") (auto simp: gs_strides.simps [of stride] gs_strides.simps [of 0])
qed

text \<open>
  The pass with stride 1 is an insertion sort, whatever the earlier passes did. While the
  innermost loop runs, the first \<open>m\<close> gids without the hole at \<open>right\<close> are sorted, and the ones
  after the hole are above \<open>tmp\<close>.
\<close>

lemma sorted_insert_hole:
  assumes "sorted (as @ bs)" "as = [] \<or> last as \<le> t" "\<forall>x\<in>set bs. t < x"
  shows "sorted (as @ t # bs)"
proof -
  have "\<forall>x\<in>set as. x \<le> t"
  proof (cases "as = []")
    case False
    then have "as = butlast as @ [last as]" by simp
    moreover have "sorted as" using assms(1) by (simp add: sorted_append)
    ultimately have "\<forall>x\<in>set as. x \<le> last as"
      by (metis Un_iff empty_iff empty_set list.set_intros(1) order_refl set_ConsD set_append sorted_append)
    then show ?thesis using assms(2) False by auto
  qed simp
  then show ?thesis
    using assms by (force simp: sorted_append)
qed

lemma hole_moves_left:
  assumes "Suc l < m" "m \<le> length xs"
  shows "drop (Suc l) (take m (xs[Suc l := v])) = v # drop (Suc (Suc l)) (take m xs)"
proof -
  have "drop (Suc l) ((take m xs)[Suc l := v]) =
      (take m xs)[Suc l := v] ! Suc l # drop (Suc (Suc l)) ((take m xs)[Suc l := v])"
    using assms by (intro Cons_nth_drop_Suc [symmetric]) simp
  then show ?thesis using assms by (simp add: take_update_swap)
qed

lemma take_fill_hole:
  assumes "r < m" "m \<le> length xs"
  shows "take m (xs[r := t]) = take r xs @ t # drop (Suc r) (take m xs)"
proof -
  have "take m (xs[r := t]) = (take m xs)[r := t]" by (simp add: take_update_swap)
  also have "\<dots> = take r (take m xs) @ t # drop (Suc r) (take m xs)"
    using assms by (intro upd_conv_take_nth_drop) simp
  finally show ?thesis using assms by (simp add: min_def)
qed

lemma gs_shift_sorted:
  assumes "gs_shift stride tmp gi left right = (gi', r)" "stride = 1"
    and "gi_wf gi" "left = right - 1" "0 \<le> right" "right < int m" "m \<le> ngroups gi"
    and "sorted (take (nat right) (gi_list gi) @ drop (Suc (nat right)) (take m (gi_list gi)))"
    and "\<forall>x\<in>set (drop (Suc (nat right)) (take m (gi_list gi))). tmp < x"
  shows "sorted (take m ((gi_list gi')[nat r := tmp]))"
  using assms
proof (induction stride tmp gi left right rule: gs_shift.induct)
  case (1 stride tmp gi left right)
  note run = "1.prems"(1) and wf = "1.prems"(3) and left = "1.prems"(4)
    and srt = "1.prems"(8) and big = "1.prems"(9)
  let ?xs = "gi_list gi" and ?l = "nat left" and ?r = "nat right"
  have rm: "?r < m" and m: "m \<le> length ?xs"
    using "1.prems"(5-7) by auto
  show ?case
  proof (cases "0 < stride \<and> 0 \<le> left \<and> GROUP_AT gi ?l > tmp")
    case True
    let ?gi = "GROUP_AT_set gi ?r (GROUP_AT gi ?l)"
    have lr: "?r = Suc ?l" using left True by arith
    have l: "?l < ngroups gi" using lr rm m by simp
    have rec: "gs_shift stride tmp ?gi (left - int stride) left = (gi', r)"
      using run True by (simp only: gs_shift.simps [of stride tmp gi left right] if_True simp_thms)
    have r: "?r < ngroups gi" using rm m by simp
    have xs': "gi_list ?gi = ?xs[Suc ?l := ?xs ! ?l]"
      using gi_list_GROUP_AT_set [OF wf r] l by (simp only: lr gi_list_nth)
    have d: "drop (Suc ?l) (take m (gi_list ?gi)) = ?xs ! ?l # drop (Suc ?r) (take m ?xs)"
      unfolding xs' unfolding lr by (rule hole_moves_left [OF rm [unfolded lr] m])
    have t: "take ?r ?xs = take ?l ?xs @ [?xs ! ?l]"
      unfolding lr using l by (intro take_Suc_conv_app_nth) simp
    have t': "take ?l (gi_list ?gi) = take ?l ?xs"
      unfolding xs' by simp
    have "?xs ! ?l > tmp" using True l by (simp add: gi_list_nth)
    with big have big': "\<forall>x\<in>set (drop (Suc ?l) (take m (gi_list ?gi))). tmp < x"
      unfolding d by simp
    have srt': "sorted (take ?l (gi_list ?gi) @ drop (Suc ?l) (take m (gi_list ?gi)))"
      using srt unfolding d t' t by simp
    show ?thesis
      by (rule "1.IH" [OF True rec]) (use "1.prems"(2-7) True lr srt' big' in auto)
  next
    case False
    then have res: "gi' = gi" "r = right"
      using run by (auto simp: gs_shift.simps [of stride tmp gi left right])
    have "take ?r ?xs = [] \<or> last (take ?r ?xs) \<le> tmp"
    proof (cases "0 \<le> left")
      case True
      have lr: "?r = Suc ?l" using left True by arith
      then have l: "?l < ngroups gi" using rm m by simp
      with True False "1.prems"(2) have "?xs ! ?l \<le> tmp" by (simp add: gi_list_nth not_less)
      then show ?thesis using lr l by (simp add: take_Suc_conv_app_nth)
    next
      case False
      then have "?r = 0" using left "1.prems"(5) by arith
      then show ?thesis by simp
    qed
    then have "sorted (take ?r ?xs @ tmp # drop (Suc ?r) (take m ?xs))"
      using srt big by (intro sorted_insert_hole)
    then show ?thesis
      unfolding res using rm m by (simp only: take_fill_hole)
  qed
qed

lemma gs_insert_sorted:
  assumes "gi_wf gi" "Suc base < ngroups gi" "sorted (take (Suc base) (gi_list gi))"
  shows "sorted (take (Suc (Suc base)) (gi_list (gs_insert 1 base gi)))"
proof -
  let ?right = "int base + int 1"
  let ?tmp = "GROUP_AT gi (nat ?right)"
  obtain gi' r where sh: "gs_shift 1 ?tmp gi (int base) ?right = (gi', r)"
    by (cases "gs_shift 1 ?tmp gi (int base) ?right")
  have nr: "nat ?right = Suc base" "nat (int base + 1) = Suc base" by simp_all
  have inr: "gi_wf gi' \<and> ngroups gi' = ngroups gi \<and> 0 \<le> r \<and> r < int (ngroups gi)"
    using gs_shift_mset [OF sh assms(1)] assms(2) by simp
  have "sorted (take (Suc (Suc base)) ((gi_list gi')[nat r := ?tmp]))"
    by (rule gs_shift_sorted [OF sh refl assms(1)]) (use assms in \<open>simp_all add: nr\<close>)
  moreover have "gs_insert 1 base gi = GROUP_AT_set gi' (nat r) ?tmp"
    by (simp add: gs_insert_def sh [simplified])
  ultimately show ?thesis
    using inr by (simp add: gi_list_GROUP_AT_set nat_less_iff)
qed

lemma gs_pass_sorted:
  assumes "gi_wf gi"
  shows "sorted (gi_list (gs_pass 1 gi))"
proof -
  have "k + 1 \<le> ngroups gi \<Longrightarrow>
      sorted (take (Suc k) (gi_list (fold (gs_insert 1) [0..<k] gi)))" for k
  proof (induction k)
    case 0
    then show ?case by (cases "gi_list gi") auto
  next
    case (Suc k)
    let ?g = "fold (gs_insert 1) [0..<k] gi"
    have "gi_wf ?g \<and> ngroups ?g = ngroups gi"
      using gs_fold_mset [of gi 1 "[0..<k]"] assms Suc.prems by auto
    with Suc show ?case
      using gs_insert_sorted [of ?g k] by simp
  qed
  from this [of "ngroups gi - 1"] gs_pass_mset [OF assms, of 1]
  show ?thesis
    by (cases "ngroups gi = 0") (auto simp: gs_pass_def gi_list_def)
qed

text \<open>The strides are \<open>\<dots>, 13, 4, 1\<close>: the sequence \<open>gs_first_stride\<close> walks up is walked down to 1.\<close>

fun gs_seq :: "nat \<Rightarrow> nat" where
  "gs_seq 0 = 1"
| "gs_seq (Suc k) = 3 * gs_seq k + 1"

lemma gs_first_stride_seq: "\<exists>j\<ge>k. gs_first_stride n (gs_seq k) = gs_seq j \<and> n \<le> gs_seq j"
proof (induction n "gs_seq k" arbitrary: k rule: gs_first_stride.induct)
  case (1 n)
  show ?case
  proof (cases "gs_seq k < n")
    case True
    from "1" [OF True, of "Suc k"] obtain j where "j \<ge> Suc k" "gs_first_stride n (gs_seq (Suc k)) = gs_seq j"
      "n \<le> gs_seq j" by auto
    with True show ?thesis by (intro exI [of _ j]) (simp add: gs_first_stride.simps [of n "gs_seq k"])
  next
    case False
    then show ?thesis by (intro exI [of _ k]) (simp add: gs_first_stride.simps [of n "gs_seq k"])
  qed
qed

lemma gs_strides_seq_sorted: "gi_wf gi \<Longrightarrow> sorted (gi_list (gs_strides (gs_seq k) gi))"
proof (induction k arbitrary: gi)
  case 0
  then show ?case
    by (simp add: gs_strides.simps [of "Suc 0"] gs_strides.simps [of 0] gs_pass_sorted [simplified])
next
  case (Suc k)
  have "gs_seq (Suc k) \<noteq> 0" "gs_seq (Suc k) div 3 = gs_seq k" by simp_all
  then have "gs_strides (gs_seq (Suc k)) gi = gs_strides (gs_seq k) (gs_pass (gs_seq (Suc k)) gi)"
    by (simp only: gs_strides.simps [of "gs_seq (Suc k)"] if_False)
  moreover have "gi_wf (gs_pass (gs_seq (Suc k)) gi)"
    using Suc.prems gs_pass_mset by simp
  ultimately show ?case using Suc.IH by simp
qed

lemma groups_sort_mset:
  "gi_wf gi \<Longrightarrow> gi_wf (groups_sort gi) \<and> ngroups (groups_sort gi) = ngroups gi \<and>
    mset (gi_list (groups_sort gi)) = mset (gi_list gi)"
  by (simp add: groups_sort_def gs_strides_mset)

lemma groups_sort_sorted:
  assumes "gi_wf gi"
  shows "sorted (gi_list (groups_sort gi))"
proof -
  obtain j where j: "gs_first_stride (ngroups gi) 1 = gs_seq j" "ngroups gi \<le> gs_seq j"
    using gs_first_stride_seq [of 0 "ngroups gi"] by auto
  show ?thesis
  proof (cases j)
    case 0
    then have "length (gi_list gi) \<le> 1" using j by simp
    then have "sorted (gi_list gi)" by (cases "gi_list gi") auto
    moreover have "groups_sort gi = gi"
      using j 0 by (simp add: groups_sort_def gs_strides.simps [of 0])
    ultimately show ?thesis by simp
  next
    case (Suc k)
    have "gs_seq (Suc k) div 3 = gs_seq k" by simp
    then have "groups_sort gi = gs_strides (gs_seq k) gi"
      using j(1) Suc by (simp only: groups_sort_def)
    then show ?thesis using gs_strides_seq_sorted [OF assms] by simp
  qed
qed

section \<open>The search finds exactly the members\<close>

lemma sint_diff_in_range:
  fixes a b :: gid_t
  assumes "\<bar>uint a - uint b\<bar> < 2 ^ 31"
  shows "sint (a - b) = uint a - uint b"
proof -
  have "sint (a - b) = signed_take_bit 31 (uint a - uint b)"
    by (simp add: sint_uint uint_word_ariths signed_take_bit_eq_iff_take_bit_eq take_bit_eq_mod)
  also have "\<dots> = uint a - uint b"
    using assms by (intro signed_take_bit_int_eq_self) auto
  finally show ?thesis .
qed

lemma drop_take_split:
  assumes "l \<le> m" "m < r" "r \<le> length xs"
  shows "drop l (take r xs) = drop l (take m xs) @ xs ! m # drop (Suc m) (take r xs)"
proof -
  have "take r xs = take m (take r xs) @ take r xs ! m # drop (Suc m) (take r xs)"
    using assms by (intro id_take_nth_drop) simp
  then have "take r xs = take m xs @ xs ! m # drop (Suc m) (take r xs)"
    using assms by (simp add: min_def)
  then have "drop l (take r xs) = drop l (take m xs @ xs ! m # drop (Suc m) (take r xs))"
    by (rule arg_cong)
  then show ?thesis using assms by simp
qed

lemma groups_search_loop_correct:
  assumes "sorted (gi_list gi)" "left \<le> right" "right \<le> ngroups gi"
    and "\<forall>x\<in>set (gi_list gi). \<bar>uint grp - uint x\<bar> < 2 ^ 31"
  shows "groups_search_loop gi grp left right \<longleftrightarrow> grp \<in> set (drop left (take right (gi_list gi)))"
  using assms
proof (induction gi grp left right rule: groups_search_loop.induct)
  case (1 gi grp left right)
  let ?xs = "gi_list gi" and ?mid = "(left + right) div 2"
  show ?case
  proof (cases "left < right")
    case True
    have mid: "left \<le> ?mid" "?mid < right" "?mid < length ?xs" using True "1.prems"(3) by auto
    let ?cmp = "sint (grp - GROUP_AT gi ?mid)"
    have at: "GROUP_AT gi ?mid = ?xs ! ?mid" using mid by (simp add: gi_list_nth)
    have cmp: "?cmp = uint grp - uint (?xs ! ?mid)"
      unfolding at using "1.prems"(4) mid by (intro sint_diff_in_range) simp
    have split: "drop left (take right ?xs) =
        drop left (take ?mid ?xs) @ ?xs ! ?mid # drop (Suc ?mid) (take right ?xs)"
      using mid "1.prems"(3) by (intro drop_take_split) simp_all
    have below: "x \<le> ?xs ! ?mid" if "x \<in> set (drop left (take ?mid ?xs))" for x
      using that "1.prems"(1) mid by (auto simp: in_set_conv_nth sorted_iff_nth_mono)
    have above: "?xs ! ?mid \<le> x" if "x \<in> set (drop (Suc ?mid) (take right ?xs))" for x
      using that "1.prems"(1) mid by (auto simp: in_set_conv_nth sorted_iff_nth_mono)
    consider "?cmp > 0" | "?cmp < 0" | "?cmp = 0" by linarith
    then show ?thesis
    proof cases
      case 1
      then have lt: "?xs ! ?mid < grp" unfolding cmp by (simp add: word_less_def)
      then have "grp \<notin> set (drop left (take ?mid ?xs))" using below by fastforce
      moreover have "groups_search_loop gi grp (?mid + 1) right \<longleftrightarrow>
          grp \<in> set (drop (?mid + 1) (take right ?xs))"
        using "1.IH"(1) [OF True refl refl 1] "1.prems" mid by simp
      ultimately show ?thesis
        using True 1 lt by (auto simp: groups_search_loop.simps [of gi grp left right] split Let_def)
    next
      case 2
      then have lt: "grp < ?xs ! ?mid" unfolding cmp by (simp add: word_less_def)
      then have "grp \<notin> set (drop (Suc ?mid) (take right ?xs))" using above by fastforce
      moreover have "groups_search_loop gi grp left ?mid \<longleftrightarrow> grp \<in> set (drop left (take ?mid ?xs))"
        using "1.IH"(2) [OF True refl refl _ 2] 2 "1.prems" mid by simp
      ultimately show ?thesis
        using True 2 lt by (auto simp: groups_search_loop.simps [of gi grp left right] split Let_def)
    next
      case 3
      then have "grp = ?xs ! ?mid" unfolding cmp by (simp add: word_uint_eq_iff)
      then show ?thesis
        using True 3 unfolding groups_search_loop.simps [of gi grp left right] split Let_def by simp
    qed
  next
    case False
    then show ?thesis by (simp add: groups_search_loop.simps [of gi grp left right])
  qed
qed

lemma groups_search_correct:
  assumes "sorted (gi_list gi)" "\<forall>x\<in>set (gi_list gi). \<bar>uint grp - uint x\<bar> < 2 ^ 31"
  shows "groups_search (Some gi) grp \<longleftrightarrow> grp \<in> set (gi_list gi)"
  using groups_search_loop_correct [OF assms(1) _ _ assms(2), of 0 "ngroups gi"]
  by (simp add: groups_search_def)

section \<open>Copies between the blocks and a user array\<close>

text \<open>
  Every block can hold the gids that the copy loops move into it: whole pages, or the small
  block when there is only one.
\<close>

definition blocks_fit :: "nat \<Rightarrow> gid_t list list \<Rightarrow> bool" where
  "blocks_fit n bs \<longleftrightarrow> (\<forall>b\<in>set bs. min NGROUPS_PER_BLOCK n \<le> length b) \<and> n \<le> NGROUPS_PER_BLOCK * length bs"

lemma block_index_Suc:
  assumes "NGROUPS_PER_BLOCK \<le> i"
  shows "i div NGROUPS_PER_BLOCK = Suc ((i - NGROUPS_PER_BLOCK) div NGROUPS_PER_BLOCK)"
    "i mod NGROUPS_PER_BLOCK = (i - NGROUPS_PER_BLOCK) mod NGROUPS_PER_BLOCK"
  using assms by (simp_all add: NGROUPS_PER_BLOCK_def le_div_geq le_mod_geq)

lemma blocks_fit_Cons:
  assumes "blocks_fit n (b # bs)"
  shows "blocks_fit (n - min NGROUPS_PER_BLOCK n) bs" "min NGROUPS_PER_BLOCK n \<le> length b"
  using assms by (auto simp: blocks_fit_def)

lemma blocks_fit_lengths: "map length bs = map length bs' \<Longrightarrow> blocks_fit n bs = blocks_fit n bs'"
proof -
  assume "map length bs = map length bs'"
  then have "length ` set bs = length ` set bs'" "length bs = length bs'"
    by (metis list.set_map, metis length_map)
  then show ?thesis
    unfolding blocks_fit_def by (metis (no_types, lifting) image_iff)
qed

lemma groups_from_user_loop_at:
  assumes "groups_from_user_loop m pos cnt bs = Inr bs'" "blocks_fit cnt bs"
  shows "map length bs' = map length bs \<and> (\<forall>i<cnt. m (pos + i) \<noteq> None \<and>
      i mod NGROUPS_PER_BLOCK < length (bs' ! (i div NGROUPS_PER_BLOCK)) \<and>
      bs' ! (i div NGROUPS_PER_BLOCK) ! (i mod NGROUPS_PER_BLOCK) = the (m (pos + i)))"
  using assms
proof (induction m pos cnt bs arbitrary: bs' rule: groups_from_user_loop.induct)
  case (1 m pos cnt)
  then show ?case by (simp add: blocks_fit_def)
next
  case (2 m pos cnt b bs)
  let ?cp = "min NGROUPS_PER_BLOCK cnt" and ?N = NGROUPS_PER_BLOCK
  note fit = blocks_fit_Cons [OF "2.prems"(2)]
  from "2.prems"(1) obtain b' bs'' where
    b': "copy_from_user m pos ?cp b = Some b'" and
    rec: "groups_from_user_loop m (pos + ?N) (cnt - ?cp) bs = Inr bs''" and bs': "bs' = b' # bs''"
    by (auto simp: Let_def split: option.splits sum.splits)
  have IH: "map length bs'' = map length bs \<and> (\<forall>i<cnt - ?cp. m (pos + ?N + i) \<noteq> None \<and>
      i mod ?N < length (bs'' ! (i div ?N)) \<and>
      bs'' ! (i div ?N) ! (i mod ?N) = the (m (pos + ?N + i)))"
    using "2.IH" [OF refl b' rec fit(1)] .
  from b' have mapped: "\<forall>i<?cp. m (pos + i) \<noteq> None"
    and eq: "b' = map (\<lambda>i. the (m i)) [pos..<pos + ?cp] @ drop ?cp b"
    by (auto simp: copy_from_user_def list_all_iff split: if_splits)
  show ?case
  proof (intro conjI allI impI)
    show "map length bs' = map length (b # bs)" using IH eq fit(2) by (simp add: bs')
  next
    fix i assume i: "i < cnt"
    have "m (pos + i) \<noteq> None \<and> i mod ?N < length (bs' ! (i div ?N)) \<and>
      bs' ! (i div ?N) ! (i mod ?N) = the (m (pos + i))"
    proof (cases "i < ?N")
      case True
      then show ?thesis using i mapped eq fit(2) by (auto simp: bs' nth_append)
    next
      case False
      then have "i - ?N < cnt - ?cp" "pos + ?N + (i - ?N) = pos + i" using i by auto
      with IH have "m (pos + i) \<noteq> None \<and> (i - ?N) mod ?N < length (bs'' ! ((i - ?N) div ?N)) \<and>
          bs'' ! ((i - ?N) div ?N) ! ((i - ?N) mod ?N) = the (m (pos + i))" by metis
      with False show ?thesis by (simp add: bs' block_index_Suc not_less)
    qed
    then show "m (pos + i) \<noteq> None" "i mod ?N < length (bs' ! (i div ?N))"
      "bs' ! (i div ?N) ! (i mod ?N) = the (m (pos + i))" by auto
  qed
qed

lemma groups_to_user_loop_at:
  assumes "groups_to_user_loop m pos cnt bs = Inr m'" "blocks_fit cnt bs"
  shows "m' j = (if pos \<le> j \<and> j < pos + cnt
     then Some (bs ! ((j - pos) div NGROUPS_PER_BLOCK) ! ((j - pos) mod NGROUPS_PER_BLOCK)) else m j)"
  using assms
proof (induction m pos cnt bs rule: groups_to_user_loop.induct)
  case (1 m pos cnt)
  then show ?case by (auto simp: blocks_fit_def)
next
  case (2 m pos cnt b bs)
  let ?cp = "min NGROUPS_PER_BLOCK cnt" and ?N = NGROUPS_PER_BLOCK
  note fit = blocks_fit_Cons [OF "2.prems"(2)]
  from "2.prems"(1) obtain m1 where m1: "copy_to_user m pos (take ?cp b) = Some m1"
    and rec: "groups_to_user_loop m1 (pos + ?N) (cnt - ?cp) bs = Inr m'"
    by (auto simp: Let_def split: option.splits)
  have m1_at: "m1 j = (if pos \<le> j \<and> j < pos + ?cp then Some (b ! (j - pos)) else m j)"
  proof -
    have "take ?cp b ! (j - pos) = b ! (j - pos)" if "pos \<le> j" "j < pos + ?cp"
      using that by (intro nth_take) arith
    then show ?thesis
      using m1 fit(2) by (auto simp: copy_to_user_def split: if_splits)
  qed
  have IH: "m' j = (if pos + ?N \<le> j \<and> j < pos + ?N + (cnt - ?cp)
      then Some (bs ! ((j - (pos + ?N)) div ?N) ! ((j - (pos + ?N)) mod ?N)) else m1 j)"
    using "2.IH" [OF refl m1 rec fit(1)] .
  show ?case
  proof (cases "pos + ?N \<le> j")
    case True
    then have "?N \<le> j - pos" "j - (pos + ?N) = j - pos - ?N" by auto
    with True show ?thesis by (auto simp: IH m1_at block_index_Suc)
  next
    case False
    then show ?thesis by (auto simp: IH m1_at)
  qed
qed

lemma groups_alloc_fit:
  assumes "groups_alloc env n = Some gi"
  shows "ngroups gi = n \<and> length (blocks gi) = nblocks gi \<and> blocks_fit n (blocks gi)"
proof -
  have "n \<le> NGROUPS_PER_BLOCK * ((n + NGROUPS_PER_BLOCK - 1) div NGROUPS_PER_BLOCK)"
    by (simp add: NGROUPS_PER_BLOCK_def)
  with assms show ?thesis
    by (auto simp: groups_alloc_def blocks_fit_def Let_def NGROUPS_PER_BLOCK_def NGROUPS_SMALL_def
        split: if_splits)
qed

text \<open>
  After \<open>groups_from_user\<close> the new \<open>group_info\<close> holds the first \<open>n\<close> gids of the user array, and
  every one of them was readable.
\<close>

lemma groups_from_user_list:
  assumes "groups_alloc env n = Some gi" "groups_from_user m gi = Inr gi'"
  shows "gi_wf gi' \<and> ngroups gi' = n \<and> map Some (gi_list gi') = map m [0..<n] \<and>
    length (blocks gi') = nblocks gi' \<and> blocks_fit n (blocks gi')"
proof -
  note a = groups_alloc_fit [OF assms(1)]
  from assms(2) a obtain bs where bs: "groups_from_user_loop m 0 n (blocks gi) = Inr bs"
    and gi': "gi' = gi\<lparr>blocks := bs\<rparr>"
    by (auto simp: groups_from_user_def split: sum.splits)
  note at = groups_from_user_loop_at [OF bs conjunct2 [OF conjunct2 [OF a]]]
  have "i div NGROUPS_PER_BLOCK < length (blocks gi)" if "i < n" for i
    using that a by (auto simp: blocks_fit_def NGROUPS_PER_BLOCK_def)
  moreover have "length bs = length (blocks gi)" using at by (metis length_map)
  ultimately show ?thesis
    using a at blocks_fit_lengths [of bs "blocks gi" n] by (auto simp: gi' gi_wf_def gi_list_def GROUP_AT_def)
qed

end
