(* ===== verification/Cred.thy ===== *)
theory Cred
  imports Capability GroupInfo
begin

text \<open>
  Task credentials: \<open>struct cred\<close> (\<open>include/linux/cred.h\<close>), the copy-modify-commit protocol of
  \<open>kernel/cred.c\<close> (\<open>prepare_creds\<close>, \<open>commit_creds\<close>), \<open>capable\<close> (\<open>kernel/capability.c\<close>) with
  \<open>cap_capable\<close> (\<open>security/commoncap.c\<close>), and group membership (\<open>kernel/sys.c\<close>).

  The state \<open>kstate\<close> is the part of the current task that this code reads and writes, with the
  per-user process counts. \<open>task->cred\<close> is \<open>real_cred\<close> unless the subjective credentials are
  overridden (\<open>override\<close>). The record \<open>kenv\<close> holds what the code takes from its environment:
  the configuration symbols, whether the slab allocator has memory for this call, and the
  \<open>suid_dumpable\<close> and \<open>file_caps_enabled\<close> settings. Not modelled: reference counts, RCU, key rings
  (\<open>CONFIG_KEYS\<close> is off), LSM blobs (\<open>CONFIG_SECURITY\<close> is off), audit and the process-event
  connector. A system call that ends in \<open>BUG()\<close> has the value \<open>None\<close>.
\<close>

type_synonym uid_t = u32

record cred =
  uid :: uid_t
  gid :: gid_t
  suid :: uid_t
  sgid :: gid_t
  euid :: uid_t
  egid :: gid_t
  fsuid :: uid_t
  fsgid :: gid_t
  securebits :: u32
  cap_inheritable :: kernel_cap_t
  cap_permitted :: kernel_cap_t
  cap_effective :: kernel_cap_t
  cap_bset :: kernel_cap_t
  user :: uid_t
  cr_groups :: group_info

record kstate =
  real_cred :: cred
  override :: "cred option"
  superpriv :: bool
  has_mm :: bool
  dumpable :: nat
  pdeath_signal :: nat
  rlim_nproc :: nat
  global_init :: bool
  processes :: "uid_t \<Rightarrow> nat"

record kenv =
  cfg_file_caps :: bool
  cfg_paranoid_net :: bool
  cred_nomem :: bool
  user_nomem :: bool
  suid_dumpable :: nat
  file_caps_enabled :: bool

type_synonym 'a syscall = "kstate \<Rightarrow> ('a kres \<times> kstate) option"

definition current_cred :: "kstate \<Rightarrow> cred" where
  "current_cred s = (case override s of None \<Rightarrow> real_cred s | Some c \<Rightarrow> c)"

section \<open>Group membership\<close>

definition in_group_p :: "kstate \<Rightarrow> gid_t \<Rightarrow> bool" where
  "in_group_p s grp =
     (let cred = current_cred s
      in if grp \<noteq> fsgid cred then groups_search (Some (cr_groups cred)) grp else True)"

definition in_egroup_p :: "kstate \<Rightarrow> gid_t \<Rightarrow> bool" where
  "in_egroup_p s grp =
     (let cred = current_cred s
      in if grp \<noteq> egid cred then groups_search (Some (cr_groups cred)) grp else True)"

section \<open>Having a capability\<close>

definition AID_NET_RAW :: gid_t where "AID_NET_RAW = 3004"
definition AID_NET_ADMIN :: gid_t where "AID_NET_ADMIN = 3005"

definition cap_capable :: "kenv \<Rightarrow> kstate \<Rightarrow> cred \<Rightarrow> nat \<Rightarrow> unit kres" where
  "cap_capable env s c cap =
     (if cfg_paranoid_net env \<and> cap = CAP_NET_RAW \<and> in_egroup_p s AID_NET_RAW then Inr ()
      else if cfg_paranoid_net env \<and> cap = CAP_NET_ADMIN \<and> in_egroup_p s AID_NET_ADMIN then Inr ()
      else if cap_raised (cap_effective c) cap then Inr () else Inl EPERM)"

text \<open>
  \<open>capable\<close> also marks the task with \<open>PF_SUPERPRIV\<close> when the answer is yes. Its \<open>BUG()\<close> on an
  invalid number is not reached: every caller below passes one of the \<open>CAP_\<dots>\<close> constants.
  \<open>or_capable b\<close> is the C expression \<open>b || capable(cap)\<close>, which calls \<open>capable\<close> only when \<open>b\<close> is false.
\<close>

definition capable :: "kenv \<Rightarrow> nat \<Rightarrow> kstate \<Rightarrow> bool \<times> kstate" where
  "capable env cap s =
     (case cap_capable env s (current_cred s) cap of
        Inr _ \<Rightarrow> (True, s\<lparr>superpriv := True\<rparr>)
      | Inl _ \<Rightarrow> (False, s))"

definition or_capable :: "kenv \<Rightarrow> bool \<Rightarrow> nat \<Rightarrow> kstate \<Rightarrow> bool \<times> kstate" where
  "or_capable env b cap s = (if b then (True, s) else capable env cap s)"

section \<open>Copy, modify, commit\<close>

definition prepare_creds :: "kenv \<Rightarrow> kstate \<Rightarrow> cred option" where
  "prepare_creds env s = (if cred_nomem env then None else Some (current_cred s))"

definition commit_creds :: "kenv \<Rightarrow> cred \<Rightarrow> kstate \<Rightarrow> (u32 kres \<times> kstate) option" where
  "commit_creds env new s =
     (if override s \<noteq> None then None
      else
       let old = real_cred s;
           s1 = (if euid old \<noteq> euid new \<or> egid old \<noteq> egid new \<or> fsuid old \<noteq> fsuid new \<or>
                    fsgid old \<noteq> fsgid new \<or> \<not> cap_issubset (cap_permitted new) (cap_permitted old)
                 then (if has_mm s then s\<lparr>dumpable := suid_dumpable env\<rparr> else s)\<lparr>pdeath_signal := 0\<rparr>
                 else s);
           s2 = (if user new \<noteq> user old
                 then s1\<lparr>processes := (processes s1)(user new := processes s1 (user new) + 1)\<rparr> else s1);
           s3 = s2\<lparr>real_cred := new, override := None\<rparr>;
           s4 = (if user new \<noteq> user old
                 then s3\<lparr>processes := (processes s3)(user old := processes s3 (user old) - 1)\<rparr> else s3)
       in Some (Inr 0, s4))"

text \<open>
  \<open>task_can_switch_user\<close> is constantly true unless both \<open>CONFIG_RT_GROUP_SCHED\<close> and
  \<open>CONFIG_USER_SCHED\<close> are set, which the configuration does not do. \<open>set_user\<close> finds or creates the
  \<open>user_struct\<close> of the new real uid; a \<open>user_struct\<close> is identified with its uid, and \<open>INIT_USER\<close>
  with uid 0.
\<close>

definition task_can_switch_user :: "uid_t \<Rightarrow> kstate \<Rightarrow> bool" where
  "task_can_switch_user up s = True"

definition set_user :: "kenv \<Rightarrow> cred \<Rightarrow> kstate \<Rightarrow> cred kres" where
  "set_user env new s =
     (if user_nomem env then Inl EAGAIN
      else if \<not> task_can_switch_user (uid new) s then Inl EINVAL
      else if processes s (uid new) \<ge> rlim_nproc s \<and> uid new \<noteq> 0 then Inl EAGAIN
      else Inr (new\<lparr>user := uid new\<rparr>))"

section \<open>Facts\<close>

lemma current_cred_superpriv [simp]: "current_cred (s\<lparr>superpriv := b\<rparr>) = current_cred s"
  by (simp add: current_cred_def split: option.split)

lemma capable_cases:
  "capable env cap s = (isl (cap_capable env s (current_cred s) cap) = False,
     if isl (cap_capable env s (current_cred s) cap) then s else s\<lparr>superpriv := True\<rparr>)"
  by (auto simp: capable_def split: sum.splits)

lemma capable_state: "capable env cap s = (b, s') \<Longrightarrow> s' = s\<lparr>superpriv := b \<or> superpriv s\<rparr>"
  by (auto simp: capable_def split: sum.splits)

lemma or_capable_state:
  "or_capable env b cap s = (c, s') \<Longrightarrow> \<exists>p. s' = s\<lparr>superpriv := p\<rparr>"
  by (auto simp: or_capable_def dest: capable_state split: if_splits intro: exI [of _ "superpriv s"])

lemma cap_capable_plain:
  "cap \<noteq> CAP_NET_RAW \<Longrightarrow> cap \<noteq> CAP_NET_ADMIN \<Longrightarrow>
   cap_capable env s c cap = (if cap_raised (cap_effective c) cap then Inr () else Inl EPERM)"
  by (simp add: cap_capable_def)

lemma capable_plain:
  "cap \<noteq> CAP_NET_RAW \<Longrightarrow> cap \<noteq> CAP_NET_ADMIN \<Longrightarrow>
   capable env cap s = (if cap_raised (cap_effective (current_cred s)) cap
     then (True, s\<lparr>superpriv := True\<rparr>) else (False, s))"
  by (simp add: capable_def cap_capable_plain)

lemma commit_creds_Some:
  assumes "commit_creds env new s = Some (r, s')"
  shows "override s = None \<and> r = Inr 0 \<and> real_cred s' = new \<and> override s' = None \<and>
    superpriv s' = superpriv s \<and> has_mm s' = has_mm s \<and> rlim_nproc s' = rlim_nproc s \<and>
    global_init s' = global_init s"
  using assms by (auto simp: commit_creds_def Let_def split: if_splits)

lemma commit_creds_not_BUG: "override s = None \<Longrightarrow> \<exists>s'. commit_creds env new s = Some (Inr 0, s')"
  by (simp add: commit_creds_def Let_def)

lemma commit_creds_cred: "commit_creds env new s = Some (r, s') \<Longrightarrow> current_cred s' = new"
  by (auto simp: current_cred_def dest!: commit_creds_Some)

text \<open>The number of processes over all users does not change: one user gains what another loses.\<close>

lemma commit_creds_processes:
  assumes "commit_creds env new s = Some (r, s')" "0 < processes s (user (real_cred s))"
    "finite A" "user new \<in> A" "user (real_cred s) \<in> A"
  shows "sum (processes s') A = sum (processes s) A"
proof (cases "user new = user (real_cred s)")
  case True
  then show ?thesis using assms(1) by (auto simp: commit_creds_def Let_def split: if_splits)
next
  case False
  let ?n = "user new" and ?o = "user (real_cred s)"
  have p: "processes s' = (processes s)(?n := processes s ?n + 1, ?o := processes s ?o - 1)"
    using assms(1) False by (auto simp: commit_creds_def Let_def fun_eq_iff split: if_splits)
  have "sum (processes s') A = sum (processes s') {?n, ?o} + sum (processes s') (A - {?n, ?o})"
    using assms by (intro sum.subset_diff [of "{?n, ?o}" A, simplified add.commute]) auto
  also have "sum (processes s') {?n, ?o} = sum (processes s) {?n, ?o}"
    using False assms(2) by (simp add: p)
  also have "sum (processes s') (A - {?n, ?o}) = sum (processes s) (A - {?n, ?o})"
    by (intro sum.cong) (auto simp: p)
  also have "sum (processes s) {?n, ?o} + sum (processes s) (A - {?n, ?o}) = sum (processes s) A"
    using assms by (intro sum.subset_diff [of "{?n, ?o}" A, simplified add.commute, symmetric]) auto
  finally show ?thesis .
qed

lemma set_user_Inr: "set_user env new s = Inr c \<Longrightarrow> c = new\<lparr>user := uid new\<rparr>"
  by (auto simp: set_user_def split: if_splits)

end
