(* ===== verification/Commoncap.thy ===== *)
theory Commoncap
  imports Cred
begin

text \<open>
  The capability rules of \<open>src/kernel/security/commoncap.c\<close>, with the system calls \<open>capget\<close> and
  \<open>capset\<close> of \<open>kernel/capability.c\<close>. With \<open>CONFIG_SECURITY\<close> off these functions are the kernel's
  security hooks. The configuration symbol \<open>CONFIG_SECURITY_FILE_CAPABILITIES\<close> is the field
  \<open>cfg_file_caps\<close> of \<open>kenv\<close>, so that both variants of the file are modelled; auditing is off and
  \<open>audit_log_bprm_fcaps\<close> is the constant 0.
\<close>

section \<open>Securebits\<close>

definition SECURE_NOROOT :: nat where "SECURE_NOROOT = 0"
definition SECURE_NO_SETUID_FIXUP :: nat where "SECURE_NO_SETUID_FIXUP = 2"
definition SECURE_KEEP_CAPS :: nat where "SECURE_KEEP_CAPS = 4"
definition SECURE_KEEP_CAPS_LOCKED :: nat where "SECURE_KEEP_CAPS_LOCKED = 5"

definition issecure_mask :: "nat \<Rightarrow> u32" where
  "issecure_mask x = push_bit x 1"

definition issecure :: "kstate \<Rightarrow> nat \<Rightarrow> bool" where
  "issecure s x \<longleftrightarrow> issecure_mask x AND securebits (current_cred s) \<noteq> 0"

definition SECURE_ALL_BITS :: u32 where
  "SECURE_ALL_BITS = issecure_mask SECURE_NOROOT OR issecure_mask SECURE_NO_SETUID_FIXUP
     OR issecure_mask SECURE_KEEP_CAPS"

definition SECURE_ALL_LOCKS :: u32 where
  "SECURE_ALL_LOCKS = push_bit 1 SECURE_ALL_BITS"

section \<open>Simple permission hooks\<close>

definition cap_netlink_send :: "kstate \<Rightarrow> kernel_cap_t" where
  "cap_netlink_send s = cap_effective (current_cred s)"

definition cap_netlink_recv :: "kernel_cap_t \<Rightarrow> nat \<Rightarrow> unit kres" where
  "cap_netlink_recv eff_cap cap = (if \<not> cap_raised eff_cap cap then Inl EPERM else Inr ())"

definition cap_settime :: "kenv \<Rightarrow> kstate \<Rightarrow> unit kres \<times> kstate" where
  "cap_settime env s =
     (case capable env CAP_SYS_TIME s of (c, s') \<Rightarrow> (if \<not> c then Inl EPERM else Inr (), s'))"

definition cap_ptrace_may_access :: "kenv \<Rightarrow> cred \<Rightarrow> kstate \<Rightarrow> unit kres \<times> kstate" where
  "cap_ptrace_may_access env child s =
     (case or_capable env (cap_issubset (cap_permitted child) (cap_permitted (current_cred s)))
             CAP_SYS_PTRACE s of
        (c, s') \<Rightarrow> (if \<not> c then Inl EPERM else Inr (), s'))"

definition cap_ptrace_traceme :: "kenv \<Rightarrow> cred \<Rightarrow> kstate \<Rightarrow> unit kres" where
  "cap_ptrace_traceme env parent s =
     (if \<not> cap_issubset (cap_permitted (current_cred s)) (cap_permitted parent) \<and>
         isl (cap_capable env s parent CAP_SYS_PTRACE)
      then Inl EPERM else Inr ())"

definition cap_syslog :: "kenv \<Rightarrow> int \<Rightarrow> kstate \<Rightarrow> unit kres \<times> kstate" where
  "cap_syslog env type s =
     (case or_capable env (\<not> (type \<noteq> 3 \<and> type \<noteq> 10)) CAP_SYS_ADMIN s of
        (c, s') \<Rightarrow> (if \<not> c then Inl EPERM else Inr (), s'))"

definition XATTR_SECURITY_PREFIX :: string where "XATTR_SECURITY_PREFIX = ''security.''"
definition XATTR_NAME_CAPS :: string where "XATTR_NAME_CAPS = XATTR_SECURITY_PREFIX @ ''capability''"

definition cap_inode_setxattr :: "kenv \<Rightarrow> string \<Rightarrow> kstate \<Rightarrow> unit kres \<times> kstate" where
  "cap_inode_setxattr env name s =
     (if name = XATTR_NAME_CAPS
      then case capable env CAP_SETFCAP s of (c, s') \<Rightarrow> (if \<not> c then Inl EPERM else Inr (), s')
      else case or_capable env
                  (take (length XATTR_SECURITY_PREFIX) name \<noteq> XATTR_SECURITY_PREFIX) CAP_SYS_ADMIN s of
             (c, s') \<Rightarrow> (if \<not> c then Inl EPERM else Inr (), s'))"

definition cap_inode_removexattr :: "kenv \<Rightarrow> string \<Rightarrow> kstate \<Rightarrow> unit kres \<times> kstate" where
  "cap_inode_removexattr env name s =
     (if name = XATTR_NAME_CAPS
      then case capable env CAP_SETFCAP s of (c, s') \<Rightarrow> (if \<not> c then Inl EPERM else Inr (), s')
      else case or_capable env
                  (take (length XATTR_SECURITY_PREFIX) name \<noteq> XATTR_SECURITY_PREFIX) CAP_SYS_ADMIN s of
             (c, s') \<Rightarrow> (if \<not> c then Inl EPERM else Inr (), s'))"

definition cap_safe_nice :: "kenv \<Rightarrow> cred \<Rightarrow> kstate \<Rightarrow> unit kres \<times> kstate" where
  "cap_safe_nice env p s =
     (case or_capable env (cap_issubset (cap_permitted p) (cap_permitted (current_cred s)))
             CAP_SYS_NICE s of
        (c, s') \<Rightarrow> (if \<not> c then Inl EPERM else Inr (), s'))"

text \<open>The three hooks of the scheduler have the same body.\<close>

definition cap_task_setscheduler :: "kenv \<Rightarrow> cred \<Rightarrow> kstate \<Rightarrow> unit kres \<times> kstate" where
  "cap_task_setscheduler env p s = (if cfg_file_caps env then cap_safe_nice env p s else (Inr (), s))"

definition cap_task_setioprio :: "kenv \<Rightarrow> cred \<Rightarrow> kstate \<Rightarrow> unit kres \<times> kstate" where
  "cap_task_setioprio env p s = (if cfg_file_caps env then cap_safe_nice env p s else (Inr (), s))"

definition cap_task_setnice :: "kenv \<Rightarrow> cred \<Rightarrow> kstate \<Rightarrow> unit kres \<times> kstate" where
  "cap_task_setnice env p s = (if cfg_file_caps env then cap_safe_nice env p s else (Inr (), s))"

section \<open>Reading and setting capability sets\<close>

definition cap_capget :: "cred \<Rightarrow> kernel_cap_t \<times> kernel_cap_t \<times> kernel_cap_t" where
  "cap_capget target = (cap_effective target, cap_inheritable target, cap_permitted target)"

definition cap_inh_is_capped :: "kenv \<Rightarrow> kstate \<Rightarrow> bool" where
  "cap_inh_is_capped env s =
     (if cfg_file_caps env \<and> cap_capable env s (current_cred s) CAP_SETPCAP = Inr () then False else True)"

definition cap_capset ::
  "kenv \<Rightarrow> kstate \<Rightarrow> cred \<Rightarrow> cred \<Rightarrow> kernel_cap_t \<Rightarrow> kernel_cap_t \<Rightarrow> kernel_cap_t \<Rightarrow> cred kres" where
  "cap_capset env s new old effective inheritable permitted =
     (if cap_inh_is_capped env s \<and>
         \<not> cap_issubset inheritable (cap_combine (cap_inheritable old) (cap_permitted old))
      then Inl EPERM
      else if \<not> cap_issubset inheritable (cap_combine (cap_inheritable old) (cap_bset old))
      then Inl EPERM
      else if \<not> cap_issubset permitted (cap_permitted old) then Inl EPERM
      else if \<not> cap_issubset effective permitted then Inl EPERM
      else Inr (new\<lparr>cap_effective := effective, cap_inheritable := inheritable,
                    cap_permitted := permitted\<rparr>))"

text \<open>
  The user-space arguments of \<open>capget\<close> and \<open>capset\<close>: the header with its version and pid, and the
  array of three words per element. \<open>None\<close> stands for an address that faults. Writing the preferred
  version back into the header of a bad version fails when the header cannot be written.
\<close>

record cap_user_header =
  hdr_version :: "u32 option"
  hdr_writable :: bool
  hdr_pid :: "int option"

type_synonym cap_user_data = "u32 \<times> u32 \<times> u32"

definition LINUX_CAPABILITY_VERSION_1 :: u32 where "LINUX_CAPABILITY_VERSION_1 = 0x19980330"
definition LINUX_CAPABILITY_VERSION_2 :: u32 where "LINUX_CAPABILITY_VERSION_2 = 0x20071026"
definition LINUX_CAPABILITY_VERSION_3 :: u32 where "LINUX_CAPABILITY_VERSION_3 = 0x20080522"

definition cap_validate_magic :: "cap_user_header \<Rightarrow> nat kres" where
  "cap_validate_magic h =
     (case hdr_version h of
        None \<Rightarrow> Inl EFAULT
      | Some version \<Rightarrow>
          if version = LINUX_CAPABILITY_VERSION_1 then Inr 1
          else if version = LINUX_CAPABILITY_VERSION_2 then Inr 2
          else if version = LINUX_CAPABILITY_VERSION_3 then Inr 2
          else if \<not> hdr_writable h then Inl EFAULT else Inl EINVAL)"

text \<open>\<open>find_task\<close> is \<open>find_task_by_vpid\<close>: the objective credentials of a task, by pid.\<close>

definition cap_get_target_pid ::
  "(int \<rightharpoonup> cred) \<Rightarrow> int \<Rightarrow> int \<Rightarrow> kstate \<Rightarrow> (kernel_cap_t \<times> kernel_cap_t \<times> kernel_cap_t) kres" where
  "cap_get_target_pid find_task current_pid pid s =
     (if pid \<noteq> 0 \<and> pid \<noteq> current_pid
      then case find_task pid of None \<Rightarrow> Inl ESRCH | Some target \<Rightarrow> Inr (cap_capget target)
      else Inr (cap_capget (real_cred s)))"

definition sys_capget ::
  "(int \<rightharpoonup> cred) \<Rightarrow> int \<Rightarrow> cap_user_header \<Rightarrow> bool \<Rightarrow> kstate \<Rightarrow> cap_user_data list kres" where
  "sys_capget find_task current_pid h data_writable s =
     (case cap_validate_magic h of
        Inl e \<Rightarrow> Inl e
      | Inr tocopy \<Rightarrow>
         (case hdr_pid h of
            None \<Rightarrow> Inl EFAULT
          | Some pid \<Rightarrow>
              if pid < 0 then Inl EINVAL
              else (case cap_get_target_pid find_task current_pid pid s of
                      Inl e \<Rightarrow> Inl e
                    | Inr (pE, pI, pP) \<Rightarrow>
                        if \<not> data_writable then Inl EFAULT
                        else Inr (map (\<lambda>i. (cap_at pE i, cap_at pP i, cap_at pI i)) [0..<tocopy]))))"

definition kdata_cap :: "(cap_user_data \<Rightarrow> u32) \<Rightarrow> nat \<Rightarrow> cap_user_data list \<Rightarrow> kernel_cap_t" where
  "kdata_cap f tocopy kdata =
     \<lparr>cap0 = (if 0 < tocopy then f (kdata ! 0) else 0), cap1 = (if 1 < tocopy then f (kdata ! 1) else 0)\<rparr>"

definition sys_capset ::
  "kenv \<Rightarrow> int \<Rightarrow> cap_user_header \<Rightarrow> cap_user_data list option \<Rightarrow> u32 syscall" where
  "sys_capset env current_pid h data s =
     (case cap_validate_magic h of
        Inl e \<Rightarrow> Some (Inl e, s)
      | Inr tocopy \<Rightarrow>
         (case hdr_pid h of
            None \<Rightarrow> Some (Inl EFAULT, s)
          | Some pid \<Rightarrow>
              if pid \<noteq> 0 \<and> pid \<noteq> current_pid then Some (Inl EPERM, s)
              else (case data of
                 None \<Rightarrow> Some (Inl EFAULT, s)
               | Some kdata \<Rightarrow>
                   if length kdata < tocopy then Some (Inl EFAULT, s)
                   else
                    let effective = kdata_cap fst tocopy kdata;
                        permitted = kdata_cap (fst \<circ> snd) tocopy kdata;
                        inheritable = kdata_cap (snd \<circ> snd) tocopy kdata
                    in case prepare_creds env s of
                         None \<Rightarrow> Some (Inl ENOMEM, s)
                       | Some new \<Rightarrow>
                          (case cap_capset env s new (current_cred s) effective inheritable permitted of
                             Inl e \<Rightarrow> Some (Inl e, s)
                           | Inr new' \<Rightarrow> commit_creds env new' s))))"

section \<open>Capabilities across execve\<close>

text \<open>
  The on-disk capabilities \<open>struct vfs_cap_data\<close>: little-endian words, which \<open>le32_to_cpu\<close> leaves
  alone on this target. The extended attribute is read through the inode's \<open>getxattr\<close> operation,
  a parameter here: \<open>None\<close> when there is no inode or the operation is missing, otherwise the error
  or the size with the buffer it filled. The record \<open>linux_binprm\<close> has the fields these functions use.
\<close>

record vfs_cap_data =
  magic_etc :: u32
  vperm0 :: u32
  vinh0 :: u32
  vperm1 :: u32
  vinh1 :: u32

record cpu_vfs_cap_data =
  cmagic_etc :: u32
  vpermitted :: kernel_cap_t
  vinheritable :: kernel_cap_t

type_synonym getxattr_op = "(errno + nat \<times> vfs_cap_data) option"

record linux_binprm =
  bprm_cred :: cred
  bprm_cap_effective :: bool
  bprm_unsafe :: u32
  bprm_nosuid :: bool
  bprm_getxattr :: getxattr_op

definition VFS_CAP_REVISION_MASK :: u32 where "VFS_CAP_REVISION_MASK = 0xFF000000"
definition VFS_CAP_FLAGS_EFFECTIVE :: u32 where "VFS_CAP_FLAGS_EFFECTIVE = 1"
definition VFS_CAP_REVISION_1 :: u32 where "VFS_CAP_REVISION_1 = 0x01000000"
definition VFS_CAP_REVISION_2 :: u32 where "VFS_CAP_REVISION_2 = 0x02000000"
definition XATTR_CAPS_SZ_1 :: nat where "XATTR_CAPS_SZ_1 = 4 * (1 + 2 * 1)"
definition XATTR_CAPS_SZ_2 :: nat where "XATTR_CAPS_SZ_2 = 4 * (1 + 2 * 2)"
definition LSM_UNSAFE_PTRACE_CAP :: u32 where "LSM_UNSAFE_PTRACE_CAP = 4"

definition bprm_clear_caps :: "linux_binprm \<Rightarrow> linux_binprm" where
  "bprm_clear_caps bprm =
     bprm\<lparr>bprm_cred := (bprm_cred bprm)\<lparr>cap_permitted := CAP_EMPTY_SET\<rparr>, bprm_cap_effective := False\<rparr>"

definition cap_inode_need_killpriv :: "kenv \<Rightarrow> getxattr_op \<Rightarrow> nat" where
  "cap_inode_need_killpriv env op =
     (if cfg_file_caps env
      then (case op of None \<Rightarrow> 0
            | Some (Inl _) \<Rightarrow> 0
            | Some (Inr (sz, _)) \<Rightarrow> if sz = 0 then 0 else 1)
      else 0)"

definition cap_inode_killpriv :: "kenv \<Rightarrow> (unit kres) option \<Rightarrow> unit kres" where
  "cap_inode_killpriv env removexattr =
     (if cfg_file_caps env then (case removexattr of None \<Rightarrow> Inr () | Some r \<Rightarrow> r) else Inr ())"

definition word_from_vfs_caps :: "u32 \<Rightarrow> u32 \<Rightarrow> u32 \<Rightarrow> u32 \<Rightarrow> u32 \<times> bool" where
  "word_from_vfs_caps bset pI permitted inheritable =
     (let pP = (bset AND permitted) OR (pI AND inheritable)
      in (pP, permitted AND NOT pP \<noteq> 0))"

definition bprm_caps_from_vfs_caps ::
  "cpu_vfs_cap_data \<Rightarrow> linux_binprm \<Rightarrow> bool \<Rightarrow> unit kres \<times> linux_binprm \<times> bool" where
  "bprm_caps_from_vfs_caps caps bprm effective =
     (let new = bprm_cred bprm;
          effective' = (if cmagic_etc caps AND VFS_CAP_FLAGS_EFFECTIVE \<noteq> 0 then True else effective);
          (w0, bad0) = word_from_vfs_caps (cap_at (cap_bset new) 0) (cap_at (cap_inheritable new) 0)
                         (cap_at (vpermitted caps) 0) (cap_at (vinheritable caps) 0);
          (w1, bad1) = word_from_vfs_caps (cap_at (cap_bset new) 1) (cap_at (cap_inheritable new) 1)
                         (cap_at (vpermitted caps) 1) (cap_at (vinheritable caps) 1);
          ret = (if bad0 \<or> bad1 then Inl EPERM else Inr ())
      in (if effective' then ret else Inr (),
          bprm\<lparr>bprm_cred := new\<lparr>cap_permitted := \<lparr>cap0 = w0, cap1 = w1\<rparr>\<rparr>\<rparr>, effective'))"

definition get_vfs_caps_from_disk :: "kenv \<Rightarrow> getxattr_op \<Rightarrow> cpu_vfs_cap_data kres" where
  "get_vfs_caps_from_disk env op =
     (if \<not> cfg_file_caps env then Inl ENODATA
      else case op of
        None \<Rightarrow> Inl ENODATA
      | Some (Inl e) \<Rightarrow> if e = ENODATA \<or> e = EOPNOTSUPP then Inl ENODATA else Inl e
      | Some (Inr (sz, caps)) \<Rightarrow>
          if sz < 4 then Inl EINVAL
          else if magic_etc caps AND VFS_CAP_REVISION_MASK = VFS_CAP_REVISION_1
          then if sz \<noteq> XATTR_CAPS_SZ_1 then Inl EINVAL
               else Inr \<lparr>cmagic_etc = magic_etc caps,
                         vpermitted = \<lparr>cap0 = vperm0 caps, cap1 = 0\<rparr>,
                         vinheritable = \<lparr>cap0 = vinh0 caps, cap1 = 0\<rparr>\<rparr>
          else if magic_etc caps AND VFS_CAP_REVISION_MASK = VFS_CAP_REVISION_2
          then if sz \<noteq> XATTR_CAPS_SZ_2 then Inl EINVAL
               else Inr \<lparr>cmagic_etc = magic_etc caps,
                         vpermitted = \<lparr>cap0 = vperm0 caps, cap1 = vperm1 caps\<rparr>,
                         vinheritable = \<lparr>cap0 = vinh0 caps, cap1 = vinh1 caps\<rparr>\<rparr>
          else Inl EINVAL)"

definition get_file_caps :: "kenv \<Rightarrow> linux_binprm \<Rightarrow> bool \<Rightarrow> unit kres \<times> linux_binprm \<times> bool" where
  "get_file_caps env bprm0 effective =
     (let bprm = bprm_clear_caps bprm0
      in if \<not> cfg_file_caps env then (Inr (), bprm, effective)
         else if \<not> file_caps_enabled env then (Inr (), bprm, effective)
         else if bprm_nosuid bprm then (Inr (), bprm, effective)
         else case get_vfs_caps_from_disk env (bprm_getxattr bprm) of
                Inl e \<Rightarrow> if e = ENODATA then (Inr (), bprm, effective)
                         else (Inl e, bprm_clear_caps bprm, effective)
              | Inr vcaps \<Rightarrow>
                 (case bprm_caps_from_vfs_caps vcaps bprm effective of
                    (Inl e, bprm', eff') \<Rightarrow> (Inl e, bprm_clear_caps bprm', eff')
                  | (Inr _, bprm', eff') \<Rightarrow> (Inr (), bprm', eff')))"

definition cap_limit_ptraced_target :: "kenv \<Rightarrow> kstate \<Rightarrow> bool \<times> kstate" where
  "cap_limit_ptraced_target env s =
     (if \<not> cfg_file_caps env
      then (case capable env CAP_SETPCAP s of (c, s') \<Rightarrow> (if c then False else True, s'))
      else (True, s))"

text \<open>The four stages of \<open>cap_bprm_set_creds\<close>: root emulation, downgrade of a traced exec, id and
  effective set, and the clearing of the keep-capabilities bit.\<close>

definition bprm_root_emulation :: "kstate \<Rightarrow> cred \<Rightarrow> cred \<Rightarrow> bool \<Rightarrow> cred \<times> bool" where
  "bprm_root_emulation s old new effective =
     (if \<not> issecure s SECURE_NOROOT
      then (if euid new = 0 \<or> uid new = 0
            then new\<lparr>cap_permitted := cap_combine (cap_bset old) (cap_inheritable old)\<rparr> else new,
            if euid new = 0 then True else effective)
      else (new, effective))"

definition bprm_downgrade :: "kenv \<Rightarrow> u32 \<Rightarrow> cred \<Rightarrow> cred \<Rightarrow> kstate \<Rightarrow> cred \<times> kstate" where
  "bprm_downgrade env unsafe old new s =
     (if (euid new \<noteq> uid old \<or> egid new \<noteq> gid old \<or>
          \<not> cap_issubset (cap_permitted new) (cap_permitted old)) \<and>
         unsafe AND NOT LSM_UNSAFE_PTRACE_CAP \<noteq> 0
      then
        let (c, s1) = capable env CAP_SETUID s;
            new1 = (if \<not> c then new\<lparr>euid := uid new, egid := gid new\<rparr> else new);
            (l, s2) = cap_limit_ptraced_target env s1;
            new2 = (if l then new1\<lparr>cap_permitted := cap_intersect (cap_permitted new1) (cap_permitted old)\<rparr>
                    else new1)
        in (new2, s2)
      else (new, s))"

definition cap_bprm_set_creds :: "kenv \<Rightarrow> linux_binprm \<Rightarrow> kstate \<Rightarrow> unit kres \<times> linux_binprm \<times> kstate" where
  "cap_bprm_set_creds env bprm s =
     (let old = current_cred s
      in case get_file_caps env bprm False of
           (Inl e, bprm1, _) \<Rightarrow> (Inl e, bprm1, s)
         | (Inr _, bprm1, eff1) \<Rightarrow>
            (let (new1, effective) = bprm_root_emulation s old (bprm_cred bprm1) eff1;
                 (new2, s') = bprm_downgrade env (bprm_unsafe bprm1) old new1 s;
                 new3 = new2\<lparr>suid := euid new2, fsuid := euid new2, sgid := egid new2, fsgid := egid new2\<rparr>;
                 new4 = (if \<not> global_init s
                         then (if effective then new3\<lparr>cap_effective := cap_permitted new3\<rparr>
                               else new3\<lparr>cap_effective := CAP_EMPTY_SET\<rparr>)
                         else new3);
                 new5 = new4\<lparr>securebits := securebits new4 AND NOT (issecure_mask SECURE_KEEP_CAPS)\<rparr>
             in (Inr (), bprm1\<lparr>bprm_cred := new5, bprm_cap_effective := effective\<rparr>, s')))"

definition cap_bprm_secureexec :: "linux_binprm \<Rightarrow> kstate \<Rightarrow> bool" where
  "cap_bprm_secureexec bprm s =
     (let c = current_cred s
      in if uid c \<noteq> 0 \<and> bprm_cap_effective bprm then True
         else if uid c \<noteq> 0 \<and> \<not> cap_isclear (cap_permitted c) then True
         else euid c \<noteq> uid c \<or> egid c \<noteq> gid c)"

section \<open>Capabilities across set*uid\<close>

definition LSM_SETID_ID :: nat where "LSM_SETID_ID = 1"
definition LSM_SETID_RE :: nat where "LSM_SETID_RE = 2"
definition LSM_SETID_RES :: nat where "LSM_SETID_RES = 4"
definition LSM_SETID_FS :: nat where "LSM_SETID_FS = 8"

definition cap_emulate_setxuid :: "kstate \<Rightarrow> cred \<Rightarrow> cred \<Rightarrow> cred" where
  "cap_emulate_setxuid s new old =
     (let new1 = (if (uid old = 0 \<or> euid old = 0 \<or> suid old = 0) \<and>
                     (uid new \<noteq> 0 \<and> euid new \<noteq> 0 \<and> suid new \<noteq> 0) \<and> \<not> issecure s SECURE_KEEP_CAPS
                  then new\<lparr>cap_permitted := CAP_EMPTY_SET, cap_effective := CAP_EMPTY_SET\<rparr> else new);
          new2 = (if euid old = 0 \<and> euid new1 \<noteq> 0 then new1\<lparr>cap_effective := CAP_EMPTY_SET\<rparr> else new1)
      in if euid old \<noteq> 0 \<and> euid new2 = 0 then new2\<lparr>cap_effective := cap_permitted new2\<rparr> else new2)"

definition cap_task_fix_setuid :: "kstate \<Rightarrow> cred \<Rightarrow> cred \<Rightarrow> nat \<Rightarrow> cred kres" where
  "cap_task_fix_setuid s new old flags =
     (if flags = LSM_SETID_RE \<or> flags = LSM_SETID_ID \<or> flags = LSM_SETID_RES
      then Inr (if \<not> issecure s SECURE_NO_SETUID_FIXUP then cap_emulate_setxuid s new old else new)
      else if flags = LSM_SETID_FS
      then Inr (if \<not> issecure s SECURE_NO_SETUID_FIXUP
                then let new1 = (if fsuid old = 0 \<and> fsuid new \<noteq> 0
                                 then new\<lparr>cap_effective := cap_drop_fs_set (cap_effective new)\<rparr> else new)
                     in if fsuid old \<noteq> 0 \<and> fsuid new1 = 0
                        then new1\<lparr>cap_effective := cap_raise_fs_set (cap_effective new1) (cap_permitted new1)\<rparr>
                        else new1
                else new)
      else Inl EINVAL)"

section \<open>Process control\<close>

definition PR_GET_KEEPCAPS :: nat where "PR_GET_KEEPCAPS = 7"
definition PR_SET_KEEPCAPS :: nat where "PR_SET_KEEPCAPS = 8"
definition PR_CAPBSET_READ :: nat where "PR_CAPBSET_READ = 23"
definition PR_CAPBSET_DROP :: nat where "PR_CAPBSET_DROP = 24"
definition PR_GET_SECUREBITS :: nat where "PR_GET_SECUREBITS = 27"
definition PR_SET_SECUREBITS :: nat where "PR_SET_SECUREBITS = 28"

definition cap_prctl_drop :: "kenv \<Rightarrow> cred \<Rightarrow> nat \<Rightarrow> kstate \<Rightarrow> cred kres \<times> kstate" where
  "cap_prctl_drop env new cap s =
     (case capable env CAP_SETPCAP s of
        (c, s') \<Rightarrow>
          (if \<not> c then Inl EPERM
           else if \<not> cap_valid cap then Inl EINVAL
           else Inr (new\<lparr>cap_bset := cap_lower (cap_bset new) cap\<rparr>), s'))"

text \<open>
  \<open>cap_task_prctl\<close>: the labels \<open>changed\<close>, \<open>no_change\<close> and \<open>error\<close> of the source are \<open>commit_creds\<close>,
  \<open>prctl_no_change\<close> and the return of the error. At \<open>no_change\<close> the source overwrites the value it
  has computed: \<open>error = 0\<close>.
\<close>

definition prctl_no_change :: "u32 \<Rightarrow> u32 kres" where
  "prctl_no_change error = (let error = 0 in Inr error)"

definition securebits_locked :: "u32 \<Rightarrow> u32 \<Rightarrow> bool" where
  "securebits_locked sb arg2 \<longleftrightarrow>
     drop_bit 1 (sb AND SECURE_ALL_LOCKS) AND (sb XOR arg2) \<noteq> 0 \<or>
     sb AND SECURE_ALL_LOCKS AND NOT arg2 \<noteq> 0 \<or>
     arg2 AND NOT (SECURE_ALL_LOCKS OR SECURE_ALL_BITS) \<noteq> 0"

definition cap_task_prctl :: "kenv \<Rightarrow> nat \<Rightarrow> u32 \<Rightarrow> u32 syscall" where
  "cap_task_prctl env option arg2 s =
     (case prepare_creds env s of
        None \<Rightarrow> Some (Inl ENOMEM, s)
      | Some new \<Rightarrow>
         if option = PR_CAPBSET_READ
         then if \<not> cap_valid (unat arg2) then Some (Inl EINVAL, s)
              else let error = (if cap_raised (cap_bset new) (unat arg2) then 1 else 0)
                   in Some (prctl_no_change error, s)
         else if cfg_file_caps env \<and> option = PR_CAPBSET_DROP
         then (case cap_prctl_drop env new (unat arg2) s of
                 (Inl e, s') \<Rightarrow> Some (Inl e, s')
               | (Inr new', s') \<Rightarrow> commit_creds env new' s')
         else if cfg_file_caps env \<and> option = PR_SET_SECUREBITS
         then if securebits_locked (securebits new) arg2 \<or>
                 cap_capable env s (current_cred s) CAP_SETPCAP \<noteq> Inr ()
              then Some (Inl EPERM, s)
              else commit_creds env (new\<lparr>securebits := arg2\<rparr>) s
         else if cfg_file_caps env \<and> option = PR_GET_SECUREBITS
         then let error = securebits new in Some (prctl_no_change error, s)
         else if option = PR_GET_KEEPCAPS
         then let error = (if issecure s SECURE_KEEP_CAPS then 1 else 0) in Some (prctl_no_change error, s)
         else if option = PR_SET_KEEPCAPS
         then if arg2 > 1 then Some (Inl EINVAL, s)
              else if issecure s SECURE_KEEP_CAPS_LOCKED then Some (Inl EPERM, s)
              else if arg2 \<noteq> 0
              then commit_creds env (new\<lparr>securebits := securebits new OR issecure_mask SECURE_KEEP_CAPS\<rparr>) s
              else commit_creds env (new\<lparr>securebits := securebits new AND NOT (issecure_mask SECURE_KEEP_CAPS)\<rparr>) s
         else Some (Inl ENOSYS, s))"

end
