(* ===== verification/SetId.thy ===== *)
theory SetId
  imports Commoncap
begin

text \<open>
  The system calls of \<open>src/kernel/kernel/sys.c\<close> that change the user and group ids of the current
  task, and \<open>getgroups\<close>/\<open>setgroups\<close>. The argument \<open>-1\<close> of an id means "leave it alone", as in the
  source. With \<open>CONFIG_SECURITY\<close> off, \<open>security_task_setuid\<close>, \<open>security_task_setgid\<close> and
  \<open>security_task_setgroups\<close> are the constant 0, and \<open>security_task_fix_setuid\<close> is
  \<open>cap_task_fix_setuid\<close>. The step relation \<open>cred_step\<close> collects every call that changes credentials
  without an \<open>execve\<close>; the properties of the development about sequences of calls are over it.
\<close>

section \<open>Group ids\<close>

definition sys_setregid :: "kenv \<Rightarrow> gid_t \<Rightarrow> gid_t \<Rightarrow> u32 syscall" where
  "sys_setregid env r e s =
     (case prepare_creds env s of
        None \<Rightarrow> Some (Inl ENOMEM, s)
      | Some new \<Rightarrow>
         let old = current_cred s;
             (ok1, s1) = (if r \<noteq> -1 then or_capable env (gid old = r \<or> egid old = r) CAP_SETGID s
                          else (True, s))
         in if \<not> ok1 then Some (Inl EPERM, s1)
            else
              let new1 = (if r \<noteq> -1 then new\<lparr>gid := r\<rparr> else new);
                  (ok2, s2) = (if e \<noteq> -1
                     then or_capable env (gid old = e \<or> egid old = e \<or> sgid old = e) CAP_SETGID s1
                     else (True, s1))
              in if \<not> ok2 then Some (Inl EPERM, s2)
                 else
                   let new2 = (if e \<noteq> -1 then new1\<lparr>egid := e\<rparr> else new1);
                       new3 = (if r \<noteq> -1 \<or> (e \<noteq> -1 \<and> e \<noteq> gid old)
                               then new2\<lparr>sgid := egid new2\<rparr> else new2)
                   in commit_creds env (new3\<lparr>fsgid := egid new3\<rparr>) s2)"

definition sys_setgid :: "kenv \<Rightarrow> gid_t \<Rightarrow> u32 syscall" where
  "sys_setgid env g s =
     (case prepare_creds env s of
        None \<Rightarrow> Some (Inl ENOMEM, s)
      | Some new \<Rightarrow>
         let old = current_cred s; (c, s1) = capable env CAP_SETGID s
         in if c then commit_creds env (new\<lparr>gid := g, egid := g, sgid := g, fsgid := g\<rparr>) s1
            else if g = gid old \<or> g = sgid old
            then commit_creds env (new\<lparr>egid := g, fsgid := g\<rparr>) s1
            else Some (Inl EPERM, s1))"

definition sys_setresgid :: "kenv \<Rightarrow> gid_t \<Rightarrow> gid_t \<Rightarrow> gid_t \<Rightarrow> u32 syscall" where
  "sys_setresgid env r e sv s =
     (case prepare_creds env s of
        None \<Rightarrow> Some (Inl ENOMEM, s)
      | Some new \<Rightarrow>
         let old = current_cred s; (c, s1) = capable env CAP_SETGID s
         in if \<not> c \<and> r \<noteq> -1 \<and> r \<noteq> gid old \<and> r \<noteq> egid old \<and> r \<noteq> sgid old then Some (Inl EPERM, s1)
            else if \<not> c \<and> e \<noteq> -1 \<and> e \<noteq> gid old \<and> e \<noteq> egid old \<and> e \<noteq> sgid old then Some (Inl EPERM, s1)
            else if \<not> c \<and> sv \<noteq> -1 \<and> sv \<noteq> gid old \<and> sv \<noteq> egid old \<and> sv \<noteq> sgid old then Some (Inl EPERM, s1)
            else
              let new1 = (if r \<noteq> -1 then new\<lparr>gid := r\<rparr> else new);
                  new2 = (if e \<noteq> -1 then new1\<lparr>egid := e\<rparr> else new1);
                  new3 = (if sv \<noteq> -1 then new2\<lparr>sgid := sv\<rparr> else new2)
              in commit_creds env (new3\<lparr>fsgid := egid new3\<rparr>) s1)"

definition sys_setfsgid :: "kenv \<Rightarrow> gid_t \<Rightarrow> u32 syscall" where
  "sys_setfsgid env g s =
     (case prepare_creds env s of
        None \<Rightarrow> Some (Inr (fsgid (current_cred s)), s)
      | Some new \<Rightarrow>
         let old = current_cred s; old_fsgid = fsgid old;
             (c, s1) = or_capable env (g = gid old \<or> g = egid old \<or> g = sgid old \<or> g = fsgid old) CAP_SETGID s
         in if c \<and> g \<noteq> old_fsgid
            then (case commit_creds env (new\<lparr>fsgid := g\<rparr>) s1 of
                    None \<Rightarrow> None | Some (_, s2) \<Rightarrow> Some (Inr old_fsgid, s2))
            else Some (Inr old_fsgid, s1))"

section \<open>User ids\<close>

definition sys_setreuid :: "kenv \<Rightarrow> uid_t \<Rightarrow> uid_t \<Rightarrow> u32 syscall" where
  "sys_setreuid env r e s =
     (case prepare_creds env s of
        None \<Rightarrow> Some (Inl ENOMEM, s)
      | Some new \<Rightarrow>
         let old = current_cred s;
             new1 = (if r \<noteq> -1 then new\<lparr>uid := r\<rparr> else new);
             (ok1, s1) = (if r \<noteq> -1 then or_capable env (\<not> (uid old \<noteq> r \<and> euid old \<noteq> r)) CAP_SETUID s
                          else (True, s))
         in if \<not> ok1 then Some (Inl EPERM, s1)
            else
              let new2 = (if e \<noteq> -1 then new1\<lparr>euid := e\<rparr> else new1);
                  (ok2, s2) = (if e \<noteq> -1
                     then or_capable env (\<not> (uid old \<noteq> e \<and> euid old \<noteq> e \<and> suid old \<noteq> e)) CAP_SETUID s1
                     else (True, s1))
              in if \<not> ok2 then Some (Inl EPERM, s2)
                 else case (if uid new2 \<noteq> uid old then set_user env new2 s2 else Inr new2) of
                        Inl err \<Rightarrow> Some (Inl err, s2)
                      | Inr new3 \<Rightarrow>
                         let new4 = (if r \<noteq> -1 \<or> (e \<noteq> -1 \<and> e \<noteq> uid old)
                                     then new3\<lparr>suid := euid new3\<rparr> else new3);
                             new5 = new4\<lparr>fsuid := euid new4\<rparr>
                         in case cap_task_fix_setuid s2 new5 old LSM_SETID_RE of
                              Inl err \<Rightarrow> Some (Inl err, s2)
                            | Inr new6 \<Rightarrow> commit_creds env new6 s2)"

definition sys_setuid :: "kenv \<Rightarrow> uid_t \<Rightarrow> u32 syscall" where
  "sys_setuid env u s =
     (case prepare_creds env s of
        None \<Rightarrow> Some (Inl ENOMEM, s)
      | Some new \<Rightarrow>
         let old = current_cred s; (c, s1) = capable env CAP_SETUID s;
             step1 = (if c
                      then let new1 = new\<lparr>suid := u, uid := u\<rparr>
                           in if u \<noteq> uid old then set_user env new1 s1 else Inr new1
                      else if u \<noteq> uid old \<and> u \<noteq> suid new then Inl EPERM
                      else Inr new)
         in case step1 of
              Inl err \<Rightarrow> Some (Inl err, s1)
            | Inr new2 \<Rightarrow>
               let new3 = new2\<lparr>fsuid := u, euid := u\<rparr>
               in case cap_task_fix_setuid s1 new3 old LSM_SETID_ID of
                    Inl err \<Rightarrow> Some (Inl err, s1)
                  | Inr new4 \<Rightarrow> commit_creds env new4 s1)"

definition sys_setresuid :: "kenv \<Rightarrow> uid_t \<Rightarrow> uid_t \<Rightarrow> uid_t \<Rightarrow> u32 syscall" where
  "sys_setresuid env r e sv s =
     (case prepare_creds env s of
        None \<Rightarrow> Some (Inl ENOMEM, s)
      | Some new \<Rightarrow>
         let old = current_cred s; (c, s1) = capable env CAP_SETUID s
         in if \<not> c \<and> r \<noteq> -1 \<and> r \<noteq> uid old \<and> r \<noteq> euid old \<and> r \<noteq> suid old then Some (Inl EPERM, s1)
            else if \<not> c \<and> e \<noteq> -1 \<and> e \<noteq> uid old \<and> e \<noteq> euid old \<and> e \<noteq> suid old then Some (Inl EPERM, s1)
            else if \<not> c \<and> sv \<noteq> -1 \<and> sv \<noteq> uid old \<and> sv \<noteq> euid old \<and> sv \<noteq> suid old then Some (Inl EPERM, s1)
            else
              let new1 = (if r \<noteq> -1 then new\<lparr>uid := r\<rparr> else new)
              in case (if r \<noteq> -1 \<and> r \<noteq> uid old then set_user env new1 s1 else Inr new1) of
                   Inl err \<Rightarrow> Some (Inl err, s1)
                 | Inr new2 \<Rightarrow>
                    let new3 = (if e \<noteq> -1 then new2\<lparr>euid := e\<rparr> else new2);
                        new4 = (if sv \<noteq> -1 then new3\<lparr>suid := sv\<rparr> else new3);
                        new5 = new4\<lparr>fsuid := euid new4\<rparr>
                    in case cap_task_fix_setuid s1 new5 old LSM_SETID_RES of
                         Inl err \<Rightarrow> Some (Inl err, s1)
                       | Inr new6 \<Rightarrow> commit_creds env new6 s1)"

definition sys_setfsuid :: "kenv \<Rightarrow> uid_t \<Rightarrow> u32 syscall" where
  "sys_setfsuid env u s =
     (case prepare_creds env s of
        None \<Rightarrow> Some (Inr (fsuid (current_cred s)), s)
      | Some new \<Rightarrow>
         let old = current_cred s; old_fsuid = fsuid old;
             (c, s1) = or_capable env (u = uid old \<or> u = euid old \<or> u = suid old \<or> u = fsuid old) CAP_SETUID s
         in if c \<and> u \<noteq> old_fsuid
            then (case cap_task_fix_setuid s1 (new\<lparr>fsuid := u\<rparr>) old LSM_SETID_FS of
                    Inl _ \<Rightarrow> Some (Inr old_fsuid, s1)
                  | Inr new1 \<Rightarrow>
                     (case commit_creds env new1 s1 of
                        None \<Rightarrow> None | Some (_, s2) \<Rightarrow> Some (Inr old_fsuid, s2)))
            else Some (Inr old_fsuid, s1))"

text \<open>
  \<open>getresuid\<close> and \<open>getresgid\<close> store three values through user pointers and stop at the first that
  faults (\<open>writable i\<close> tells whether the i-th pointer is good); the second result is what was stored.
\<close>

fun put_users :: "bool list \<Rightarrow> u32 list \<Rightarrow> u32 kres \<times> u32 list" where
  "put_users (w # ws) (v # vs) =
     (if \<not> w then (Inl EFAULT, []) else (case put_users ws vs of (r, out) \<Rightarrow> (r, v # out)))"
| "put_users ws vs = (Inr 0, [])"

definition sys_getresuid :: "bool \<Rightarrow> bool \<Rightarrow> bool \<Rightarrow> kstate \<Rightarrow> u32 kres \<times> u32 list" where
  "sys_getresuid w0 w1 w2 s =
     (let c = current_cred s in put_users [w0, w1, w2] [uid c, euid c, suid c])"

definition sys_getresgid :: "bool \<Rightarrow> bool \<Rightarrow> bool \<Rightarrow> kstate \<Rightarrow> u32 kres \<times> u32 list" where
  "sys_getresgid w0 w1 w2 s =
     (let c = current_cred s in put_users [w0, w1, w2] [gid c, egid c, sgid c])"

section \<open>Supplementary groups\<close>

definition set_groups :: "cred \<Rightarrow> group_info \<Rightarrow> cred" where
  "set_groups new gi = new\<lparr>cr_groups := groups_sort gi\<rparr>"

definition set_current_groups :: "kenv \<Rightarrow> group_info \<Rightarrow> u32 syscall" where
  "set_current_groups env gi s =
     (case prepare_creds env s of
        None \<Rightarrow> Some (Inl ENOMEM, s)
      | Some new \<Rightarrow> commit_creds env (set_groups new gi) s)"

definition sys_getgroups :: "int \<Rightarrow> umem \<Rightarrow> kstate \<Rightarrow> (nat \<times> umem) kres" where
  "sys_getgroups gidsetsize m s =
     (let c = current_cred s; i = ngroups (cr_groups c)
      in if gidsetsize < 0 then Inl EINVAL
         else if gidsetsize \<noteq> 0
         then if int i > gidsetsize then Inl EINVAL
              else (case groups_to_user m (cr_groups c) of
                      Inl _ \<Rightarrow> Inl EFAULT
                    | Inr m' \<Rightarrow> Inr (i, m'))
         else Inr (i, m))"

definition sys_setgroups :: "kenv \<Rightarrow> alloc_env \<Rightarrow> int \<Rightarrow> umem \<Rightarrow> u32 syscall" where
  "sys_setgroups env aenv gidsetsize m s =
     (case capable env CAP_SETGID s of
        (c, s1) \<Rightarrow>
         if \<not> c then Some (Inl EPERM, s1)
         else if gidsetsize mod 2 ^ 32 > int NGROUPS_MAX then Some (Inl EINVAL, s1)
         else case groups_alloc aenv (nat gidsetsize) of
                None \<Rightarrow> Some (Inl ENOMEM, s1)
              | Some gi \<Rightarrow>
                 (case groups_from_user m gi of
                    Inl err \<Rightarrow> Some (Inl err, s1)
                  | Inr gi' \<Rightarrow> set_current_groups env gi' s1))"

section \<open>Sequences of calls\<close>

inductive cred_step :: "kstate \<Rightarrow> kstate \<Rightarrow> bool" where
  setregid: "sys_setregid env r e s = Some (ret, s') \<Longrightarrow> cred_step s s'"
| setgid: "sys_setgid env g s = Some (ret, s') \<Longrightarrow> cred_step s s'"
| setresgid: "sys_setresgid env r e sv s = Some (ret, s') \<Longrightarrow> cred_step s s'"
| setfsgid: "sys_setfsgid env g s = Some (ret, s') \<Longrightarrow> cred_step s s'"
| setreuid: "sys_setreuid env r e s = Some (ret, s') \<Longrightarrow> cred_step s s'"
| setuid: "sys_setuid env u s = Some (ret, s') \<Longrightarrow> cred_step s s'"
| setresuid: "sys_setresuid env r e sv s = Some (ret, s') \<Longrightarrow> cred_step s s'"
| setfsuid: "sys_setfsuid env u s = Some (ret, s') \<Longrightarrow> cred_step s s'"
| setgroups: "sys_setgroups env aenv n m s = Some (ret, s') \<Longrightarrow> cred_step s s'"
| capset: "sys_capset env pid h data s = Some (ret, s') \<Longrightarrow> cred_step s s'"
| prctl: "cap_task_prctl env opt arg2 s = Some (ret, s') \<Longrightarrow> cred_step s s'"

section \<open>What no call without execve can do\<close>

definition uids :: "cred \<Rightarrow> uid_t set" where
  "uids c = {uid c, euid c, suid c, fsuid c}"

definition gids :: "cred \<Rightarrow> gid_t set" where
  "gids c = {gid c, egid c, sgid c, fsgid c}"

text \<open>A setting of \<open>securebits\<close> that is locked keeps its value and its lock.\<close>

definition locks_kept :: "u32 \<Rightarrow> u32 \<Rightarrow> bool" where
  "locks_kept sb sb' \<longleftrightarrow>
     (\<forall>b\<in>{SECURE_NOROOT, SECURE_NO_SETUID_FIXUP, SECURE_KEEP_CAPS}.
        bit sb (b + 1) \<longrightarrow> bit sb' (b + 1) \<and> bit sb' b = bit sb b)"

definition caps_sound :: "cred \<Rightarrow> bool" where
  "caps_sound c \<longleftrightarrow> cap_issubset (cap_effective c) (cap_permitted c)"

definition cred_le :: "cred \<Rightarrow> cred \<Rightarrow> bool" where
  "cred_le old new \<longleftrightarrow>
     cap_issubset (cap_permitted new) (cap_permitted old) \<and>
     cap_issubset (cap_bset new) (cap_bset old) \<and>
     (caps_sound old \<longrightarrow> caps_sound new) \<and>
     (caps_sound old \<and> \<not> cap_raised (cap_permitted old) CAP_SETUID \<longrightarrow> uids new \<subseteq> uids old) \<and>
     (caps_sound old \<and> \<not> cap_raised (cap_permitted old) CAP_SETGID \<longrightarrow>
        gids new \<subseteq> gids old \<and> cr_groups new = cr_groups old) \<and>
     locks_kept (securebits old) (securebits new)"

lemma locks_kept_refl [simp]: "locks_kept sb sb"
  by (simp add: locks_kept_def)

lemma locks_kept_trans: "locks_kept a b \<Longrightarrow> locks_kept b c \<Longrightarrow> locks_kept a c"
  by (auto simp: locks_kept_def)

lemma cred_le_refl [simp]: "cred_le c c"
  by (simp add: cred_le_def)

lemma raised_mono: "cap_issubset a b \<Longrightarrow> cap_raised a i \<Longrightarrow> i < 64 \<Longrightarrow> cap_raised b i"
  by (auto simp: kcap.caps_issubset caps_of_raised)

lemma CAP_ids_less [simp]: "CAP_SETUID < 64" "CAP_SETGID < 64" "CAP_SETPCAP < 64"
  by (simp_all add: CAP_defs)

lemma CAP_ids_plain [simp]:
  "CAP_SETUID \<noteq> CAP_NET_RAW" "CAP_SETUID \<noteq> CAP_NET_ADMIN" "CAP_SETGID \<noteq> CAP_NET_RAW"
  "CAP_SETGID \<noteq> CAP_NET_ADMIN" "CAP_SETPCAP \<noteq> CAP_NET_RAW" "CAP_SETPCAP \<noteq> CAP_NET_ADMIN"
  by (simp_all add: CAP_defs)

lemma cred_le_trans:
  assumes "cred_le a b" "cred_le b c"
  shows "cred_le a c"
proof -
  have ab: "cap_issubset (cap_permitted b) (cap_permitted a)" using assms(1) by (simp add: cred_le_def)
  have "\<not> cap_raised (cap_permitted a) i \<Longrightarrow> i < 64 \<Longrightarrow> \<not> cap_raised (cap_permitted b) i" for i
    using raised_mono [OF ab] by blast
  with assms show ?thesis
    unfolding cred_le_def
    by (smt (verit, best) CAP_ids_less kcap.issubset_trans locks_kept_trans subset_trans)
qed

text \<open>The id fields aside, a change of ids leaves a credential alone: \<open>same_rights\<close>.\<close>

definition same_rights :: "cred \<Rightarrow> cred \<Rightarrow> bool" where
  "same_rights a b \<longleftrightarrow> cap_inheritable a = cap_inheritable b \<and> cap_permitted a = cap_permitted b \<and>
     cap_effective a = cap_effective b \<and> cap_bset a = cap_bset b \<and> securebits a = securebits b \<and>
     cr_groups a = cr_groups b"

lemma cred_caps_self: "c\<lparr>cap_permitted := cap_permitted c, cap_effective := cap_effective c\<rparr> = c"
  by simp

text \<open>The fix-up after a change of uids writes two fields, and only ever shrinks the permitted set.\<close>

definition caps_fixup :: "cred \<Rightarrow> cred \<Rightarrow> bool" where
  "caps_fixup new c \<longleftrightarrow> (\<exists>P E. c = new\<lparr>cap_permitted := P, cap_effective := E\<rparr> \<and>
     cap_issubset P (cap_permitted new) \<and> (caps_sound new \<longrightarrow> cap_issubset E P))"

lemma caps_fixup_refl [simp]: "caps_fixup c c"
  unfolding caps_fixup_def caps_sound_def
  by (rule exI [of _ "cap_permitted c"], rule exI [of _ "cap_effective c"]) simp

lemma caps_fixup_intro:
  assumes "cap_issubset P (cap_permitted new)" "caps_sound new \<Longrightarrow> cap_issubset E P"
  shows "caps_fixup new (new\<lparr>cap_permitted := P, cap_effective := E\<rparr>)"
  using assms by (auto simp: caps_fixup_def)

lemma caps_fixup_effective:
  assumes "caps_sound new \<Longrightarrow> cap_issubset E (cap_permitted new)"
  shows "caps_fixup new (new\<lparr>cap_effective := E\<rparr>)"
  using caps_fixup_intro [of "cap_permitted new" new E] assms by simp

lemma cap_emulate_setxuid_fixup: "caps_fixup new (cap_emulate_setxuid s new old)"
  by (auto simp: cap_emulate_setxuid_def Let_def intro!: caps_fixup_intro caps_fixup_effective)

lemma fix_setuid_fixup:
  assumes "cap_task_fix_setuid s new old flags = Inr c"
  shows "caps_fixup new c"
  using assms
  by (auto simp: cap_task_fix_setuid_def cap_emulate_setxuid_fixup caps_sound_def Let_def
      cap_drop_fs_set_def cap_raise_fs_set_def kcap.drop_within kcap.raise_within
      intro!: caps_fixup_effective split: if_splits)

lemma cred_le_fixup:
  assumes "cred_le old new" "caps_fixup new c"
  shows "cred_le old c"
proof -
  from assms(2) obtain P E where c: "c = new\<lparr>cap_permitted := P, cap_effective := E\<rparr>"
    and P: "cap_issubset P (cap_permitted new)" and E: "caps_sound new \<Longrightarrow> cap_issubset E P"
    by (auto simp: caps_fixup_def)
  have "cap_issubset P (cap_permitted old)"
    using P assms(1) kcap.issubset_trans by (auto simp: cred_le_def)
  with assms(1) E show ?thesis
    by (auto simp: c cred_le_def caps_sound_def uids_def gids_def)
qed

text \<open>A change of ids that a task without the capability may make, and one that needs it.\<close>

lemma capable_id:
  "capable env CAP_SETUID s = (b, s') \<Longrightarrow> b \<longleftrightarrow> cap_raised (cap_effective (current_cred s)) CAP_SETUID"
  "capable env CAP_SETGID s = (b, s') \<Longrightarrow> b \<longleftrightarrow> cap_raised (cap_effective (current_cred s)) CAP_SETGID"
  by (auto simp: capable_plain split: if_splits)

lemma or_capable_id:
  "or_capable env d CAP_SETUID s = (b, s') \<Longrightarrow> b \<longleftrightarrow> d \<or> cap_raised (cap_effective (current_cred s)) CAP_SETUID"
  "or_capable env d CAP_SETGID s = (b, s') \<Longrightarrow> b \<longleftrightarrow> d \<or> cap_raised (cap_effective (current_cred s)) CAP_SETGID"
  by (auto simp: or_capable_def dest: capable_id split: if_splits)

lemma capable_sp: "capable env cap s = (b, s') \<Longrightarrow> \<exists>p. s' = s\<lparr>superpriv := p\<rparr>"
  using capable_state by blast

lemma sound_not_raised:
  "caps_sound c \<Longrightarrow> \<not> cap_raised (cap_permitted c) i \<Longrightarrow> i < 64 \<Longrightarrow> \<not> cap_raised (cap_effective c) i"
  using raised_mono by (auto simp: caps_sound_def)

lemma cred_le_uids:
  assumes "\<not> cap_raised (cap_effective old) CAP_SETUID \<Longrightarrow> uids new \<subseteq> uids old"
    and "same_rights new old" "gids new = gids old"
  shows "cred_le old new"
  using assms sound_not_raised [of old CAP_SETUID]
  by (auto simp: cred_le_def same_rights_def caps_sound_def)

lemma cred_le_gids:
  assumes "\<not> cap_raised (cap_effective old) CAP_SETGID \<Longrightarrow> gids new \<subseteq> gids old"
    and "same_rights new old" "uids new = uids old"
  shows "cred_le old new"
  using assms sound_not_raised [of old CAP_SETGID]
  by (auto simp: cred_le_def same_rights_def caps_sound_def)

text \<open>
  Every call either leaves the credentials alone (it may set \<open>PF_SUPERPRIV\<close>), or commits a new
  credential that is below the old one in \<open>cred_le\<close>.
\<close>

definition outcome_ok :: "kstate \<Rightarrow> kstate \<Rightarrow> bool" where
  "outcome_ok s s' \<longleftrightarrow> (\<exists>p. s' = s\<lparr>superpriv := p\<rparr>) \<or>
     (\<exists>env new p r. commit_creds env new (s\<lparr>superpriv := p\<rparr>) = Some (r, s') \<and> cred_le (current_cred s) new)"

lemma outcome_same [simp]: "outcome_ok s (s\<lparr>superpriv := p\<rparr>)" "outcome_ok s s"
proof -
  show "outcome_ok s (s\<lparr>superpriv := p\<rparr>)" by (auto simp: outcome_ok_def)
  have "s = s\<lparr>superpriv := superpriv s\<rparr>" by simp
  then show "outcome_ok s s" unfolding outcome_ok_def by blast
qed

lemma outcome_commit:
  assumes "commit_creds env new s1 = Some (r, s')" "s1 = s \<or> s1 = s\<lparr>superpriv := True\<rparr>"
    "cred_le (current_cred s) new"
  shows "outcome_ok s s'"
proof -
  have "s = s\<lparr>superpriv := superpriv s\<rparr>" by simp
  then show ?thesis using assms unfolding outcome_ok_def by metis
qed

lemma outcome_fixup:
  assumes "commit_creds env c s1 = Some (r, s')" "s1 = s \<or> s1 = s\<lparr>superpriv := True\<rparr>"
    "cap_task_fix_setuid s1 new old flags = Inr c" "cred_le (current_cred s) new"
  shows "outcome_ok s s'"
  using assms cred_le_fixup [OF assms(4) fix_setuid_fixup [OF assms(3)]] outcome_commit by blast

lemma prepare_creds_Some: "prepare_creds env s = Some new \<Longrightarrow> new = current_cred s"
  by (simp add: prepare_creds_def split: if_splits)

lemma same_rights_simps [simp]:
  "same_rights c c"
  "same_rights (c\<lparr>uid := u\<rparr>) d = same_rights c d" "same_rights (c\<lparr>euid := u\<rparr>) d = same_rights c d"
  "same_rights (c\<lparr>suid := u\<rparr>) d = same_rights c d" "same_rights (c\<lparr>fsuid := u\<rparr>) d = same_rights c d"
  "same_rights (c\<lparr>gid := u\<rparr>) d = same_rights c d" "same_rights (c\<lparr>egid := u\<rparr>) d = same_rights c d"
  "same_rights (c\<lparr>sgid := u\<rparr>) d = same_rights c d" "same_rights (c\<lparr>fsgid := u\<rparr>) d = same_rights c d"
  "same_rights (c\<lparr>user := u\<rparr>) d = same_rights c d"
  by (simp_all add: same_rights_def)

lemmas syscall_unfold =
  Let_def or_capable_def capable_plain [OF CAP_ids_plain(1,2)] capable_plain [OF CAP_ids_plain(3,4)]

lemma sys_setgid_ok: "sys_setgid env g s = Some (r, s') \<Longrightarrow> outcome_ok s s'"
  by (auto simp: sys_setgid_def syscall_unfold uids_def gids_def split: option.splits if_splits
      dest!: prepare_creds_Some elim!: outcome_commit intro!: cred_le_gids)

lemma sys_setregid_ok: "sys_setregid env re e s = Some (r, s') \<Longrightarrow> outcome_ok s s'"
  by (auto simp: sys_setregid_def syscall_unfold uids_def gids_def split: option.splits if_splits
      dest!: prepare_creds_Some elim!: outcome_commit intro!: cred_le_gids)

lemma sys_setresgid_ok: "sys_setresgid env re e sv s = Some (r, s') \<Longrightarrow> outcome_ok s s'"
  by (auto simp: sys_setresgid_def syscall_unfold uids_def gids_def split: option.splits if_splits
      dest!: prepare_creds_Some elim!: outcome_commit intro!: cred_le_gids)

lemma sys_setfsgid_ok: "sys_setfsgid env g s = Some (r, s') \<Longrightarrow> outcome_ok s s'"
  by (auto simp: sys_setfsgid_def syscall_unfold uids_def gids_def split: option.splits if_splits
      dest!: prepare_creds_Some elim!: outcome_commit intro!: cred_le_gids)

lemma sys_setuid_ok: "sys_setuid env u s = Some (r, s') \<Longrightarrow> outcome_ok s s'"
  by (auto simp: sys_setuid_def syscall_unfold uids_def gids_def split: option.splits if_splits sum.splits
      dest!: prepare_creds_Some set_user_Inr elim!: outcome_fixup intro!: cred_le_uids)

lemma sys_setreuid_ok: "sys_setreuid env re e s = Some (r, s') \<Longrightarrow> outcome_ok s s'"
  by (auto simp: sys_setreuid_def syscall_unfold uids_def gids_def split: option.splits if_splits sum.splits
      dest!: prepare_creds_Some set_user_Inr elim!: outcome_fixup intro!: cred_le_uids)

lemma sys_setresuid_ok: "sys_setresuid env re e sv s = Some (r, s') \<Longrightarrow> outcome_ok s s'"
  by (auto simp: sys_setresuid_def syscall_unfold uids_def gids_def split: option.splits if_splits sum.splits
      dest!: prepare_creds_Some set_user_Inr elim!: outcome_fixup intro!: cred_le_uids)

lemma sys_setfsuid_ok: "sys_setfsuid env u s = Some (r, s') \<Longrightarrow> outcome_ok s s'"
  by (auto simp: sys_setfsuid_def syscall_unfold uids_def gids_def split: option.splits if_splits sum.splits
      dest!: prepare_creds_Some set_user_Inr elim!: outcome_fixup intro!: cred_le_uids)

lemma cred_le_groups:
  assumes "cap_raised (cap_effective old) CAP_SETGID"
  shows "cred_le old (old\<lparr>cr_groups := gi\<rparr>)"
  using assms sound_not_raised [of old CAP_SETGID]
  by (auto simp: cred_le_def caps_sound_def uids_def gids_def)

lemma sys_setgroups_ok: "sys_setgroups env aenv n m s = Some (r, s') \<Longrightarrow> outcome_ok s s'"
  by (auto simp: sys_setgroups_def set_current_groups_def set_groups_def syscall_unfold
      split: option.splits if_splits sum.splits
      dest!: prepare_creds_Some elim!: outcome_commit intro!: cred_le_groups)

lemma cap_capset_le:
  assumes "cap_capset env s old old E I P = Inr new"
  shows "cred_le old new"
  using assms
  by (auto simp: cap_capset_def cred_le_def caps_sound_def uids_def gids_def split: if_splits)

lemma sys_capset_ok: "sys_capset env pid h data s = Some (r, s') \<Longrightarrow> outcome_ok s s'"
  by (auto simp: sys_capset_def Let_def split: option.splits if_splits sum.splits
      dest!: prepare_creds_Some elim!: outcome_commit intro!: cap_capset_le)

lemma cred_le_bset:
  assumes "cap_valid i"
  shows "cred_le old (old\<lparr>cap_bset := cap_lower (cap_bset old) i\<rparr>)"
  using cap_valid_less [OF assms]
  by (auto simp: cred_le_def caps_sound_def uids_def gids_def caps_of_issubset caps_of_lower)

lemma cred_le_securebits:
  assumes "locks_kept (securebits old) sb"
  shows "cred_le old (old\<lparr>securebits := sb\<rparr>)"
  using assms by (auto simp: cred_le_def caps_sound_def uids_def gids_def)

lemma bit_issecure_mask: "bit (issecure_mask x) n \<longleftrightarrow> n = x \<and> n < 32"
  by (auto simp: issecure_mask_def bit_simps)

lemma bit_SECURE_ALL_BITS: "bit SECURE_ALL_BITS n \<longleftrightarrow> n = 0 \<or> n = 2 \<or> n = 4"
  by (simp only: SECURE_ALL_BITS_def bit_or_iff bit_issecure_mask)
    (auto simp: SECURE_NOROOT_def SECURE_NO_SETUID_FIXUP_def SECURE_KEEP_CAPS_def)

lemma bit_SECURE_ALL_LOCKS: "bit SECURE_ALL_LOCKS n \<longleftrightarrow> n = 1 \<or> n = 3 \<or> n = 5"
  by (simp only: SECURE_ALL_LOCKS_def bit_push_bit_iff bit_SECURE_ALL_BITS) auto

lemma securebits_unlocked:
  assumes "\<not> securebits_locked sb sb'"
  shows "locks_kept sb sb'"
proof -
  have z1: "drop_bit 1 (sb AND SECURE_ALL_LOCKS) AND (sb XOR sb') = 0"
    and z2: "sb AND SECURE_ALL_LOCKS AND NOT sb' = 0"
    using assms by (auto simp: securebits_locked_def)
  have 1: "\<not> (bit sb (Suc n) \<and> bit SECURE_ALL_LOCKS (Suc n) \<and> bit sb n \<noteq> bit sb' n)" for n
  proof -
    have "\<not> bit (drop_bit 1 (sb AND SECURE_ALL_LOCKS) AND (sb XOR sb')) n" unfolding z1 by simp
    then show ?thesis by (auto simp: bit_simps)
  qed
  have 2: "\<not> (bit sb n \<and> bit SECURE_ALL_LOCKS n \<and> \<not> bit sb' n)" for n
  proof -
    have "\<not> bit (sb AND SECURE_ALL_LOCKS AND NOT sb') n" unfolding z2 by simp
    then show ?thesis by (auto simp: bit_simps dest: bit_imp_le_length)
  qed
  from 1 [of 0] 1 [of 2] 1 [of 4] 2 [of 1] 2 [of 3] 2 [of 5] show ?thesis
    by (auto simp: locks_kept_def bit_SECURE_ALL_LOCKS SECURE_NOROOT_def SECURE_NO_SETUID_FIXUP_def
        SECURE_KEEP_CAPS_def)
qed

lemma issecure_bit: "issecure s n \<longleftrightarrow> bit (securebits (current_cred s)) n"
  by (simp add: issecure_def issecure_mask_def and_exp_eq_0_iff_not_bit and.commute)

lemma keep_caps_unlocked:
  assumes "\<not> bit sb SECURE_KEEP_CAPS_LOCKED"
  shows "locks_kept sb (sb OR issecure_mask SECURE_KEEP_CAPS)"
    "locks_kept sb (sb AND NOT (issecure_mask SECURE_KEEP_CAPS))"
  using assms
  by (auto simp: locks_kept_def issecure_mask_def bit_simps SECURE_NOROOT_def
      SECURE_NO_SETUID_FIXUP_def SECURE_KEEP_CAPS_def SECURE_KEEP_CAPS_LOCKED_def dest: bit_imp_le_length)

lemma cap_task_prctl_ok: "cap_task_prctl env opt arg2 s = Some (r, s') \<Longrightarrow> outcome_ok s s'"
  by (auto simp: cap_task_prctl_def cap_prctl_drop_def Let_def capable_plain [OF CAP_ids_plain(5,6)]
      issecure_bit split: option.splits if_splits sum.splits prod.splits
      dest!: prepare_creds_Some elim!: outcome_commit
      intro!: cred_le_bset cred_le_securebits securebits_unlocked keep_caps_unlocked)

lemma cred_step_ok: "cred_step s s' \<Longrightarrow> outcome_ok s s'"
  by (erule cred_step.cases)
    (blast intro: sys_setregid_ok sys_setgid_ok sys_setresgid_ok sys_setfsgid_ok sys_setreuid_ok
      sys_setuid_ok sys_setresuid_ok sys_setfsuid_ok sys_setgroups_ok sys_capset_ok cap_task_prctl_ok)+

lemma outcome_ok_le: "outcome_ok s s' \<Longrightarrow> cred_le (current_cred s) (current_cred s')"
  by (auto simp: outcome_ok_def dest: commit_creds_cred)

section \<open>A contract for sequences of calls\<close>

text \<open>
  A property that relates the credentials before and after one call carries over to any sequence
  of calls when it is reflexive and transitive.
\<close>

locale step_preorder =
  fixes step :: "'s \<Rightarrow> 's \<Rightarrow> bool"
    and view :: "'s \<Rightarrow> 'v"
    and le :: "'v \<Rightarrow> 'v \<Rightarrow> bool"
  assumes le_refl: "le v v"
    and le_trans: "le u v \<Longrightarrow> le v w \<Longrightarrow> le u w"
    and step_le: "step s s' \<Longrightarrow> le (view s) (view s')"
begin

lemma steps_le: "step\<^sup>*\<^sup>* s s' \<Longrightarrow> le (view s) (view s')"
  by (induction rule: rtranclp_induct) (auto intro: le_refl le_trans step_le)

end

interpretation creds: step_preorder cred_step current_cred cred_le
  by unfold_locales (auto intro: cred_le_trans outcome_ok_le cred_step_ok)

end
