(* ===== verification/CredSafety.thy ===== *)
theory CredSafety
  imports SetId
begin

text \<open>
  The properties of credentials over all sequences of the id, group, capability and \<open>prctl\<close> calls, of
  the credentials of \<open>exec\<close>, and of supplementary groups, with example states for their witnesses.
\<close>

section \<open>Example states for the witnesses\<close>

definition ex_env :: kenv where
  "ex_env = \<lparr>cfg_file_caps = True, cfg_paranoid_net = True, cred_nomem = False, user_nomem = False,
     suid_dumpable = 0, file_caps_enabled = True\<rparr>"

definition ex_root_cred :: cred where
  "ex_root_cred = \<lparr>uid = 0, gid = 0, suid = 0, sgid = 0, euid = 0, egid = 0, fsuid = 0, fsgid = 0,
     securebits = 0, cap_inheritable = CAP_EMPTY_SET, cap_permitted = CAP_FULL_SET,
     cap_effective = CAP_FULL_SET, cap_bset = CAP_FULL_SET, user = 0,
     cr_groups = \<lparr>ngroups = 0, nblocks = 1, blocks = [[]]\<rparr>\<rparr>"

definition ex_root :: kstate where
  "ex_root = \<lparr>real_cred = ex_root_cred, override = None, superpriv = False, has_mm = True, dumpable = 1,
     pdeath_signal = 0, rlim_nproc = 100, global_init = False, processes = (\<lambda>_. 1)\<rparr>"

definition ex_user :: kstate where
  "ex_user = ex_root\<lparr>real_cred := ex_root_cred\<lparr>uid := 1000, suid := 1001, euid := 1000, fsuid := 1000,
     cap_permitted := CAP_EMPTY_SET, cap_effective := CAP_EMPTY_SET, user := 1000\<rparr>\<rparr>"

lemmas ex_defs = ex_env_def ex_root_cred_def ex_root_def ex_user_def CAP_FULL_SET_def CAP_EMPTY_SET_def

lemma ex_current [simp]:
  "current_cred ex_root = ex_root_cred"
  by (simp add: current_cred_def ex_root_def)

lemma ex_raised [simp]: "i < 64 \<Longrightarrow> cap_raised CAP_FULL_SET i" "i < 64 \<Longrightarrow> \<not> cap_raised CAP_EMPTY_SET i"
  by (simp_all add: caps_of_raised caps_of_full caps_of_empty)

section \<open>Properties\<close>

text \<open>
  C1. No sequence of id, group, capability and prctl calls gives a task a permitted capability
  or a bounding capability it did not have, and an effective set within the permitted set stays
  within it.
\<close>

theorem calls_never_gain_capabilities:
  assumes "cred_step\<^sup>*\<^sup>* s s'"
  shows "caps_of (cap_permitted (current_cred s')) \<subseteq> caps_of (cap_permitted (current_cred s)) \<and>
    caps_of (cap_bset (current_cred s')) \<subseteq> caps_of (cap_bset (current_cred s)) \<and>
    (caps_sound (current_cred s) \<longrightarrow> caps_sound (current_cred s'))"
  using creds.steps_le [OF assms] by (simp add: cred_le_def kcap.caps_issubset)

theorem calls_never_gain_capabilities_witness:
  "\<exists>s'. cred_step\<^sup>*\<^sup>* ex_root s' \<and> s' \<noteq> ex_root \<and>
     caps_of (cap_permitted (current_cred s')) \<subseteq> caps_of (cap_permitted (current_cred ex_root))"
proof -
  have ev: "map_option fst (sys_setgid ex_env 5 ex_root) = Some (Inr 0)"
    "gid (current_cred (snd (the (sys_setgid ex_env 5 ex_root)))) = 5"
    by code_simp+
  then obtain s' where s': "sys_setgid ex_env 5 ex_root = Some (Inr 0, s')" "gid (current_cred s') = 5"
    by auto
  then have st: "cred_step\<^sup>*\<^sup>* ex_root s'" by (intro r_into_rtranclp cred_step.setgid)
  have "s' \<noteq> ex_root" using s'(2) by (auto simp: ex_root_cred_def)
  with st calls_never_gain_capabilities [OF st] show ?thesis by blast
qed

text \<open>
  C9. A task whose permitted set lacks \<open>CAP_SETUID\<close> (and whose effective set is within it) can reach
  by any sequence of calls only the user ids it started with, and likewise for \<open>CAP_SETGID\<close>, the
  group ids and the supplementary groups.
\<close>

theorem ids_confined:
  assumes "cred_step\<^sup>*\<^sup>* s s'" "caps_sound (current_cred s)"
  shows "(\<not> cap_raised (cap_permitted (current_cred s)) CAP_SETUID \<longrightarrow>
      uids (current_cred s') \<subseteq> uids (current_cred s)) \<and>
    (\<not> cap_raised (cap_permitted (current_cred s)) CAP_SETGID \<longrightarrow>
      gids (current_cred s') \<subseteq> gids (current_cred s) \<and>
      cr_groups (current_cred s') = cr_groups (current_cred s))"
  using creds.steps_le [OF assms(1)] assms(2) by (simp add: cred_le_def)

theorem ids_confined_witness:
  "\<exists>s'. cred_step\<^sup>*\<^sup>* ex_user s' \<and> euid (current_cred s') = 1001 \<and>
     uids (current_cred s') \<subseteq> uids (current_cred ex_user)"
proof -
  have ev: "map_option fst (sys_setuid ex_env 1001 ex_user) = Some (Inr 0)"
    "euid (current_cred (snd (the (sys_setuid ex_env 1001 ex_user)))) = 1001"
    by code_simp+
  then obtain s' where s': "sys_setuid ex_env 1001 ex_user = Some (Inr 0, s')" "euid (current_cred s') = 1001"
    by auto
  then have st: "cred_step\<^sup>*\<^sup>* ex_user s'" by (intro r_into_rtranclp cred_step.setuid)
  have "caps_sound (current_cred ex_user)" "\<not> cap_raised (cap_permitted (current_cred ex_user)) CAP_SETUID"
    by code_simp+
  with st s'(2) ids_confined [OF st] show ?thesis by blast
qed



text \<open>
  C26. A securebits setting whose lock bit is set keeps its value, and its lock, through every
  sequence of calls.
\<close>

theorem locked_securebits_stay:
  assumes "cred_step\<^sup>*\<^sup>* s s'" "b \<in> {SECURE_NOROOT, SECURE_NO_SETUID_FIXUP, SECURE_KEEP_CAPS}"
    "issecure s (b + 1)"
  shows "issecure s' (b + 1) \<and> (issecure s' b \<longleftrightarrow> issecure s b)"
  using creds.steps_le [OF assms(1)] assms(2,3) by (auto simp: cred_le_def locks_kept_def issecure_bit)

definition ex_locked :: kstate where
  "ex_locked = ex_root\<lparr>real_cred := ex_root_cred\<lparr>securebits := 0x2\<rparr>\<rparr>"

theorem locked_securebits_stay_witness:
  "\<exists>s'. cred_step\<^sup>*\<^sup>* ex_locked s' \<and> issecure s' SECURE_KEEP_CAPS \<and> issecure s' (SECURE_NOROOT + 1) \<and>
     \<not> issecure s' SECURE_NOROOT"
proof -
  have "map_option fst (cap_task_prctl ex_env PR_SET_SECUREBITS 0x12 ex_locked) = Some (Inr 0)"
    "issecure (snd (the (cap_task_prctl ex_env PR_SET_SECUREBITS 0x12 ex_locked))) SECURE_KEEP_CAPS"
    by code_simp+
  then obtain s' where s': "cap_task_prctl ex_env PR_SET_SECUREBITS 0x12 ex_locked = Some (Inr 0, s')"
    "issecure s' SECURE_KEEP_CAPS" by auto
  then have st: "cred_step\<^sup>*\<^sup>* ex_locked s'" by (intro r_into_rtranclp cred_step.prctl)
  have "issecure ex_locked (SECURE_NOROOT + 1)" "\<not> issecure ex_locked SECURE_NOROOT" by code_simp+
  with st s'(2) locked_securebits_stay [OF st, of SECURE_NOROOT] show ?thesis by blast
qed


section \<open>Exec\<close>

lemma caps_of_words:
  "caps_of \<lparr>cap0 = cap0 a AND cap0 b OR cap0 c AND cap0 d, cap1 = cap1 a AND cap1 b OR cap1 c AND cap1 d\<rparr> =
   caps_of a \<inter> caps_of b \<union> caps_of c \<inter> caps_of d"
proof -
  have "\<lparr>cap0 = cap0 a AND cap0 b OR cap0 c AND cap0 d, cap1 = cap1 a AND cap1 b OR cap1 c AND cap1 d\<rparr> =
    cap_combine (cap_intersect a b) (cap_intersect c d)"
    by (simp add: cap_combine_def cap_intersect_def CAP_BOP_ALL_def cap_at_def)
  then show ?thesis by (simp add: caps_of_combine caps_of_intersect)
qed

definition same_but_permitted :: "cred \<Rightarrow> cred \<Rightarrow> bool" where
  "same_but_permitted a b \<longleftrightarrow> a\<lparr>cap_permitted := CAP_EMPTY_SET\<rparr> = b\<lparr>cap_permitted := CAP_EMPTY_SET\<rparr>"

lemma same_but_permitted_simps [simp]:
  "same_but_permitted (c\<lparr>cap_permitted := P\<rparr>) d = same_but_permitted c d"
  "same_but_permitted c (d\<lparr>cap_permitted := P\<rparr>) = same_but_permitted c d"
  "same_but_permitted c c"
  by (simp_all add: same_but_permitted_def)


lemma bprm_clear_caps_simps [simp]:
  "bprm_cred (bprm_clear_caps b) = (bprm_cred b)\<lparr>cap_permitted := CAP_EMPTY_SET\<rparr>"
  "bprm_unsafe (bprm_clear_caps b) = bprm_unsafe b" "bprm_getxattr (bprm_clear_caps b) = bprm_getxattr b"
  "bprm_nosuid (bprm_clear_caps b) = bprm_nosuid b"
  by (simp_all add: bprm_clear_caps_def)

text \<open>The file's sets give \<open>(bset \<inter> fP) \<union> (pI \<inter> fI)\<close>, and no other field changes.\<close>

lemma bprm_caps_from_vfs_caps_permitted:
  assumes "bprm_caps_from_vfs_caps caps bprm e = (r, bprm', e')"
  shows "same_but_permitted (bprm_cred bprm') (bprm_cred bprm) \<and>
    bprm_unsafe bprm' = bprm_unsafe bprm \<and> caps_of (cap_permitted (bprm_cred bprm')) = caps_of (cap_bset (bprm_cred bprm)) \<inter> caps_of (vpermitted caps) \<union>
      caps_of (cap_inheritable (bprm_cred bprm)) \<inter> caps_of (vinheritable caps)"
proof -
  define P where "P = \<lparr>
      cap0 = cap0 (cap_bset (bprm_cred bprm)) AND cap0 (vpermitted caps) OR
        cap0 (cap_inheritable (bprm_cred bprm)) AND cap0 (vinheritable caps),
      cap1 = cap1 (cap_bset (bprm_cred bprm)) AND cap1 (vpermitted caps) OR
        cap1 (cap_inheritable (bprm_cred bprm)) AND cap1 (vinheritable caps)\<rparr>"
  have "bprm' = bprm\<lparr>bprm_cred := (bprm_cred bprm)\<lparr>cap_permitted := P\<rparr>\<rparr>"
    using assms by (auto simp: bprm_caps_from_vfs_caps_def word_from_vfs_caps_def Let_def cap_at_def P_def)
  moreover have "caps_of P = caps_of (cap_bset (bprm_cred bprm)) \<inter> caps_of (vpermitted caps) \<union>
      caps_of (cap_inheritable (bprm_cred bprm)) \<inter> caps_of (vinheritable caps)"
    unfolding P_def by (rule caps_of_words)
  ultimately show ?thesis by simp
qed

lemma get_file_caps_permitted:
  assumes "get_file_caps env bprm e = (r, bprm', e')"
  shows "same_but_permitted (bprm_cred bprm') (bprm_cred bprm) \<and>
    bprm_unsafe bprm' = bprm_unsafe bprm \<and> caps_of (cap_permitted (bprm_cred bprm')) \<subseteq> caps_of (cap_bset (bprm_cred bprm)) \<union> caps_of (cap_inheritable (bprm_cred bprm))"
proof -
  let ?b = "bprm_clear_caps bprm"
  define b2 where "b2 vcaps = fst (snd (bprm_caps_from_vfs_caps vcaps ?b e))" for vcaps
  have b: "bprm_caps_from_vfs_caps vcaps ?b e =
      (fst (bprm_caps_from_vfs_caps vcaps ?b e), b2 vcaps, snd (snd (bprm_caps_from_vfs_caps vcaps ?b e)))" for vcaps
    by (simp add: b2_def)
  have "bprm' \<in> {?b, bprm_clear_caps ?b} \<or> (\<exists>vcaps. bprm' = b2 vcaps \<or> bprm' = bprm_clear_caps (b2 vcaps))"
    using assms by (auto simp: get_file_caps_def Let_def b2_def split: if_splits sum.splits prod.splits)
      (metis fst_conv snd_conv)+
  then show ?thesis
  proof (elim disjE exE insertE emptyE)
    fix vcaps
    note P = bprm_caps_from_vfs_caps_permitted [OF b [of vcaps]]
    assume "bprm' = b2 vcaps" then show ?thesis using P by auto
  next
    fix vcaps
    note P = bprm_caps_from_vfs_caps_permitted [OF b [of vcaps]]
    assume "bprm' = bprm_clear_caps (b2 vcaps)" then show ?thesis using P by (auto simp: caps_of_empty)
  qed (simp_all add: caps_of_empty)
qed

lemma root_emulation_facts:
  assumes "bprm_root_emulation s old new e = (new1, e1)"
  shows "uid new1 = uid new" "gid new1 = gid new" "euid new1 = euid new" "egid new1 = egid new"
    "cap_permitted new1 \<in> {cap_permitted new, cap_combine (cap_bset old) (cap_inheritable old)}"
  using assms by (auto simp: bprm_root_emulation_def split: if_splits)

lemma downgrade_facts:
  assumes "bprm_downgrade env unsafe old new s = (new2, s2)"
  shows "uid new2 = uid new" "gid new2 = gid new" "caps_of (cap_permitted new2) \<subseteq> caps_of (cap_permitted new)"
  using assms by (auto simp: bprm_downgrade_def Let_def caps_of_intersect split: if_splits prod.splits)


lemma cap_bprm_set_creds_stages:
  assumes "cap_bprm_set_creds env bprm s = (Inr (), bprm', s')"
  obtains b1 e1 new1 eff new2 where
    "get_file_caps env bprm False = (Inr (), b1, e1)"
    "bprm_root_emulation s (current_cred s) (bprm_cred b1) e1 = (new1, eff)"
    "bprm_downgrade env (bprm_unsafe b1) (current_cred s) new1 s = (new2, s')"
    "bprm_cred bprm' = new2\<lparr>suid := euid new2, fsuid := euid new2, sgid := egid new2, fsgid := egid new2,
       cap_effective := (if global_init s then cap_effective new2 else if eff then cap_permitted new2
         else CAP_EMPTY_SET),
       securebits := securebits new2 AND NOT (issecure_mask SECURE_KEEP_CAPS)\<rparr>"
  using assms that by (fastforce simp: cap_bprm_set_creds_def Let_def split: sum.splits prod.splits)

text \<open>
  C21. When an exec computes its credentials, the new permitted set is within the bounding and
  inheritable sets of the old credential, the new effective set is within the new permitted set
  (except for the init task), saved and filesystem ids are the effective ones, and the
  keep-capabilities bit is cleared.
\<close>

theorem exec_permitted_bounded:
  assumes "cap_bprm_set_creds env bprm s = (Inr (), bprm', s')"
    "cap_bset (bprm_cred bprm) = cap_bset (current_cred s)"
    "cap_inheritable (bprm_cred bprm) = cap_inheritable (current_cred s)"
  shows "caps_of (cap_permitted (bprm_cred bprm')) \<subseteq>
      caps_of (cap_bset (current_cred s)) \<union> caps_of (cap_inheritable (current_cred s)) \<and>
    (\<not> global_init s \<longrightarrow> caps_sound (bprm_cred bprm')) \<and>
    suid (bprm_cred bprm') = euid (bprm_cred bprm') \<and> fsuid (bprm_cred bprm') = euid (bprm_cred bprm') \<and>
    sgid (bprm_cred bprm') = egid (bprm_cred bprm') \<and> fsgid (bprm_cred bprm') = egid (bprm_cred bprm') \<and>
    \<not> bit (securebits (bprm_cred bprm')) SECURE_KEEP_CAPS"
proof -
  from assms(1) obtain b1 e1 new1 eff new2 where g: "get_file_caps env bprm False = (Inr (), b1, e1)"
    and r: "bprm_root_emulation s (current_cred s) (bprm_cred b1) e1 = (new1, eff)"
    and d: "bprm_downgrade env (bprm_unsafe b1) (current_cred s) new1 s = (new2, s')"
    and b: "bprm_cred bprm' = new2\<lparr>suid := euid new2, fsuid := euid new2, sgid := egid new2, fsgid := egid new2,
       cap_effective := (if global_init s then cap_effective new2 else if eff then cap_permitted new2
         else CAP_EMPTY_SET),
       securebits := securebits new2 AND NOT (issecure_mask SECURE_KEEP_CAPS)\<rparr>"
    by (rule cap_bprm_set_creds_stages)
  have "caps_of (cap_permitted new2) \<subseteq> caps_of (cap_bset (current_cred s)) \<union> caps_of (cap_inheritable (current_cred s))"
    using get_file_caps_permitted [OF g] root_emulation_facts(5) [OF r] downgrade_facts(3) [OF d] assms(2,3)
    by (auto simp: caps_of_combine dest!: subsetD)
  moreover have "\<not> bit (securebits new2 AND NOT (issecure_mask SECURE_KEEP_CAPS)) SECURE_KEEP_CAPS"
    by (simp add: bit_simps bit_issecure_mask SECURE_KEEP_CAPS_def)
  ultimately show ?thesis by (simp add: b caps_sound_def caps_of_issubset caps_of_empty)
qed


definition ex_bprm :: linux_binprm where
  "ex_bprm = \<lparr>bprm_cred = (current_cred ex_user)\<lparr>euid := 0\<rparr>, bprm_cap_effective = False, bprm_unsafe = 2,
     bprm_nosuid = False, bprm_getxattr = Some (Inl ENODATA)\<rparr>"

lemma ex_exec:
  "\<exists>b s'. cap_bprm_set_creds ex_env ex_bprm ex_user = (Inr (), b, s')"
proof -
  have "fst (cap_bprm_set_creds ex_env ex_bprm ex_user) = Inr ()" by code_simp
  then show ?thesis by (metis prod.collapse)
qed

theorem exec_permitted_bounded_witness:
  "\<exists>b s'. cap_bprm_set_creds ex_env ex_bprm ex_user = (Inr (), b, s') \<and> caps_sound (bprm_cred b)"
proof -
  obtain b s' where e: "cap_bprm_set_creds ex_env ex_bprm ex_user = (Inr (), b, s')" using ex_exec by blast
  have "cap_bset (bprm_cred ex_bprm) = cap_bset (current_cred ex_user)"
    "cap_inheritable (bprm_cred ex_bprm) = cap_inheritable (current_cred ex_user)" "\<not> global_init ex_user"
    by code_simp+
  with exec_permitted_bounded [OF e] e show ?thesis by blast
qed


section \<open>Supplementary groups\<close>

lemma map_length_GROUP_AT_set: "map length (blocks (GROUP_AT_set gi i v)) = map length (blocks gi)"
  by (intro nth_equalityI) (auto simp: GROUP_AT_set_def length_block_update)

lemma map_length_gs_shift:
  "map length (blocks (fst (gs_shift stride tmp gi l r))) = map length (blocks gi)"
proof (induction stride tmp gi l r rule: gs_shift.induct)
  case (1 stride tmp gi left right)
  then show ?case by (subst gs_shift.simps) (simp add: map_length_GROUP_AT_set)
qed

lemma map_length_gs_insert: "map length (blocks (gs_insert stride base gi)) = map length (blocks gi)"
  by (simp add: gs_insert_def Let_def map_length_GROUP_AT_set map_length_gs_shift split: prod.split)
    (metis fst_conv map_length_gs_shift)

lemma map_length_gs_pass: "map length (blocks (gs_pass stride gi)) = map length (blocks gi)"
proof -
  have "map length (blocks (fold (gs_insert stride) xs gi)) = map length (blocks gi)" for xs
    by (induction xs arbitrary: gi) (simp_all add: map_length_gs_insert)
  then show ?thesis by (simp add: gs_pass_def)
qed

lemma map_length_gs_strides: "map length (blocks (gs_strides stride gi)) = map length (blocks gi)"
proof (induction stride gi rule: gs_strides.induct)
  case (1 stride gi)
  then show ?case by (subst gs_strides.simps) (simp add: map_length_gs_pass)
qed

lemma sys_setgroups_groups:
  assumes "sys_setgroups env aenv n m s = Some (Inr r, s')"
  shows "\<exists>gi. map Some (gi_list gi) = map m [0..<nat n] \<and> ngroups gi = nat n \<and> gi_wf gi \<and>
    length (blocks gi) = nblocks gi \<and> blocks_fit (nat n) (blocks gi) \<and>
    current_cred s' = (current_cred s)\<lparr>cr_groups := groups_sort gi\<rparr>"
  using assms groups_from_user_list
  by (fastforce simp: sys_setgroups_def set_current_groups_def set_groups_def syscall_unfold
      split: option.splits if_splits sum.splits dest!: prepare_creds_Some commit_creds_cred)

lemma groups_from_user_loop_succeeds:
  assumes "\<forall>i<cnt. m (pos + i) \<noteq> None"
  shows "\<exists>bs'. groups_from_user_loop m pos cnt bs = Inr bs'"
  using assms
proof (induction m pos cnt bs rule: groups_from_user_loop.induct)
  case (2 m pos cnt b bs)
  let ?cp = "min NGROUPS_PER_BLOCK cnt"
  have "m i \<noteq> None" if "pos \<le> i" "i < pos + ?cp" for i
    using "2.prems" that by (metis le_add_diff_inverse nat_add_left_cancel_less min_less_iff_conj)
  then obtain b' where b': "copy_from_user m pos ?cp b = Some b'"
    by (auto simp: copy_from_user_def list_all_iff)
  have "\<forall>i<cnt - ?cp. m (pos + NGROUPS_PER_BLOCK + i) \<noteq> None"
    using "2.prems" by (auto simp: add.assoc)
  from "2.IH" [OF refl b' this] b' show ?case by (auto simp: Let_def)
qed simp

lemma sys_setgroups_succeeds:
  assumes "cap_raised (cap_effective (current_cred s)) CAP_SETGID" "override s = None" "\<not> cred_nomem env"
    "0 \<le> n" "n \<le> int NGROUPS_MAX" "kmalloc_ok aenv" "\<And>i. get_free_page_ok aenv i"
    "\<forall>i<nat n. m i \<noteq> None"
  shows "\<exists>s'. sys_setgroups env aenv n m s = Some (Inr 0, s')"
proof -
  have "list_all (get_free_page_ok aenv) xs" for xs by (simp add: list_all_iff assms(7))
  then have "groups_alloc aenv (nat n) \<noteq> None" by (simp add: groups_alloc_def Let_def assms(6))
  then obtain gi where gi: "groups_alloc aenv (nat n) = Some gi" by blast
  then have "ngroups gi = nat n" using groups_alloc_fit by blast
  then obtain gi' where gi': "groups_from_user m gi = Inr gi'"
    using groups_from_user_loop_succeeds [of "nat n" m 0 "take (nblocks gi) (blocks gi)"] assms(8)
    by (auto simp: groups_from_user_def)
  have "n mod 2 ^ 32 = n" using assms(4,5) by (intro mod_pos_pos_trivial) (auto simp: NGROUPS_MAX_def)
  with assms gi gi' commit_creds_not_BUG show ?thesis
    by (simp add: sys_setgroups_def syscall_unfold set_current_groups_def prepare_creds_def)
qed

text \<open>
  C28. After a successful \<open>setgroups\<close> a task is in exactly the groups it passed and its filesystem
  group, for every gid less than 2^31 away from each of them.
\<close>

theorem setgroups_membership:
  assumes "sys_setgroups env aenv n m s = Some (Inr r, s')"
    "\<forall>i<nat n. \<forall>v. m i = Some v \<longrightarrow> \<bar>uint grp - uint v\<bar> < 2 ^ 31"
  shows "in_group_p s' grp \<longleftrightarrow> grp = fsgid (current_cred s) \<or> (\<exists>i<nat n. m i = Some grp)"
proof -
  from sys_setgroups_groups [OF assms(1)] obtain gi where gi: "map Some (gi_list gi) = map m [0..<nat n]"
    "gi_wf gi" "current_cred s' = (current_cred s)\<lparr>cr_groups := groups_sort gi\<rparr>" by blast
  have same: "set (gi_list (groups_sort gi)) = set (gi_list gi)"
    using groups_sort_mset [OF gi(2)] by (metis set_mset_mset)
  have mem: "v \<in> set (gi_list gi) \<longleftrightarrow> (\<exists>i<nat n. m i = Some v)" for v
  proof -
    have "v \<in> set (gi_list gi) \<longleftrightarrow> Some v \<in> set (map Some (gi_list gi))" by auto
    then show ?thesis unfolding gi(1) by (force simp: image_iff)
  qed
  have "groups_search (Some (groups_sort gi)) grp \<longleftrightarrow> grp \<in> set (gi_list (groups_sort gi))"
    using assms(2) by (intro groups_search_correct groups_sort_sorted gi(2)) (auto simp: same mem)
  then show ?thesis by (auto simp: in_group_p_def gi(3) Let_def same mem)
qed

definition ex_alloc :: alloc_env where
  "ex_alloc = \<lparr>kmalloc_ok = True, get_free_page_ok = (\<lambda>_. True), fresh_mem = (\<lambda>_ _. 0)\<rparr>"

lemma ex_setgroups:
  assumes "0 \<le> n" "n \<le> 65536" "list_all (\<lambda>i. m i \<noteq> None) [0..<nat n]"
  shows "\<exists>s'. sys_setgroups ex_env ex_alloc n m ex_root = Some (Inr 0, s')"
  using assms by (intro sys_setgroups_succeeds) (simp_all add: list_all_iff ex_alloc_def ex_env_def ex_root_def ex_root_cred_def
      NGROUPS_MAX_def current_cred_def)

theorem setgroups_membership_witness:
  "\<exists>s'. sys_setgroups ex_env ex_alloc 3 (map_of [(0, 30), (1, 7), (2, 20)]) ex_root = Some (Inr 0, s') \<and>
     in_group_p s' 7 \<and> \<not> in_group_p s' 8"
proof -
  let ?m = "map_of [(0, 30), (1, 7), (2, 20)] :: umem"
  obtain s' where s': "sys_setgroups ex_env ex_alloc 3 ?m ex_root = Some (Inr 0, s')"
    using ex_setgroups [of 3 ?m] by (auto simp: upt_rec)
  have "in_group_p s' 7 \<longleftrightarrow> (7 :: gid_t) = fsgid (current_cred ex_root) \<or> (\<exists>i<nat 3. ?m i = Some 7)"
    "in_group_p s' 8 \<longleftrightarrow> (8 :: gid_t) = fsgid (current_cred ex_root) \<or> (\<exists>i<nat 3. ?m i = Some 8)"
    by (rule setgroups_membership [OF s'], simp split: if_splits)+
  moreover have "fsgid (current_cred ex_root) = 0" by (simp add: ex_root_cred_def)
  moreover have "?m 1 = Some 7" "(1 :: nat) < nat 3" "?m i \<noteq> Some 8" for i by (auto split: if_splits)
  moreover have "(8 :: gid_t) \<noteq> 0" by simp
  ultimately show ?thesis using s' by metis
qed

lemma groups_to_user_loop_succeeds:
  assumes "\<forall>i. m i \<noteq> None"
  shows "\<exists>m'. groups_to_user_loop m pos cnt bs = Inr m'"
  using assms
proof (induction m pos cnt bs rule: groups_to_user_loop.induct)
  case (2 m pos cnt b bs)
  let ?cp = "min NGROUPS_PER_BLOCK cnt"
  obtain m1 where m1: "copy_to_user m pos (take ?cp b) = Some m1" "\<forall>i. m1 i \<noteq> None"
    using "2.prems" by (auto simp: copy_to_user_def list_all_iff)
  from "2.IH" [OF refl m1] m1 show ?case by (auto simp: Let_def)
qed simp

text \<open>
  C29. \<open>getgroups\<close> after \<open>setgroups\<close> returns the number of groups and writes them to the user array in
  ascending order, leaving the rest of the array alone.
\<close>

theorem getgroups_setgroups:
  assumes "sys_setgroups env aenv n m s = Some (Inr r, s')" "0 < n"
    "sys_getgroups k m1 s' = Inr (c, m2)" "k \<noteq> 0"
  shows "c = nat n \<and> (\<exists>xs. sorted xs \<and> mset (map Some xs) = mset (map m [0..<nat n]) \<and>
    map m2 [0..<nat n] = map Some xs) \<and> (\<forall>j\<ge>nat n. m2 j = m1 j)"
proof -
  from sys_setgroups_groups [OF assms(1)] obtain gi where gi: "map Some (gi_list gi) = map m [0..<nat n]"
    "ngroups gi = nat n" "gi_wf gi" "length (blocks gi) = nblocks gi" "blocks_fit (nat n) (blocks gi)"
    "current_cred s' = (current_cred s)\<lparr>cr_groups := groups_sort gi\<rparr>" by blast
  let ?g = "groups_sort gi"
  have wf: "gi_wf ?g" "ngroups ?g = nat n" "mset (gi_list ?g) = mset (gi_list gi)"
    using groups_sort_mset [OF gi(3)] gi(2) by auto
  have fit: "blocks_fit (nat n) (blocks ?g)"
    using gi(5) blocks_fit_lengths map_length_gs_strides unfolding groups_sort_def by metis
  have run: "groups_to_user_loop m1 0 (nat n) (blocks ?g) = Inr m2" "c = nat n"
    using assms(3,4) wf by (auto simp: sys_getgroups_def gi(6) groups_to_user_def gi_wf_def Let_def
        split: if_splits sum.splits)
  note at = groups_to_user_loop_at [OF run(1) fit]
  have "map m2 [0..<nat n] = map Some (gi_list ?g)"
    by (intro nth_equalityI) (auto simp: at wf(2) gi_list_def GROUP_AT_def)
  moreover have "mset (map Some (gi_list ?g)) = mset (map m [0..<nat n])"
    by (simp only: mset_map wf(3) flip: gi(1))
  ultimately show ?thesis using run(2) groups_sort_sorted [OF gi(3)] at by auto
qed

theorem getgroups_setgroups_witness:
  "\<exists>s' m2. sys_setgroups ex_env ex_alloc 3 (map_of [(0, 30), (1, 7), (2, 20)]) ex_root = Some (Inr 0, s') \<and>
     sys_getgroups 4 (\<lambda>_. Some 0) s' = Inr (3, m2) \<and> (\<forall>j\<ge>3. m2 j = Some 0)"
proof -
  let ?m = "map_of [(0, 30), (1, 7), (2, 20)] :: umem"
  obtain s' where s': "sys_setgroups ex_env ex_alloc 3 ?m ex_root = Some (Inr 0, s')"
    using ex_setgroups [of 3 ?m] by (auto simp: upt_rec)
  obtain gi where gi: "ngroups gi = 3" "gi_wf gi"
    "current_cred s' = (current_cred ex_root)\<lparr>cr_groups := groups_sort gi\<rparr>"
    using sys_setgroups_groups [OF s'] by auto
  obtain m2 where "groups_to_user (\<lambda>_. Some 0) (groups_sort gi) = Inr m2"
    using groups_to_user_loop_succeeds [of "\<lambda>_. Some 0"] unfolding groups_to_user_def by blast
  then have g: "sys_getgroups 4 (\<lambda>_. Some 0) s' = Inr (3, m2)"
    using gi groups_sort_mset [OF gi(2)] by (simp add: sys_getgroups_def)
  from getgroups_setgroups [OF s' _ g] s' g show ?thesis by auto
qed

text \<open>
  C30. The restriction in the property above is needed: \<open>setgroups\<close> with the two gids 5 and
  \<open>0x90000000\<close> succeeds, and the task is then not in group 5, because the search compares gids by the
  sign of their 32-bit difference while the sort compares them as unsigned numbers.
\<close>

theorem setgroups_loses_distant_gid:
  "\<exists>s'. sys_setgroups ex_env ex_alloc 2 (map_of [(0, 5), (1, 0x90000000)]) ex_root = Some (Inr 0, s') \<and>
     5 \<in> set (gi_list (cr_groups (current_cred s'))) \<and> \<not> in_group_p s' 5"
proof -
  let ?m = "map_of [(0, 5), (1, 0x90000000)] :: umem"
  obtain s' where s': "sys_setgroups ex_env ex_alloc 2 ?m ex_root = Some (Inr 0, s')"
    using ex_setgroups [of 2 ?m] by (auto simp: upt_rec)
  from sys_setgroups_groups [OF s'] obtain gi where gi: "map Some (gi_list gi) = map ?m [0..<nat 2]"
    "ngroups gi = 2" "gi_wf gi" "current_cred s' = (current_cred ex_root)\<lparr>cr_groups := groups_sort gi\<rparr>"
    by auto
  have "gi_list gi = [5, 0x90000000]"
    using gi(1) by (auto simp: numeral_2_eq_2 upt_rec map_eq_Cons_conv split: if_splits)
  moreover have "gi_list (groups_sort gi) = sort (gi_list gi)"
    using groups_sort_mset [OF gi(3)] groups_sort_sorted [OF gi(3)] by (intro properties_for_sort [symmetric]) auto
  ultimately have l: "gi_list (groups_sort gi) = [5, 0x90000000]" by simp
  have n: "ngroups (groups_sort gi) = 2" using groups_sort_mset [OF gi(3)] gi(2) by simp
  have "GROUP_AT (groups_sort gi) 1 = 0x90000000" using gi_list_nth [of 1 "groups_sort gi"] l n by simp
  then have "\<not> groups_search (Some (groups_sort gi)) 5"
    by (simp add: groups_search_def n groups_search_loop.simps)
  then have "\<not> in_group_p s' 5" by (simp add: in_group_p_def gi(4) ex_root_cred_def)
  with s' l gi(4) show ?thesis by auto
qed

section \<open>Further properties of the calls\<close>

text \<open>
  C31. A root task can give up its effective id and take it back: \<open>setresuid(-1, u, -1)\<close> succeeds and
  leaves no effective capability, and \<open>setresuid(-1, 0, -1)\<close> after it restores the credential it had.
\<close>

theorem setresuid_there_and_back:
  assumes "override s = None" "\<not> cred_nomem env" "\<not> issecure s SECURE_NO_SETUID_FIXUP"
    "uid (current_cred s) = 0" "euid (current_cred s) = 0" "fsuid (current_cred s) = 0"
    "cap_effective (current_cred s) = cap_permitted (current_cred s)"
    "cap_raised (cap_effective (current_cred s)) CAP_SETUID" "u \<noteq> 0" "u \<noteq> -1"
  shows "\<exists>s1 s2. sys_setresuid env (-1) u (-1) s = Some (Inr 0, s1) \<and> euid (current_cred s1) = u \<and>
    caps_of (cap_effective (current_cred s1)) = {} \<and>
    sys_setresuid env (-1) 0 (-1) s1 = Some (Inr 0, s2) \<and> current_cred s2 = current_cred s"
proof -
  let ?c = "current_cred s"
  let ?d = "?c\<lparr>euid := u, fsuid := u, cap_effective := CAP_EMPTY_SET\<rparr>"
  obtain s1 where s1: "commit_creds env ?d (s\<lparr>superpriv := True\<rparr>) = Some (Inr 0, s1)"
    using commit_creds_not_BUG assms(1) by (metis kstate.select_convs(2) kstate.surjective kstate.update_convs(3))
  then have c1: "current_cred s1 = ?d" "override s1 = None"
    using commit_creds_cred commit_creds_Some by blast+
  have r1: "sys_setresuid env (-1) u (-1) s = Some (Inr 0, s1)"
    using assms s1 by (simp add: sys_setresuid_def syscall_unfold prepare_creds_def cap_task_fix_setuid_def
        issecure_bit cap_emulate_setxuid_def LSM_SETID_RES_def LSM_SETID_RE_def LSM_SETID_ID_def)
  obtain s2 where s2: "commit_creds env ?c s1 = Some (Inr 0, s2)"
    using commit_creds_not_BUG c1(2) by blast
  have restored: "?c\<lparr>euid := 0, fsuid := 0, cap_effective := cap_permitted ?c\<rparr> = ?c"
    using assms(5-7) by (cases "current_cred s") simp
  have r2: "sys_setresuid env (-1) 0 (-1) s1 = Some (Inr 0, s2)"
    using assms s2 c1 by (simp add: restored sys_setresuid_def syscall_unfold prepare_creds_def cap_task_fix_setuid_def
        issecure_bit cap_emulate_setxuid_def LSM_SETID_RES_def LSM_SETID_RE_def LSM_SETID_ID_def)
  from r1 r2 c1 commit_creds_cred [OF s2] show ?thesis by (auto simp: caps_of_empty)
qed

theorem setresuid_there_and_back_witness:
  "\<exists>s1 s2. sys_setresuid ex_env (-1) 1000 (-1) ex_root = Some (Inr 0, s1) \<and> euid (current_cred s1) = 1000 \<and>
    sys_setresuid ex_env (-1) 0 (-1) s1 = Some (Inr 0, s2) \<and> current_cred s2 = ex_root_cred"
proof -
  have "override ex_root = None" "\<not> cred_nomem ex_env" "\<not> issecure ex_root SECURE_NO_SETUID_FIXUP"
    "uid (current_cred ex_root) = 0" "euid (current_cred ex_root) = 0" "fsuid (current_cred ex_root) = 0"
    "cap_effective (current_cred ex_root) = cap_permitted (current_cred ex_root)"
    "cap_raised (cap_effective (current_cred ex_root)) CAP_SETUID" "(1000 :: uid_t) \<noteq> 0" "(1000 :: uid_t) \<noteq> -1"
    by code_simp+
  from setresuid_there_and_back [OF this] show ?thesis by auto
qed



lemma outcome_processes:
  assumes "outcome_ok s s'" "0 < processes s (user (real_cred s))"
  shows "0 < processes s' (user (real_cred s')) \<and> sum (processes s') UNIV = sum (processes s) UNIV"
proof -
  consider (same) p where "s' = s\<lparr>superpriv := p\<rparr>"
    | (commit) env new p r where "commit_creds env new (s\<lparr>superpriv := p\<rparr>) = Some (r, s')"
    using assms(1) unfolding outcome_ok_def by blast
  then show ?thesis
  proof cases
    case same
    then show ?thesis using assms(2) by simp
  next
    case commit
    have "0 < processes s' (user (real_cred s'))"
      using commit assms(2) by (auto simp: commit_creds_def Let_def split: if_splits)
    with commit_creds_processes [OF commit, of UNIV] assms(2) show ?thesis by simp
  qed
qed

text \<open>
  C35. Over any sequence of calls the per-user process counts keep their total, and the count of
  the task's own user stays positive: changing the user moves one process from one to the other.
\<close>

theorem process_counts_conserved:
  assumes "cred_step\<^sup>*\<^sup>* s s'" "0 < processes s (user (real_cred s))"
  shows "0 < processes s' (user (real_cred s')) \<and> sum (processes s') UNIV = sum (processes s) UNIV"
  using assms
proof (induction rule: rtranclp_induct)
  case (step y z)
  with outcome_processes [OF cred_step_ok [OF step(2)]] show ?case by simp
qed simp

theorem process_counts_conserved_witness:
  "\<exists>s'. cred_step\<^sup>*\<^sup>* ex_root s' \<and> processes s' 1000 = 2 \<and> sum (processes s') UNIV = sum (processes ex_root) UNIV"
proof -
  have "map_option fst (sys_setuid ex_env 1000 ex_root) = Some (Inr 0)"
    "processes (snd (the (sys_setuid ex_env 1000 ex_root))) 1000 = 2"
    by code_simp+
  then obtain s' where s': "sys_setuid ex_env 1000 ex_root = Some (Inr 0, s')" "processes s' 1000 = 2" by auto
  then have st: "cred_step\<^sup>*\<^sup>* ex_root s'" by (intro r_into_rtranclp cred_step.setuid)
  have "0 < processes ex_root (user (real_cred ex_root))" by (simp add: ex_root_def)
  with st s'(2) process_counts_conserved [OF st] show ?thesis by blast
qed

end
