(* ===== verification/CredOps.thy ===== *)
theory CredOps
  imports Commoncap
begin

text \<open>
  The rest of \<open>kernel/cred.c\<close>: credentials for \<open>exec\<close>, for kernel services and for user-mode helpers,
  the credentials of a new process, and the temporary override of the subjective credentials.
  Key rings are off in this configuration. Reference counts and RCU are not modelled; so
  \<open>abort_creds\<close> and \<open>put_cred\<close> do nothing here.
\<close>

definition init_cred :: "kenv \<Rightarrow> cred" where
  "init_cred env =
     \<lparr>uid = 0, gid = 0, suid = 0, sgid = 0, euid = 0, egid = 0, fsuid = 0, fsgid = 0,
      securebits = 0, cap_inheritable = CAP_EMPTY_SET, cap_permitted = CAP_FULL_SET,
      cap_effective = CAP_INIT_EFF_SET,
      cap_bset = (if cfg_file_caps env then CAP_FULL_SET else CAP_INIT_EFF_SET),
      user = 0, cr_groups = \<lparr>ngroups = 0, nblocks = 0, blocks = []\<rparr>\<rparr>"

definition prepare_exec_creds :: "kenv \<Rightarrow> kstate \<Rightarrow> cred option" where
  "prepare_exec_creds env s = prepare_creds env s"

definition prepare_usermodehelper_creds :: "kenv \<Rightarrow> cred option" where
  "prepare_usermodehelper_creds env = (if cred_nomem env then None else Some (init_cred env))"

text \<open>\<open>daemon\<close> are the objective credentials of the task that is given, or \<open>None\<close> for a null pointer.\<close>

definition prepare_kernel_cred :: "kenv \<Rightarrow> cred option \<Rightarrow> cred option" where
  "prepare_kernel_cred env daemon =
     (if cred_nomem env then None
      else Some (case daemon of Some old \<Rightarrow> old | None \<Rightarrow> init_cred env))"

definition CLONE_THREAD :: u32 where "CLONE_THREAD = 0x00010000"
definition CLONE_NEWUSER :: u32 where "CLONE_NEWUSER = 0x10000000"

text \<open>
  \<open>copy_creds\<close> when the current task forks: the result is the credentials of the child, which are its
  objective and its subjective ones. Without \<open>CONFIG_USER_NS\<close>, \<open>create_user_ns\<close> is the error \<open>EINVAL\<close>.
\<close>

definition create_user_ns :: "cred \<Rightarrow> cred kres" where
  "create_user_ns new = Inl EINVAL"

definition inc_processes :: "uid_t \<Rightarrow> kstate \<Rightarrow> kstate" where
  "inc_processes u s = s\<lparr>processes := (processes s)(u := processes s u + 1)\<rparr>"

definition copy_creds :: "kenv \<Rightarrow> u32 \<Rightarrow> kstate \<Rightarrow> cred kres \<times> kstate" where
  "copy_creds env clone_flags s =
     (if clone_flags AND CLONE_THREAD \<noteq> 0
      then (Inr (current_cred s), inc_processes (user (current_cred s)) s)
      else case prepare_creds env s of
        None \<Rightarrow> (Inl ENOMEM, s)
      | Some new \<Rightarrow>
          (case (if clone_flags AND CLONE_NEWUSER \<noteq> 0 then create_user_ns new else Inr new) of
             Inl e \<Rightarrow> (Inl e, s)
           | Inr new \<Rightarrow> (Inr new, inc_processes (user new) s)))"

text \<open>
  \<open>override_creds\<close> returns the pointer \<open>current->cred\<close>: \<open>None\<close> if it is the same as the objective
  credentials.
\<close>

definition override_creds :: "cred \<Rightarrow> kstate \<Rightarrow> cred option \<times> kstate" where
  "override_creds new s = (override s, s\<lparr>override := Some new\<rparr>)"

definition revert_creds :: "cred option \<Rightarrow> kstate \<Rightarrow> kstate" where
  "revert_creds old s = s\<lparr>override := old\<rparr>"

section \<open>Facts\<close>

lemma override_revert:
  assumes "override_creds new s = (old, s')"
  shows "current_cred s' = new" "real_cred s' = real_cred s" "revert_creds old s' = s"
  using assms by (auto simp: override_creds_def revert_creds_def current_cred_def)

text \<open>
  While credentials are overridden, an attempt to commit new ones ends in \<open>BUG()\<close>: the override must
  be reverted first.
\<close>

lemma override_blocks_commit:
  "override_creds tmp s = (old, s') \<Longrightarrow> commit_creds env new s' = None"
  by (auto simp: override_creds_def commit_creds_def)

text \<open>A child has the capabilities of its parent, and its user one process more; a failed fork changes nothing.\<close>

lemma copy_creds_child:
  assumes "copy_creds env flags s = (r, s')"
  shows "case r of
      Inl e \<Rightarrow> s' = s \<and> e \<in> {ENOMEM, EINVAL}
    | Inr c \<Rightarrow> c = current_cred s \<and> real_cred s' = real_cred s \<and> override s' = override s
        \<and> processes s' (user c) = processes s (user c) + 1 \<and> (\<forall>u. u \<noteq> user c \<longrightarrow> processes s' u = processes s u)"
  using assms
  by (auto simp: copy_creds_def inc_processes_def create_user_ns_def prepare_creds_def
    split: if_splits option.splits)

lemma copy_creds_fails:
  "is_ok (fst (copy_creds env flags s)) \<longleftrightarrow>
     flags AND CLONE_THREAD \<noteq> 0 \<or> \<not> cred_nomem env \<and> flags AND CLONE_NEWUSER = 0"
  by (simp add: copy_creds_def create_user_ns_def prepare_creds_def)

end
