(* ===== verification/VmAccount.thy ===== *)
theory VmAccount
  imports Commoncap
begin

text \<open>
  Accounting of virtual memory: \<open>__vm_enough_memory\<close> of \<open>mm/mmap.c\<close> and the hook
  \<open>cap_vm_enough_memory\<close> of \<open>security/commoncap.c\<close> that calls it. The numbers it reads (pages of
  the page cache, of reclaimable slabs, of swap, of memory and of the address space) are fields of
  \<open>vm_state\<close>; \<open>unsigned long\<close> has 32 bits and wraps. There are no huge pages in this configuration.
\<close>

definition OVERCOMMIT_GUESS :: nat where "OVERCOMMIT_GUESS = 0"
definition OVERCOMMIT_ALWAYS :: nat where "OVERCOMMIT_ALWAYS = 1"
definition OVERCOMMIT_NEVER :: nat where "OVERCOMMIT_NEVER = 2"

record vm_state =
  vm_committed_space :: u32
  sysctl_overcommit_memory :: nat
  sysctl_overcommit_ratio :: u32
  nr_file_pages :: u32
  nr_swap_pages :: u32
  nr_slab_reclaimable :: u32
  nr_free_pages :: u32
  totalreserve_pages :: u32
  totalram_pages :: u32
  total_swap_pages :: u32

definition vm_acct_memory :: "u32 \<Rightarrow> vm_state \<Rightarrow> vm_state" where
  "vm_acct_memory pages st = st\<lparr>vm_committed_space := vm_committed_space st + pages\<rparr>"

definition vm_unacct_memory :: "u32 \<Rightarrow> vm_state \<Rightarrow> vm_state" where
  "vm_unacct_memory pages st = vm_acct_memory (- pages) st"

text \<open>Leave the last 3\% for root.\<close>

definition leave_root :: "bool \<Rightarrow> u32 \<Rightarrow> u32" where
  "leave_root cap_sys_admin n = (if cap_sys_admin then n else n - n div 32)"

text \<open>The policy \<open>OVERCOMMIT_GUESS\<close>: whether the pages that are free or can be freed are enough.\<close>

definition vm_guess_ok :: "u32 \<Rightarrow> bool \<Rightarrow> vm_state \<Rightarrow> bool" where
  "vm_guess_ok pages cap_sys_admin st =
     (let free = leave_root cap_sys_admin
            (nr_file_pages st + nr_swap_pages st + nr_slab_reclaimable st)
      in if free > pages then True
         else if nr_free_pages st \<le> totalreserve_pages st then False
         else free + leave_root cap_sys_admin (nr_free_pages st - totalreserve_pages st) > pages)"

text \<open>The number of pages that may be committed under \<open>OVERCOMMIT_NEVER\<close>; \<open>total_vm\<close> is that of \<open>mm\<close>.\<close>

definition vm_allowed :: "u32 option \<Rightarrow> bool \<Rightarrow> vm_state \<Rightarrow> u32" where
  "vm_allowed total_vm cap_sys_admin st =
     (let allowed = leave_root cap_sys_admin (totalram_pages st * sysctl_overcommit_ratio st div 100)
            + total_swap_pages st
      in case total_vm of Some n \<Rightarrow> allowed - n div 32 | None \<Rightarrow> allowed)"

definition vm_enough_memory :: "u32 option \<Rightarrow> u32 \<Rightarrow> bool \<Rightarrow> vm_state \<Rightarrow> unit kres \<times> vm_state" where
  "vm_enough_memory total_vm pages cap_sys_admin st =
     (let st = vm_acct_memory pages st
      in if sysctl_overcommit_memory st = OVERCOMMIT_ALWAYS then (Inr (), st)
         else if (if sysctl_overcommit_memory st = OVERCOMMIT_GUESS then vm_guess_ok pages cap_sys_admin st
                  else sint (vm_committed_space st) < sint (vm_allowed total_vm cap_sys_admin st))
         then (Inr (), st)
         else (Inl ENOMEM, vm_unacct_memory pages st))"

definition cap_vm_enough_memory ::
  "kenv \<Rightarrow> u32 option \<Rightarrow> u32 \<Rightarrow> kstate \<Rightarrow> vm_state \<Rightarrow> unit kres \<times> vm_state" where
  "cap_vm_enough_memory env total_vm pages s st =
     vm_enough_memory total_vm pages (is_ok (cap_capable env s (current_cred s) CAP_SYS_ADMIN)) st"

section \<open>Facts\<close>

text \<open>The pages are accounted for exactly when the call succeeds.\<close>

lemma vm_enough_memory_accounts:
  assumes "vm_enough_memory total_vm pages adm st = (r, st')"
  shows "st' = (if is_ok r then st\<lparr>vm_committed_space := vm_committed_space st + pages\<rparr> else st)"
    "r = Inr () \<or> r = Inl ENOMEM"
  using assms by (auto simp: vm_enough_memory_def vm_unacct_memory_def vm_acct_memory_def Let_def split: if_splits)

text \<open>Under strict accounting a success leaves the committed space below the limit.\<close>

lemma vm_enough_memory_never:
  assumes "vm_enough_memory total_vm pages adm st = (Inr (), st')" "sysctl_overcommit_memory st = OVERCOMMIT_NEVER"
  shows "sint (vm_committed_space st') < sint (vm_allowed total_vm adm st)"
  using assms
  by (auto simp: vm_enough_memory_def vm_acct_memory_def vm_allowed_def Let_def OVERCOMMIT_NEVER_def
    OVERCOMMIT_GUESS_def OVERCOMMIT_ALWAYS_def split: if_splits)

lemma vm_enough_memory_always: "sysctl_overcommit_memory st = OVERCOMMIT_ALWAYS \<Longrightarrow> fst (vm_enough_memory total_vm pages adm st) = Inr ()"
  by (simp add: vm_enough_memory_def vm_acct_memory_def)

lemma leave_root_bounds: "leave_root adm n \<le> n" "leave_root False n \<le> leave_root True n"
proof -
  have "n div 32 \<le> n" by (simp add: word_le_nat_alt unat_div)
  then have "n - n div 32 \<le> n" by (rule word_sub_le)
  then show "leave_root adm n \<le> n" "leave_root False n \<le> leave_root True n" by (simp_all add: leave_root_def)
qed

end
