(* ===== verification/Buddy.thy ===== *)
theory Buddy
  imports KPrelude
begin

text \<open>
  The zoned buddy allocator of \<open>src/kernel/mm/page_alloc.c\<close> for one zone on this uniprocessor
  configuration: freeing with coalescing (\<open>__free_one_page\<close>), splitting (\<open>expand\<close>), allocation with
  the migrate-type fallback (\<open>__rmqueue\<close>), the per-cpu page lists and the entry points built on them.

  The state is the record \<open>zone\<close>: \<open>struct zone\<close> with its free lists, the per-cpu list of the only
  cpu, and the array of \<open>struct page\<close> as a function of the page frame number (pfn). A
  \<open>struct page *\<close> is its pfn. A free list is the list of the pfns on it, first element first. The
  lru link of a page is on at most one list, so \<open>list_del\<close> takes the page off every free list.
  Page flags are sets of \<open>pageflag\<close>. \<open>BUG_ON\<close> is the value \<open>None\<close>; \<open>VM_BUG_ON\<close> is empty because
  \<open>CONFIG_DEBUG_VM\<close> is off. \<open>pfn_valid_within\<close> is constantly true (no \<open>CONFIG_HOLES_IN_ZONE\<close>).
  Counters are integers: the invariant \<open>zone_ok\<close> shows that they count list elements, so the
  unsigned counters of the code do not wrap. Locking and vm-event statistics have no counterpart.
\<close>

section \<open>Pages and zones\<close>

datatype pageflag = PG_locked | PG_error | PG_referenced | PG_uptodate | PG_dirty | PG_lru | PG_active
  | PG_slab | PG_owner_priv_1 | PG_arch_1 | PG_reserved | PG_private | PG_writeback | PG_head | PG_tail
  | PG_swapcache | PG_mappedtodisk | PG_reclaim | PG_buddy | PG_swapbacked | PG_unevictable | PG_mlocked

definition PAGE_FLAGS_CHECK_AT_FREE :: "pageflag set" where
  "PAGE_FLAGS_CHECK_AT_FREE = {PG_lru, PG_private, PG_locked, PG_buddy, PG_writeback, PG_reserved, PG_slab,
     PG_swapcache, PG_active, PG_unevictable, PG_mlocked}"

definition PAGE_FLAGS_CHECK_AT_PREP :: "pageflag set" where
  "PAGE_FLAGS_CHECK_AT_PREP = {PG_locked, PG_error, PG_referenced, PG_uptodate, PG_dirty, PG_lru, PG_active,
     PG_slab, PG_owner_priv_1, PG_arch_1, PG_reserved, PG_private, PG_writeback, PG_head, PG_tail,
     PG_swapcache, PG_mappedtodisk, PG_reclaim, PG_buddy, PG_swapbacked, PG_unevictable, PG_mlocked}"

text \<open>
  \<open>compound_ord\<close> is the order kept in \<open>page[1].lru.prev\<close> of a compound page, stored here with the
  head page; it is read only while \<open>PG_head\<close> is set.
\<close>

record page =
  flags :: "pageflag set"
  pg_zone :: nat
  page_count :: int
  page_mapcount :: int
  mapping :: "nat option"
  page_private :: nat
  first_page :: nat
  compound_ord :: nat

record zone =
  zone_id :: nat
  zone_start_pfn :: nat
  spanned_pages :: nat
  free_list :: "nat \<Rightarrow> nat \<Rightarrow> nat list"
  nr_free :: "nat \<Rightarrow> int"
  NR_FREE_PAGES :: int
  pages_scanned :: nat
  all_unreclaimable :: bool
  pageblock_flags :: "nat \<Rightarrow> bool"
  mobility_disabled :: bool
  pcp_list :: "nat list"
  pcp_count :: int
  pcp_high :: int
  pcp_batch :: nat
  mem_map :: "nat \<Rightarrow> page"
  tainted :: bool

definition MAX_ORDER :: nat where "MAX_ORDER = 11"
definition pageblock_order :: nat where "pageblock_order = MAX_ORDER - 1"
definition pageblock_nr_pages :: nat where "pageblock_nr_pages = 2 ^ pageblock_order"
definition MIGRATE_UNMOVABLE :: nat where "MIGRATE_UNMOVABLE = 0"
definition MIGRATE_RECLAIMABLE :: nat where "MIGRATE_RECLAIMABLE = 1"
definition MIGRATE_MOVABLE :: nat where "MIGRATE_MOVABLE = 2"
definition MIGRATE_RESERVE :: nat where "MIGRATE_RESERVE = 3"
definition MIGRATE_ISOLATE :: nat where "MIGRATE_ISOLATE = 4"
definition MIGRATE_TYPES :: nat where "MIGRATE_TYPES = 5"
definition NR_PAGEBLOCK_BITS :: nat where "NR_PAGEBLOCK_BITS = 3"

definition upd_page :: "nat \<Rightarrow> (page \<Rightarrow> page) \<Rightarrow> zone \<Rightarrow> zone" where
  "upd_page p f z = z\<lparr>mem_map := (mem_map z)(p := f (mem_map z p))\<rparr>"

definition PageBuddy :: "zone \<Rightarrow> nat \<Rightarrow> bool" where
  "PageBuddy z p \<longleftrightarrow> PG_buddy \<in> flags (mem_map z p)"

definition PageCompound :: "zone \<Rightarrow> nat \<Rightarrow> bool" where
  "PageCompound z p \<longleftrightarrow> PG_head \<in> flags (mem_map z p) \<or> PG_tail \<in> flags (mem_map z p)"

definition set_page_private :: "nat \<Rightarrow> nat \<Rightarrow> zone \<Rightarrow> zone" where
  "set_page_private p v z = upd_page p (\<lambda>g. g\<lparr>page_private := v\<rparr>) z"

definition set_page_refcounted :: "nat \<Rightarrow> zone \<Rightarrow> zone" where
  "set_page_refcounted p z = upd_page p (\<lambda>g. g\<lparr>page_count := 1\<rparr>) z"

text \<open>\<open>list_add\<close> puts a page first on a free list.\<close>

definition list_del_lru :: "nat \<Rightarrow> zone \<Rightarrow> zone" where
  "list_del_lru p z = z\<lparr>free_list := \<lambda>o' mt. remove1 p (free_list z o' mt)\<rparr>"

definition list_add_lru :: "nat \<Rightarrow> nat \<Rightarrow> nat \<Rightarrow> zone \<Rightarrow> zone" where
  "list_add_lru p ord mt z =
     z\<lparr>free_list := (free_list z)(ord := (free_list z ord)(mt := p # free_list z ord mt))\<rparr>"

definition add_nr_free :: "nat \<Rightarrow> int \<Rightarrow> zone \<Rightarrow> zone" where
  "add_nr_free ord d z = z\<lparr>nr_free := (nr_free z)(ord := nr_free z ord + d)\<rparr>"

section \<open>Migrate types of page blocks\<close>

text \<open>
  The bitmap \<open>pageblock_flags\<close> has \<open>NR_PAGEBLOCK_BITS\<close> bits per page block; the migrate type is the
  group of all three.
\<close>

definition pfn_to_bitidx :: "zone \<Rightarrow> nat \<Rightarrow> nat" where
  "pfn_to_bitidx z pfn = drop_bit pageblock_order (pfn - zone_start_pfn z) * NR_PAGEBLOCK_BITS"

definition get_pageblock_flags_group :: "zone \<Rightarrow> nat \<Rightarrow> nat" where
  "get_pageblock_flags_group z pfn =
     (let bitidx = pfn_to_bitidx z pfn
      in foldl (\<lambda>fl i. if pageblock_flags z (bitidx + i) then fl + 2 ^ i else fl) 0 [0..<NR_PAGEBLOCK_BITS])"

definition set_pageblock_flags_group :: "nat \<Rightarrow> nat \<Rightarrow> zone \<Rightarrow> zone" where
  "set_pageblock_flags_group pfn fl z =
     (let bitidx = pfn_to_bitidx z pfn
      in z\<lparr>pageblock_flags := foldl (\<lambda>bm i. bm(bitidx + i := bit fl i)) (pageblock_flags z) [0..<NR_PAGEBLOCK_BITS]\<rparr>)"

definition get_pageblock_migratetype :: "zone \<Rightarrow> nat \<Rightarrow> nat" where
  "get_pageblock_migratetype z pfn =
     (if mobility_disabled z then MIGRATE_UNMOVABLE else get_pageblock_flags_group z pfn)"

definition set_pageblock_migratetype :: "nat \<Rightarrow> nat \<Rightarrow> zone \<Rightarrow> zone" where
  "set_pageblock_migratetype pfn mt z = set_pageblock_flags_group pfn mt z"

section \<open>Compound pages and page checks\<close>

definition bad_page :: "nat \<Rightarrow> zone \<Rightarrow> zone" where
  "bad_page p z = (upd_page p (\<lambda>g. g\<lparr>flags := flags g - {PG_buddy}\<rparr>) z)\<lparr>tainted := True\<rparr>"

definition compound_order :: "zone \<Rightarrow> nat \<Rightarrow> nat" where
  "compound_order z p = (if PG_head \<notin> flags (mem_map z p) then 0 else compound_ord (mem_map z p))"

definition prep_compound_page :: "nat \<Rightarrow> nat \<Rightarrow> zone \<Rightarrow> zone" where
  "prep_compound_page p ord z =
     fold (\<lambda>i. upd_page (p + i) (\<lambda>g. g\<lparr>flags := insert PG_tail (flags g), first_page := p\<rparr>)) [1..<2 ^ ord]
       (upd_page p (\<lambda>g. g\<lparr>compound_ord := ord, flags := insert PG_head (flags g)\<rparr>) z)"

definition destroy_tail :: "nat \<Rightarrow> nat \<Rightarrow> zone \<times> nat \<Rightarrow> zone \<times> nat" where
  "destroy_tail p i zb =
     (case zb of (z, bad) \<Rightarrow>
       let g = mem_map z (p + i);
           (z1, bad1) = (if PG_tail \<notin> flags g \<or> first_page g \<noteq> p then (bad_page p z, bad + 1) else (z, bad))
       in (upd_page (p + i) (\<lambda>g. g\<lparr>flags := flags g - {PG_tail}\<rparr>) z1, bad1))"

definition destroy_compound_page :: "nat \<Rightarrow> nat \<Rightarrow> zone \<Rightarrow> zone \<times> nat" where
  "destroy_compound_page p ord z =
     (let (z1, bad1) = (if compound_order z p \<noteq> ord \<or> PG_head \<notin> flags (mem_map z p)
                        then (bad_page p z, 1) else (z, 0));
          z2 = upd_page p (\<lambda>g. g\<lparr>flags := flags g - {PG_head}\<rparr>) z1
      in fold (destroy_tail p) [1..<2 ^ ord] (z2, bad1))"

definition free_page_mlock :: "nat \<Rightarrow> zone \<Rightarrow> zone" where
  "free_page_mlock p z = upd_page p (\<lambda>g. g\<lparr>flags := flags g - {PG_mlocked}\<rparr>) z"

definition free_pages_check :: "nat \<Rightarrow> zone \<Rightarrow> zone \<times> nat" where
  "free_pages_check p z0 =
     (let z = free_page_mlock p z0; g = mem_map z p
      in if page_mapcount g \<noteq> 0 \<or> mapping g \<noteq> None \<or> page_count g \<noteq> 0 \<or>
            flags g \<inter> PAGE_FLAGS_CHECK_AT_FREE \<noteq> {}
         then (bad_page p z, 1)
         else (if flags g \<inter> PAGE_FLAGS_CHECK_AT_PREP \<noteq> {}
               then upd_page p (\<lambda>g. g\<lparr>flags := flags g - PAGE_FLAGS_CHECK_AT_PREP\<rparr>) z else z, 0))"

section \<open>Freeing\<close>

definition set_page_order :: "nat \<Rightarrow> nat \<Rightarrow> zone \<Rightarrow> zone" where
  "set_page_order p ord z = upd_page p (\<lambda>g. g\<lparr>page_private := ord, flags := insert PG_buddy (flags g)\<rparr>) z"

definition rmv_page_order :: "nat \<Rightarrow> zone \<Rightarrow> zone" where
  "rmv_page_order p z = upd_page p (\<lambda>g. g\<lparr>flags := flags g - {PG_buddy}, page_private := 0\<rparr>) z"

definition page_find_buddy :: "nat \<Rightarrow> nat \<Rightarrow> nat \<Rightarrow> nat" where
  "page_find_buddy p page_idx ord =
     (let buddy_idx = page_idx XOR push_bit ord 1 in nat (int p + (int buddy_idx - int page_idx)))"

definition find_combined_index :: "nat \<Rightarrow> nat \<Rightarrow> nat" where
  "find_combined_index page_idx ord = unset_bit ord page_idx"

definition page_is_buddy :: "zone \<Rightarrow> nat \<Rightarrow> nat \<Rightarrow> nat \<Rightarrow> bool option" where
  "page_is_buddy z p buddy ord =
     (if pg_zone (mem_map z p) \<noteq> pg_zone (mem_map z buddy) then Some False
      else if PageBuddy z buddy \<and> page_private (mem_map z buddy) = ord
      then (if page_count (mem_map z buddy) \<noteq> 0 then None else Some True)
      else Some False)"

function merge_buddies :: "zone \<Rightarrow> nat \<Rightarrow> nat \<Rightarrow> nat \<Rightarrow> (zone \<times> nat \<times> nat) option" where
  "merge_buddies z p page_idx ord =
     (if ord < MAX_ORDER - 1
      then let buddy = page_find_buddy p page_idx ord
           in case page_is_buddy z p buddy ord of
                None \<Rightarrow> None
              | Some False \<Rightarrow> Some (z, p, ord)
              | Some True \<Rightarrow>
                 (let z1 = rmv_page_order buddy (add_nr_free ord (-1) (list_del_lru buddy z));
                      combined_idx = find_combined_index page_idx ord;
                      p' = nat (int p + (int combined_idx - int page_idx))
                  in merge_buddies z1 p' combined_idx (ord + 1))
      else Some (z, p, ord))"
  by pat_completeness auto
termination
  by (relation "measure (\<lambda>(z, p, idx, ord). MAX_ORDER - ord)") auto

definition free_one_page_merge :: "nat \<Rightarrow> nat \<Rightarrow> nat \<Rightarrow> zone \<Rightarrow> zone option" where
  "free_one_page_merge p ord migratetype z0 =
     (let page_idx = p AND mask MAX_ORDER;
          z = z0\<lparr>NR_FREE_PAGES := NR_FREE_PAGES z0 + 2 ^ ord\<rparr>
      in case merge_buddies z p page_idx ord of
           None \<Rightarrow> None
         | Some (z1, p', ord') \<Rightarrow>
             Some (add_nr_free ord' 1 (list_add_lru p' ord' migratetype (set_page_order p' ord' z1))))"

text \<open>\<open>__free_one_page\<close>, called with the zone lock held.\<close>

definition free_one_page_locked :: "nat \<Rightarrow> nat \<Rightarrow> zone \<Rightarrow> zone option" where
  "free_one_page_locked p ord z =
     (let migratetype = get_pageblock_migratetype z p
      in if PageCompound z p
         then (case destroy_compound_page p ord z of
                 (z1, bad) \<Rightarrow> if bad \<noteq> 0 then Some z1 else free_one_page_merge p ord migratetype z1)
         else free_one_page_merge p ord migratetype z)"

definition free_one_page :: "nat \<Rightarrow> nat \<Rightarrow> zone \<Rightarrow> zone option" where
  "free_one_page p ord z = free_one_page_locked p ord (z\<lparr>all_unreclaimable := False, pages_scanned := 0\<rparr>)"

text \<open>\<open>free_pages_bulk\<close> takes pages off the end of a list; an empty list is outside its contract.\<close>

fun free_pages_bulk_loop :: "nat \<Rightarrow> nat list \<Rightarrow> nat \<Rightarrow> zone \<Rightarrow> (nat list \<times> zone) option" where
  "free_pages_bulk_loop 0 lst ord z = Some (lst, z)"
| "free_pages_bulk_loop (Suc n) lst ord z =
     (if lst = [] then None
      else case free_one_page_locked (last lst) ord z of
             None \<Rightarrow> None | Some z1 \<Rightarrow> free_pages_bulk_loop n (butlast lst) ord z1)"

definition free_pages_bulk :: "nat \<Rightarrow> nat list \<Rightarrow> nat \<Rightarrow> zone \<Rightarrow> (nat list \<times> zone) option" where
  "free_pages_bulk n lst ord z =
     free_pages_bulk_loop n lst ord (z\<lparr>all_unreclaimable := False, pages_scanned := 0\<rparr>)"

definition check_pages :: "nat \<Rightarrow> nat \<Rightarrow> zone \<Rightarrow> zone \<times> nat" where
  "check_pages p ord z =
     fold (\<lambda>i (z, bad). case free_pages_check (p + i) z of (z', b) \<Rightarrow> (z', bad + b)) [0..<2 ^ ord] (z, 0)"

definition free_pages_ok :: "nat \<Rightarrow> nat \<Rightarrow> zone \<Rightarrow> zone option" where
  "free_pages_ok p ord z =
     (case check_pages p ord z of (z1, bad) \<Rightarrow> if bad \<noteq> 0 then Some z1 else free_one_page p ord z1)"

text \<open>A freed order-0 page goes to the per-cpu list; the flag \<open>PageAnon\<close> is the low bit of \<open>mapping\<close>.\<close>

definition free_hot_cold_page :: "nat \<Rightarrow> bool \<Rightarrow> zone \<Rightarrow> zone option" where
  "free_hot_cold_page p cold z0 =
     (let z = (case mapping (mem_map z0 p) of
                 Some a \<Rightarrow> if odd a then upd_page p (\<lambda>g. g\<lparr>mapping := None\<rparr>) z0 else z0
               | None \<Rightarrow> z0)
      in case free_pages_check p z of
           (z1, bad) \<Rightarrow>
             if bad \<noteq> 0 then Some z1
             else
               let z2 = z1\<lparr>pcp_list := (if cold then pcp_list z1 @ [p] else p # pcp_list z1)\<rparr>;
                   z3 = set_page_private p (get_pageblock_migratetype z2 p) z2;
                   z4 = z3\<lparr>pcp_count := pcp_count z3 + 1\<rparr>
               in if pcp_count z4 \<ge> pcp_high z4
                  then (case free_pages_bulk (pcp_batch z4) (pcp_list z4) 0 z4 of
                          None \<Rightarrow> None
                        | Some (lst, z5) \<Rightarrow>
                            Some (z5\<lparr>pcp_list := lst, pcp_count := pcp_count z5 - int (pcp_batch z5)\<rparr>))
                  else Some z4)"

definition free_pages :: "nat \<Rightarrow> nat \<Rightarrow> zone \<Rightarrow> zone option" where
  "free_pages p ord z =
     (let z1 = upd_page p (\<lambda>g. g\<lparr>page_count := page_count g - 1\<rparr>) z
      in if page_count (mem_map z1 p) = 0
         then if ord = 0 then free_hot_cold_page p False z1 else free_pages_ok p ord z1
         else Some z1)"

section \<open>Allocating\<close>

text \<open>\<open>expand\<close>: \<open>high\<close> counts down, and \<open>size\<close> is \<open>2 ^ high\<close> throughout.\<close>

fun expand :: "nat \<Rightarrow> nat \<Rightarrow> nat \<Rightarrow> nat \<Rightarrow> zone \<Rightarrow> zone" where
  "expand p low high mt z =
     (if high > low
      then expand p low (high - 1) mt
             (set_page_order (p + 2 ^ (high - 1)) (high - 1)
               (add_nr_free (high - 1) 1 (list_add_lru (p + 2 ^ (high - 1)) (high - 1) mt z)))
      else z)"

fun rmqueue_smallest_from :: "nat \<Rightarrow> nat list \<Rightarrow> nat \<Rightarrow> zone \<Rightarrow> nat option \<times> zone" where
  "rmqueue_smallest_from ord [] mt z = (None, z)"
| "rmqueue_smallest_from ord (current_order # rest) mt z =
     (case free_list z current_order mt of
        [] \<Rightarrow> rmqueue_smallest_from ord rest mt z
      | p # _ \<Rightarrow>
          let z1 = add_nr_free current_order (-1) (rmv_page_order p (list_del_lru p z));
              z2 = z1\<lparr>NR_FREE_PAGES := NR_FREE_PAGES z1 - 2 ^ ord\<rparr>
          in (Some p, expand p ord current_order mt z2))"

definition rmqueue_smallest :: "nat \<Rightarrow> nat \<Rightarrow> zone \<Rightarrow> nat option \<times> zone" where
  "rmqueue_smallest ord mt z = rmqueue_smallest_from ord [ord..<MAX_ORDER] mt z"

text \<open>
  The table \<open>fallbacks\<close> has four columns and initialises three of them, so the last one is 0
  (\<open>MIGRATE_UNMOVABLE\<close>), and so is the row of \<open>MIGRATE_ISOLATE\<close>.
\<close>

definition fallbacks :: "nat \<Rightarrow> nat list" where
  "fallbacks mt =
     (if mt = MIGRATE_UNMOVABLE then [MIGRATE_RECLAIMABLE, MIGRATE_MOVABLE, MIGRATE_RESERVE, 0]
      else if mt = MIGRATE_RECLAIMABLE then [MIGRATE_UNMOVABLE, MIGRATE_MOVABLE, MIGRATE_RESERVE, 0]
      else if mt = MIGRATE_MOVABLE then [MIGRATE_RECLAIMABLE, MIGRATE_UNMOVABLE, MIGRATE_RESERVE, 0]
      else if mt = MIGRATE_RESERVE then [MIGRATE_RESERVE, MIGRATE_RESERVE, MIGRATE_RESERVE, 0]
      else [0, 0, 0, 0])"

function move_freepages_loop :: "nat \<Rightarrow> nat \<Rightarrow> nat \<Rightarrow> nat \<Rightarrow> zone \<Rightarrow> nat \<times> zone" where
  "move_freepages_loop p end_page mt moved z =
     (if p \<le> end_page
      then if \<not> PageBuddy z p then move_freepages_loop (p + 1) end_page mt moved z
           else let ord = page_private (mem_map z p)
                in move_freepages_loop (p + 2 ^ ord) end_page mt (moved + 2 ^ ord)
                     (list_add_lru p ord mt (list_del_lru p z))
      else (moved, z))"
  by pat_completeness auto
termination
  by (relation "measure (\<lambda>(p, e, mt, moved, z). Suc e - p)") (auto intro: diff_less_mono2)

definition move_freepages :: "nat \<Rightarrow> nat \<Rightarrow> nat \<Rightarrow> zone \<Rightarrow> (nat \<times> zone) option" where
  "move_freepages start_page end_page mt z =
     (if pg_zone (mem_map z start_page) \<noteq> pg_zone (mem_map z end_page) then None
      else Some (move_freepages_loop start_page end_page mt 0 z))"

definition move_freepages_block :: "nat \<Rightarrow> nat \<Rightarrow> zone \<Rightarrow> (nat \<times> zone) option" where
  "move_freepages_block p mt z =
     (let start_pfn = p - p mod pageblock_nr_pages;
          end_pfn = start_pfn + pageblock_nr_pages - 1;
          start_page = (if start_pfn < zone_start_pfn z then p else start_pfn)
      in if end_pfn \<ge> zone_start_pfn z + spanned_pages z then Some (0, z)
         else move_freepages start_page end_pfn mt z)"

text \<open>
  \<open>__rmqueue_fallback\<close>: \<open>fallback_take\<close> is the body of the two loops for a non-empty list,
  \<open>fallback_types\<close> the inner and \<open>fallback_orders\<close> the outer loop; \<open>None\<close> is \<open>BUG()\<close>, and the
  inner result \<open>None\<close> that no list had a page.
\<close>

definition fallback_take :: "nat \<Rightarrow> nat \<Rightarrow> nat \<Rightarrow> nat \<Rightarrow> nat \<Rightarrow> zone \<Rightarrow> (nat option \<times> zone) option" where
  "fallback_take p ord start_mt current_order mt0 z =
     (let z1 = add_nr_free current_order (-1) z
      in case (if current_order \<ge> drop_bit 1 pageblock_order \<or> start_mt = MIGRATE_RECLAIMABLE
               then (case move_freepages_block p start_mt z1 of
                       None \<Rightarrow> None
                     | Some (pages, z2) \<Rightarrow>
                         Some (start_mt, if pages \<ge> 2 ^ (pageblock_order - 1)
                                         then set_pageblock_migratetype p start_mt z2 else z2))
               else Some (mt0, z1)) of
           None \<Rightarrow> None
         | Some (mt, z3) \<Rightarrow>
             (let z4 = rmv_page_order p (list_del_lru p z3);
                  z5 = z4\<lparr>NR_FREE_PAGES := NR_FREE_PAGES z4 - 2 ^ ord\<rparr>;
                  z6 = (if current_order = pageblock_order then set_pageblock_migratetype p start_mt z5 else z5)
              in Some (Some p, expand p ord current_order mt z6)))"

fun fallback_types :: "nat \<Rightarrow> nat \<Rightarrow> nat \<Rightarrow> nat list \<Rightarrow> zone \<Rightarrow> (nat option \<times> zone) option" where
  "fallback_types ord start_mt current_order [] z = Some (None, z)"
| "fallback_types ord start_mt current_order (mt # mts) z =
     (if mt = MIGRATE_RESERVE then fallback_types ord start_mt current_order mts z
      else case free_list z current_order mt of
             [] \<Rightarrow> fallback_types ord start_mt current_order mts z
           | p # _ \<Rightarrow> fallback_take p ord start_mt current_order mt z)"

fun fallback_orders :: "nat \<Rightarrow> nat \<Rightarrow> nat list \<Rightarrow> zone \<Rightarrow> (nat option \<times> zone) option" where
  "fallback_orders ord start_mt [] z = Some (rmqueue_smallest ord MIGRATE_RESERVE z)"
| "fallback_orders ord start_mt (current_order # rest) z =
     (case fallback_types ord start_mt current_order (fallbacks start_mt) z of
        None \<Rightarrow> None
      | Some (Some p, z') \<Rightarrow> Some (Some p, z')
      | Some (None, z') \<Rightarrow> fallback_orders ord start_mt rest z')"

definition rmqueue_fallback :: "nat \<Rightarrow> nat \<Rightarrow> zone \<Rightarrow> (nat option \<times> zone) option" where
  "rmqueue_fallback ord start_mt z = fallback_orders ord start_mt (rev [ord..<MAX_ORDER]) z"

definition rmqueue :: "nat \<Rightarrow> nat \<Rightarrow> zone \<Rightarrow> (nat option \<times> zone) option" where
  "rmqueue ord mt z =
     (case rmqueue_smallest ord mt z of
        (Some p, z') \<Rightarrow> Some (Some p, z')
      | (None, z') \<Rightarrow> rmqueue_fallback ord mt z')"

section \<open>The per-cpu list and the entry points\<close>

definition GFP_COLD :: u32 where "GFP_COLD = 0x100"
definition GFP_COMP :: u32 where "GFP_COMP = 0x4000"
definition GFP_RECLAIMABLE :: u32 where "GFP_RECLAIMABLE = 0x80000"
definition GFP_MOVABLE :: u32 where "GFP_MOVABLE = 0x100000"

definition allocflags_to_migratetype :: "zone \<Rightarrow> u32 \<Rightarrow> nat" where
  "allocflags_to_migratetype z gfp_flags =
     (if mobility_disabled z then MIGRATE_UNMOVABLE
      else push_bit 1 (of_bool (gfp_flags AND GFP_MOVABLE \<noteq> 0)) OR of_bool (gfp_flags AND GFP_RECLAIMABLE \<noteq> 0))"

text \<open>\<open>prep_new_page\<close>; zeroing the page for \<open>__GFP_ZERO\<close> changes its contents, which are not modelled.\<close>

definition prep_new_page :: "nat \<Rightarrow> nat \<Rightarrow> u32 \<Rightarrow> zone \<Rightarrow> zone \<times> bool" where
  "prep_new_page p ord gfp_flags z =
     (let g = mem_map z p
      in if page_mapcount g \<noteq> 0 \<or> mapping g \<noteq> None \<or> page_count g \<noteq> 0 \<or> flags g \<inter> PAGE_FLAGS_CHECK_AT_PREP \<noteq> {}
         then (bad_page p z, True)
         else let z1 = set_page_refcounted p (set_page_private p 0 z)
              in (if ord \<noteq> 0 \<and> gfp_flags AND GFP_COMP \<noteq> 0 then prep_compound_page p ord z1 else z1, False))"

text \<open>\<open>rmqueue_bulk\<close> returns the pages in the order in which it links them into the caller's list.\<close>

fun rmqueue_bulk :: "nat \<Rightarrow> nat \<Rightarrow> nat \<Rightarrow> zone \<Rightarrow> (nat list \<times> zone) option" where
  "rmqueue_bulk ord 0 mt z = Some ([], z)"
| "rmqueue_bulk ord (Suc n) mt z =
     (case rmqueue ord mt z of
        None \<Rightarrow> None
      | Some (None, z1) \<Rightarrow> Some ([], z1)
      | Some (Some p, z1) \<Rightarrow>
          (case rmqueue_bulk ord n mt (set_page_private p mt z1) of
             None \<Rightarrow> None
           | Some (ps, z2) \<Rightarrow> Some (p # ps, z2)))"

definition pcp_refill :: "nat \<Rightarrow> zone \<Rightarrow> zone option" where
  "pcp_refill mt z =
     (case rmqueue_bulk 0 (pcp_batch z) mt z of
        None \<Rightarrow> None
      | Some (ps, z1) \<Rightarrow>
          Some (z1\<lparr>pcp_list := ps @ pcp_list z1, pcp_count := pcp_count z1 + int (length ps)\<rparr>))"

text \<open>One pass of \<open>buffered_rmqueue\<close> from the label \<open>again\<close> to the call of \<open>prep_new_page\<close>.\<close>

definition buffered_take :: "nat \<Rightarrow> u32 \<Rightarrow> zone \<Rightarrow> (nat option \<times> zone) option" where
  "buffered_take ord gfp_flags z =
     (let cold = (gfp_flags AND GFP_COLD \<noteq> 0); mt = allocflags_to_migratetype z gfp_flags
      in if ord = 0
         then case (if pcp_count z = 0 then pcp_refill mt z else Some z) of
                None \<Rightarrow> None
              | Some z1 \<Rightarrow>
                  if pcp_count z1 = 0 then Some (None, z1)
                  else
                    (case (case find (\<lambda>p. page_private (mem_map z1 p) = mt)
                              (if cold then rev (pcp_list z1) else pcp_list z1) of
                             Some p \<Rightarrow> Some (p, z1)
                           | None \<Rightarrow> (case pcp_refill mt z1 of
                                        None \<Rightarrow> None | Some z2 \<Rightarrow> Some (hd (pcp_list z2), z2))) of
                       None \<Rightarrow> None
                     | Some (p, z2) \<Rightarrow>
                         Some (Some p, z2\<lparr>pcp_list := remove1 p (pcp_list z2), pcp_count := pcp_count z2 - 1\<rparr>))
         else rmqueue ord mt z)"

text \<open>The retry after a bad page is a loop; a value \<open>None\<close> would be \<open>BUG()\<close> or a loop that does not end.\<close>

partial_function (option) buffered_rmqueue :: "nat \<Rightarrow> u32 \<Rightarrow> zone \<Rightarrow> (nat option \<times> zone) option" where
  "buffered_rmqueue ord gfp_flags z =
     (case buffered_take ord gfp_flags z of
        None \<Rightarrow> None
      | Some (None, z1) \<Rightarrow> Some (None, z1)
      | Some (Some p, z1) \<Rightarrow>
          (case prep_new_page p ord gfp_flags z1 of
             (z2, bad) \<Rightarrow> if bad then buffered_rmqueue ord gfp_flags z2 else Some (Some p, z2)))"

declare buffered_rmqueue.simps [code]

definition split_page :: "nat \<Rightarrow> nat \<Rightarrow> zone \<Rightarrow> zone" where
  "split_page p ord z = fold (\<lambda>i. set_page_refcounted (p + i)) [1..<2 ^ ord] z"

definition drain_pages :: "zone \<Rightarrow> zone option" where
  "drain_pages z =
     (case free_pages_bulk (nat (pcp_count z)) (pcp_list z) 0 z of
        None \<Rightarrow> None
      | Some (lst, z1) \<Rightarrow> Some (z1\<lparr>pcp_list := lst, pcp_count := 0\<rparr>))"

declare merge_buddies.simps [simp del] expand.simps [simp del] move_freepages_loop.simps [simp del]

end
