(* ===== verification/Dyadic.thy ===== *)
theory Dyadic
  imports KPrelude
begin

text \<open>
  Aligned blocks of \<open>2 ^ k\<close> consecutive numbers, and the index arithmetic that finds the buddy and
  the parent of a block. The page allocator uses these facts about page frame numbers.
\<close>

definition blk :: "nat \<Rightarrow> nat \<Rightarrow> nat set" where
  "blk p k = {p..<p + 2 ^ k}"

definition buddy_of :: "nat \<Rightarrow> nat \<Rightarrow> nat" where
  "buddy_of p k = (if bit p k then p - 2 ^ k else p + 2 ^ k)"

definition parent_of :: "nat \<Rightarrow> nat \<Rightarrow> nat" where
  "parent_of p k = (if bit p k then p - 2 ^ k else p)"

lemma finite_blk [simp]: "finite (blk p k)" and card_blk [simp]: "card (blk p k) = 2 ^ k"
  and blk_head [simp]: "p \<in> blk p k" and blk_ne [simp]: "blk p k \<noteq> {}"
  by (auto simp: blk_def)

lemma blk_div:
  assumes "2 ^ k dvd p"
  shows "y \<in> blk p k \<longleftrightarrow> y div 2 ^ k = p div 2 ^ k"
proof -
  from assms obtain c where c: "p = 2 ^ k * c" ..
  have "y div 2 ^ k = c \<longleftrightarrow> 2 ^ k * c \<le> y \<and> y < 2 ^ k * Suc c"
    by (metis div_nat_eqI dividend_less_times_div mult.commute mult_Suc_right nat_zero_less_power_iff
        times_div_less_eq_dividend zero_less_numeral add.commute)
  then show ?thesis by (auto simp: blk_def c)
qed

lemma blk_nested:
  assumes "2 ^ a dvd p" "2 ^ b dvd q" "a \<le> b" "blk p a \<inter> blk q b \<noteq> {}"
  shows "blk p a \<subseteq> blk q b"
proof
  obtain x where x: "x div 2 ^ a = p div 2 ^ a" "x div 2 ^ b = q div 2 ^ b"
    using assms by (auto simp: blk_div)
  have up: "z div 2 ^ b = z div 2 ^ a div 2 ^ (b - a)" for z :: nat
    using assms(3) by (simp flip: div_mult2_eq power_add)
  fix y assume "y \<in> blk p a"
  then show "y \<in> blk q b" using x up [of x] up [of y] assms(1,2) by (simp add: blk_div)
qed

lemma aligned_bit:
  fixes p :: nat
  assumes "2 ^ k dvd p"
  shows "2 ^ Suc k dvd p \<longleftrightarrow> \<not> bit p k"
proof -
  from assms obtain c where c: "p = 2 ^ k * c" ..
  have "2 ^ Suc k dvd p \<longleftrightarrow> even c" unfolding c power_Suc2 by simp
  then show ?thesis by (simp add: c bit_iff_odd)
qed

lemma aligned_bit_le: "2 ^ k dvd p \<Longrightarrow> bit p k \<Longrightarrow> (2::nat) ^ k \<le> p"
  by (metis bit_iff_odd div_less even_zero not_le)

lemma buddy_aligned: "2 ^ k dvd p \<Longrightarrow> 2 ^ k dvd buddy_of p k"
  by (auto simp: buddy_of_def intro: dvd_diff_nat)

lemma parent_aligned:
  assumes "2 ^ k dvd p"
  shows "2 ^ Suc k dvd parent_of p k"
proof (cases "bit p k")
  case True
  from assms obtain c where c: "p = 2 ^ k * c" ..
  with True have "odd c" by (simp add: bit_iff_odd)
  then obtain d where "c = 2 * d + 1" by (auto elim: oddE)
  then have "parent_of p k = 2 ^ Suc k * d" using True by (simp add: parent_of_def c algebra_simps)
  then show ?thesis by simp
next
  case False
  then show ?thesis using aligned_bit [OF assms] by (simp add: parent_of_def)
qed

lemma parent_blk:
  assumes "2 ^ k dvd p"
  shows "blk (parent_of p k) (Suc k) = blk p k \<union> blk (buddy_of p k) k"
  using aligned_bit_le [OF assms] by (auto simp: blk_def parent_of_def buddy_of_def)

lemma buddy_disjoint:
  assumes "2 ^ k dvd p"
  shows "blk p k \<inter> blk (buddy_of p k) k = {}"
  using aligned_bit_le [OF assms] by (auto simp: blk_def buddy_of_def)

lemma bit_buddy:
  assumes "2 ^ k dvd p"
  shows "bit (buddy_of p k) k \<longleftrightarrow> \<not> bit p k"
proof -
  from assms obtain c where c: "p = 2 ^ k * c" ..
  show ?thesis
  proof (cases "odd c")
    case True
    then obtain d where "c = Suc d" by (cases c) auto
    with True show ?thesis by (simp add: buddy_of_def c bit_iff_odd)
  qed (simp add: buddy_of_def c bit_iff_odd flip: mult_Suc_right)
qed

lemma buddy_buddy:
  assumes "2 ^ k dvd p"
  shows "buddy_of (buddy_of p k) k = p"
  using bit_buddy [OF assms] aligned_bit_le [OF assms] by (auto simp: buddy_of_def)

lemma buddy_neq: "2 ^ k dvd p \<Longrightarrow> buddy_of p k \<noteq> p"
  using bit_buddy by metis

text \<open>The source computes both from the index within a block of \<open>2 ^ m\<close> pages.\<close>

lemma unset_bit_add:
  fixes n :: nat
  assumes "bit n k"
  shows "unset_bit k n + 2 ^ k = n"
proof -
  have "unset_bit k n AND 2 ^ k = 0" by (intro bit_eqI) (auto simp: bit_simps)
  then have "unset_bit k n + 2 ^ k = unset_bit k n OR 2 ^ k" by (rule disjunctive_add_eq_or)
  also have "\<dots> = n" using assms by (intro bit_eqI) (auto simp: bit_simps)
  finally show ?thesis .
qed

lemma unset_bit_same: "\<not> bit n k \<Longrightarrow> unset_bit k n = (n :: nat)"
  by (intro bit_eqI) (auto simp: bit_simps)

lemma xor_bit_set:
  fixes n :: nat
  assumes "\<not> bit n k"
  shows "n XOR push_bit k 1 = n + 2 ^ k"
proof -
  have "n AND 2 ^ k = 0" using assms by (intro bit_eqI) (auto simp: bit_simps)
  then have "n + 2 ^ k = n OR 2 ^ k" by (rule disjunctive_add_eq_or)
  also have "\<dots> = n XOR push_bit k 1" using assms by (intro bit_eqI) (auto simp: bit_simps)
  finally show ?thesis by simp
qed

lemma xor_bit_unset: "bit n k \<Longrightarrow> (n XOR push_bit k 1) + 2 ^ k = (n :: nat)"
proof -
  assume b: "bit n k"
  then have "n XOR push_bit k 1 = unset_bit k n" by (intro bit_eqI) (auto simp: bit_simps)
  with unset_bit_add [OF b] show ?thesis by simp
qed

lemma xor_buddy:
  assumes "k < m" "2 ^ k dvd p"
  shows "int (p mod 2 ^ m XOR push_bit k 1) - int (p mod 2 ^ m) = int (buddy_of p k) - int p"
proof -
  let ?i = "p mod 2 ^ m"
  have b: "bit ?i k \<longleftrightarrow> bit p k" using assms by (simp add: bit_take_bit_iff flip: take_bit_eq_mod)
  show ?thesis
  proof (cases "bit p k")
    case True
    then have "(?i XOR push_bit k 1) + 2 ^ k = ?i" using b xor_bit_unset by blast
    then have "int ?i = int (?i XOR push_bit k 1) + 2 ^ k"
      by (metis of_nat_add of_nat_numeral of_nat_power)
    with True aligned_bit_le [OF assms(2) True] show ?thesis by (simp add: buddy_of_def)
  next
    case False
    then show ?thesis using b xor_bit_set [of ?i k] by (simp add: buddy_of_def)
  qed
qed

lemma parent_unset: "2 ^ k dvd p \<Longrightarrow> parent_of p k = unset_bit k p"
  using unset_bit_add [of p k] unset_bit_same [of p k] by (auto simp: parent_of_def)

lemma unset_parent:
  assumes "k < m" "2 ^ k dvd p"
  shows "int (unset_bit k (p mod 2 ^ m)) - int (p mod 2 ^ m) = int (parent_of p k) - int p"
    "unset_bit k (p mod 2 ^ m) = parent_of p k mod 2 ^ m"
proof -
  let ?i = "p mod 2 ^ m"
  have b: "bit ?i k \<longleftrightarrow> bit p k" using assms by (simp add: bit_take_bit_iff flip: take_bit_eq_mod)
  show "int (unset_bit k ?i) - int ?i = int (parent_of p k) - int p"
  proof (cases "bit p k")
    case True
    then have "unset_bit k ?i + 2 ^ k = ?i" "unset_bit k p + 2 ^ k = p" using b unset_bit_add by blast+
    then have "int ?i = int (unset_bit k ?i) + 2 ^ k" "int p = int (unset_bit k p) + 2 ^ k"
      by (metis of_nat_add of_nat_numeral of_nat_power)+
    then show ?thesis using parent_unset [OF assms(2)] by simp
  next
    case False
    then show ?thesis using b unset_bit_same by (simp add: parent_of_def)
  qed
  show "unset_bit k ?i = parent_of p k mod 2 ^ m"
    unfolding parent_unset [OF assms(2)] take_bit_eq_mod [symmetric]
    using assms(1) by (intro bit_eqI) (auto simp: bit_simps)
qed

end
