(* ===== verification/BuddyOk.thy ===== *)
theory BuddyOk
  imports Buddy Dyadic
begin

text \<open>
  The invariant of the buddy allocator and the proof that freeing, splitting and allocating keep
  it. \<open>free_blocks\<close> is the abstract state of a zone: the set of free blocks (first page, order). The
  two lemmas \<open>block_removed\<close> and \<open>block_added\<close> reduce the code's list and page operations to removing
  and inserting one element of that set; the rest of the proofs is about sets of aligned blocks.
\<close>

section \<open>The invariant\<close>

definition zone_span :: "zone \<Rightarrow> nat set" where
  "zone_span z = {zone_start_pfn z..<zone_start_pfn z + spanned_pages z}"

definition page_clean :: "page \<Rightarrow> bool" where
  "page_clean g \<longleftrightarrow> page_count g = 0 \<and> page_mapcount g = 0 \<and> mapping g = None \<and> flags g \<subseteq> {PG_buddy}"

definition free_blocks :: "zone \<Rightarrow> (nat \<times> nat) set" where
  "free_blocks z = {(p, k). \<exists>mt. p \<in> set (free_list z k mt)}"

definition pages_of :: "(nat \<times> nat) set \<Rightarrow> nat set" where
  "pages_of B = (\<Union>(p, k)\<in>B. blk p k)"

definition head_ok :: "zone \<Rightarrow> nat \<Rightarrow> nat \<Rightarrow> bool" where
  "head_ok z p k \<longleftrightarrow> k < MAX_ORDER \<and> 2 ^ k dvd p \<and> blk p k \<subseteq> zone_span z \<and>
     PageBuddy z p \<and> page_private (mem_map z p) = k \<and> (\<forall>q\<in>blk p k. page_clean (mem_map z q))"

definition lists_ok :: "zone \<Rightarrow> bool" where
  "lists_ok z \<longleftrightarrow>
     (\<forall>k mt. distinct (free_list z k mt)) \<and>
     (\<forall>k mt p. p \<in> set (free_list z k mt) \<longrightarrow> mt < MIGRATE_TYPES) \<and>
     (\<forall>k mt mt' p. p \<in> set (free_list z k mt) \<longrightarrow> p \<in> set (free_list z k mt') \<longrightarrow> mt = mt') \<and>
     (\<forall>k. nr_free z k = (\<Sum>mt<MIGRATE_TYPES. int (length (free_list z k mt))))"

definition disjoint_blocks :: "(nat \<times> nat) set \<Rightarrow> bool" where
  "disjoint_blocks B \<longleftrightarrow> (\<forall>(p, k)\<in>B. \<forall>(q, j)\<in>B. (p, k) \<noteq> (q, j) \<longrightarrow> blk p k \<inter> blk q j = {})"

text \<open>Both halves of a block that could be larger are never free at the same time.\<close>

definition coalesced :: "(nat \<times> nat) set \<Rightarrow> bool" where
  "coalesced B \<longleftrightarrow> (\<forall>(p, k)\<in>B. k < MAX_ORDER - 1 \<longrightarrow> (buddy_of p k, k) \<notin> B)"

definition zone_ok :: "zone \<Rightarrow> bool" where
  "zone_ok z \<longleftrightarrow> lists_ok z \<and>
     (\<forall>q. pg_zone (mem_map z q) = zone_id z \<longleftrightarrow> q \<in> zone_span z) \<and>
     (\<forall>(p, k)\<in>free_blocks z. head_ok z p k) \<and>
     (\<forall>q\<in>zone_span z. PageBuddy z q \<longrightarrow> (q, page_private (mem_map z q)) \<in> free_blocks z) \<and>
     disjoint_blocks (free_blocks z) \<and>
     (\<forall>q. get_pageblock_migratetype z q < MIGRATE_TYPES)"

definition free_set :: "zone \<Rightarrow> nat set" where
  "free_set z = pages_of (free_blocks z)"

definition zone_inv :: "zone \<Rightarrow> bool" where
  "zone_inv z \<longleftrightarrow> zone_ok z \<and> coalesced (free_blocks z) \<and> NR_FREE_PAGES z = int (card (free_set z))"

section \<open>Field accesses\<close>

lemma zone_okD:
  assumes "zone_ok z"
  shows "lists_ok z" "pg_zone (mem_map z q) = zone_id z \<longleftrightarrow> q \<in> zone_span z"
    "(p, k) \<in> free_blocks z \<Longrightarrow> head_ok z p k"
    "q \<in> zone_span z \<Longrightarrow> PageBuddy z q \<Longrightarrow> (q, page_private (mem_map z q)) \<in> free_blocks z"
    "disjoint_blocks (free_blocks z)" "get_pageblock_migratetype z q < MIGRATE_TYPES"
  using assms unfolding zone_ok_def by blast+

lemma lists_okD:
  assumes "lists_ok z"
  shows "distinct (free_list z k mt)" "p \<in> set (free_list z k mt) \<Longrightarrow> mt < MIGRATE_TYPES"
    "p \<in> set (free_list z k mt) \<Longrightarrow> p \<in> set (free_list z k mt') \<Longrightarrow> mt = mt'"
    "nr_free z k = (\<Sum>mt<MIGRATE_TYPES. int (length (free_list z k mt)))"
  using assms unfolding lists_ok_def by blast+

lemma head_okD:
  assumes "head_ok z p k"
  shows "k < MAX_ORDER" "2 ^ k dvd p" "blk p k \<subseteq> zone_span z" "PageBuddy z p"
    "page_private (mem_map z p) = k" "q \<in> blk p k \<Longrightarrow> page_clean (mem_map z q)"
  using assms unfolding head_ok_def by blast+

lemmas zone_op_defs = upd_page_def set_page_order_def rmv_page_order_def list_del_lru_def list_add_lru_def
  add_nr_free_def

lemma pages_of_insert [simp]: "pages_of (insert (p, k) B) = blk p k \<union> pages_of B"
  by (auto simp: pages_of_def)

lemma pages_of_mem: "(p, k) \<in> B \<Longrightarrow> blk p k \<subseteq> pages_of B"
  by (auto simp: pages_of_def)

lemma pages_of_Un [simp]: "pages_of (A \<union> B) = pages_of A \<union> pages_of B" and pages_of_empty [simp]: "pages_of {} = {}"
  by (auto simp: pages_of_def)

lemma pages_of_mono: "A \<subseteq> B \<Longrightarrow> pages_of A \<subseteq> pages_of B"
  by (auto simp: pages_of_def)

lemma pages_of_remove:
  assumes "disjoint_blocks B" "(p, k) \<in> B"
  shows "pages_of (B - {(p, k)}) = pages_of B - blk p k"
  using assms unfolding pages_of_def disjoint_blocks_def by fast

lemma disjoint_blocks_subset: "disjoint_blocks B \<Longrightarrow> A \<subseteq> B \<Longrightarrow> disjoint_blocks A"
  unfolding disjoint_blocks_def by blast

lemma disjoint_blocks_insert:
  assumes "disjoint_blocks B" "blk p k \<inter> pages_of B = {}"
  shows "disjoint_blocks (insert (p, k) B)"
  using assms unfolding disjoint_blocks_def pages_of_def by fast

lemma finite_free_set:
  assumes "zone_ok z"
  shows "finite (free_set z)"
proof -
  have "free_set z \<subseteq> zone_span z"
    using head_okD(3) zone_okD(3) [OF assms] unfolding free_set_def pages_of_def by blast
  then show ?thesis by (rule finite_subset) (simp add: zone_span_def)
qed

lemma get_pageblock_migratetype_cong:
  "zone_start_pfn z' = zone_start_pfn z \<Longrightarrow> pageblock_flags z' = pageblock_flags z \<Longrightarrow>
   mobility_disabled z' = mobility_disabled z \<Longrightarrow>
   get_pageblock_migratetype z' q = get_pageblock_migratetype z q"
  by (simp add: get_pageblock_migratetype_def get_pageblock_flags_group_def pfn_to_bitidx_def)

text \<open>What an operation on the free lists leaves alone: pages outside \<open>S\<close> and the per-cpu list.\<close>

definition frame :: "nat set \<Rightarrow> zone \<Rightarrow> zone \<Rightarrow> bool" where
  "frame S z z' \<longleftrightarrow> (\<forall>q. q \<notin> S \<longrightarrow> mem_map z' q = mem_map z q) \<and> pcp_list z' = pcp_list z \<and>
     pcp_count z' = pcp_count z \<and> pcp_high z' = pcp_high z \<and> pcp_batch z' = pcp_batch z \<and>
     mobility_disabled z' = mobility_disabled z \<and> zone_id z' = zone_id z"

lemma frame_refl [simp]: "frame S z z"
  by (simp add: frame_def)

lemma frame_trans: "frame S z z' \<Longrightarrow> frame S z' z'' \<Longrightarrow> frame S z z''"
  by (simp add: frame_def)

lemma frame_mono: "frame S z z' \<Longrightarrow> S \<subseteq> S' \<Longrightarrow> frame S' z z'"
  by (auto simp: frame_def)

section \<open>Removing a block\<close>

definition remove_block :: "nat \<Rightarrow> nat \<Rightarrow> zone \<Rightarrow> zone" where
  "remove_block p k z = rmv_page_order p (add_nr_free k (-1) (list_del_lru p z))"

lemma remove_block_fields [simp]:
  "zone_id (remove_block p k z) = zone_id z" "zone_start_pfn (remove_block p k z) = zone_start_pfn z"
  "spanned_pages (remove_block p k z) = spanned_pages z" "pageblock_flags (remove_block p k z) = pageblock_flags z"
  "mobility_disabled (remove_block p k z) = mobility_disabled z" "NR_FREE_PAGES (remove_block p k z) = NR_FREE_PAGES z"
  "free_list (remove_block p k z) = (\<lambda>o' mt. remove1 p (free_list z o' mt))"
  "nr_free (remove_block p k z) = (nr_free z)(k := nr_free z k - 1)"
  "mem_map (remove_block p k z) = (mem_map z)(p := (mem_map z p)\<lparr>flags := flags (mem_map z p) - {PG_buddy}, page_private := 0\<rparr>)"
  "zone_span (remove_block p k z) = zone_span z"
  by (simp_all add: remove_block_def zone_op_defs zone_span_def)

lemma frame_remove_block: "frame {p} z (remove_block p k z)"
  by (simp add: frame_def remove_block_def zone_op_defs)

lemma free_block_order:
  assumes "zone_ok z" "(p, k) \<in> free_blocks z" "(p, j) \<in> free_blocks z"
  shows "k = j"
  using head_okD(5) zone_okD(3) [OF assms(1)] assms(2,3) by metis

lemma free_blocks_remove:
  assumes "zone_ok z" "(p, k) \<in> free_blocks z"
  shows "free_blocks (remove_block p k z) = free_blocks z - {(p, k)}"
proof -
  have d: "distinct (free_list z o' mt)" for o' mt using assms by (simp add: zone_ok_def lists_ok_def)
  show ?thesis
    using free_block_order [OF assms] by (auto simp: free_blocks_def set_remove1_eq [OF d])
qed

lemma lists_ok_remove:
  assumes "zone_ok z" "(p, k) \<in> free_blocks z"
  shows "lists_ok (remove_block p k z)"
proof -
  have l: "lists_ok z" using assms by (simp add: zone_ok_def)
  then have d: "distinct (free_list z j mt)" for j mt by (simp add: lists_ok_def)
  obtain m where m: "p \<in> set (free_list z k m)" "m < MIGRATE_TYPES"
    using assms(2) l unfolding free_blocks_def lists_ok_def by blast
  have uniq: "p \<in> set (free_list z j mt) \<longleftrightarrow> j = k \<and> mt = m" for j mt
  proof
    assume p: "p \<in> set (free_list z j mt)"
    then have "(p, j) \<in> free_blocks z" by (auto simp: free_blocks_def)
    then have "j = k" using free_block_order [OF assms(1)] assms(2) by blast
    then show "j = k \<and> mt = m" using p m l by (auto simp: lists_ok_def)
  qed (use m in auto)
  have len: "int (length (remove1 p (free_list z j mt))) =
      int (length (free_list z j mt)) - of_bool (j = k \<and> mt = m)" for j mt
    using uniq [of j mt] length_pos_if_in_set [of p "free_list z j mt"]
    by (auto simp: length_remove1 of_nat_diff Suc_leI)
  have "(\<Sum>mt<MIGRATE_TYPES. int (length (remove1 p (free_list z j mt)))) =
      (\<Sum>mt<MIGRATE_TYPES. int (length (free_list z j mt))) - of_bool (j = k)" for j
    using m(2) by (simp add: len sum_subtractf of_bool_conj sum.delta' flip: sum_distrib_left)
  then have n: "nr_free (remove_block p k z) j =
      (\<Sum>mt<MIGRATE_TYPES. int (length (free_list (remove_block p k z) j mt)))" for j
    by (simp add: lists_okD(4) [OF l])
  have s: "q \<in> set (free_list (remove_block p k z) j mt) \<Longrightarrow> q \<in> set (free_list z j mt)" for q j mt
    by (simp add: set_remove1_eq [OF d])
  show ?thesis
    unfolding lists_ok_def using n s d lists_okD(2,3) [OF l] by (metis distinct_remove1 remove_block_fields(7))
qed

lemma block_removed:
  assumes z: "zone_ok z" and p: "(p, k) \<in> free_blocks z"
  shows "zone_ok (remove_block p k z)" "free_blocks (remove_block p k z) = free_blocks z - {(p, k)}"
proof -
  let ?z = "remove_block p k z"
  show fb: "free_blocks ?z = free_blocks z - {(p, k)}" by (rule free_blocks_remove [OF z p])
  have dj: "disjoint_blocks (free_blocks z)" using z by (simp add: zone_ok_def)
  have heads: "head_ok ?z q j" if "(q, j) \<in> free_blocks z - {(p, k)}" for q j
  proof -
    from that have h: "head_ok z q j" and n: "(q, j) \<noteq> (p, k)" "(q, j) \<in> free_blocks z"
      using z by (auto simp: zone_ok_def)
    then have "q \<noteq> p" using free_block_order [OF z] p by blast
    with h show ?thesis by (auto simp: head_ok_def PageBuddy_def page_clean_def)
  qed
  have "(q, page_private (mem_map ?z q)) \<in> free_blocks z - {(p, k)}" if "q \<in> zone_span z" "PageBuddy ?z q" for q
    using that z by (auto simp: zone_ok_def PageBuddy_def split: if_splits)
  then show "zone_ok ?z"
    unfolding zone_ok_def fb
    using z heads lists_ok_remove [OF z p] disjoint_blocks_subset [OF dj]
    by (auto simp: zone_ok_def get_pageblock_migratetype_cong [of ?z z])
qed

section \<open>Adding a block\<close>

definition add_block :: "nat \<Rightarrow> nat \<Rightarrow> nat \<Rightarrow> zone \<Rightarrow> zone" where
  "add_block p k mt z = add_nr_free k 1 (list_add_lru p k mt (set_page_order p k z))"

lemma add_block_fields [simp]:
  "zone_id (add_block p k mt z) = zone_id z" "zone_start_pfn (add_block p k mt z) = zone_start_pfn z"
  "spanned_pages (add_block p k mt z) = spanned_pages z" "pageblock_flags (add_block p k mt z) = pageblock_flags z"
  "mobility_disabled (add_block p k mt z) = mobility_disabled z" "NR_FREE_PAGES (add_block p k mt z) = NR_FREE_PAGES z"
  "free_list (add_block p k mt z) = (free_list z)(k := (free_list z k)(mt := p # free_list z k mt))"
  "nr_free (add_block p k mt z) = (nr_free z)(k := nr_free z k + 1)"
  "mem_map (add_block p k mt z) = (mem_map z)(p := (mem_map z p)\<lparr>page_private := k, flags := insert PG_buddy (flags (mem_map z p))\<rparr>)"
  "zone_span (add_block p k mt z) = zone_span z"
  by (simp_all add: add_block_def zone_op_defs zone_span_def)

lemma frame_add_block: "frame {p} z (add_block p k mt z)"
  by (simp add: frame_def add_block_def zone_op_defs)

lemma free_blocks_add: "free_blocks (add_block p k mt z) = insert (p, k) (free_blocks z)"
  by (auto simp: free_blocks_def split: if_splits)

lemma lists_ok_add:
  assumes l: "lists_ok z" and mt: "mt < MIGRATE_TYPES" and new: "(p, k) \<notin> free_blocks z"
  shows "lists_ok (add_block p k mt z)"
proof -
  let ?z = "add_block p k mt z"
  have new: "p \<notin> set (free_list z k m)" for m using new by (auto simp: free_blocks_def)
  have "(\<Sum>m<MIGRATE_TYPES. int (length (free_list ?z j m))) =
      (\<Sum>m<MIGRATE_TYPES. int (length (free_list z j m)) + of_bool (j = k \<and> m = mt))" for j
    by (intro sum.cong) auto
  then have n: "nr_free ?z j = (\<Sum>m<MIGRATE_TYPES. int (length (free_list ?z j m)))" for j
    using mt by (simp add: lists_okD(4) [OF l] sum.distrib of_bool_conj sum.delta' flip: sum_distrib_left)
  have m: "q \<in> set (free_list ?z j m) \<longleftrightarrow> q \<in> set (free_list z j m) \<or> (q = p \<and> j = k \<and> m = mt)" for q j m
    by auto
  have d: "distinct (free_list ?z j m)" for j m
    using lists_okD(1) [OF l] new by auto
  show ?thesis
    unfolding lists_ok_def m using n d mt new lists_okD(2,3) [OF l] by blast
qed

lemma block_added:
  assumes z: "zone_ok z" and k: "k < MAX_ORDER" "2 ^ k dvd p" "blk p k \<subseteq> zone_span z" "mt < MIGRATE_TYPES"
    and clean: "\<forall>q\<in>blk p k. page_clean (mem_map z q)" and free: "blk p k \<inter> free_set z = {}"
  shows "zone_ok (add_block p k mt z)" "free_blocks (add_block p k mt z) = insert (p, k) (free_blocks z)"
proof -
  let ?z = "add_block p k mt z"
  show fb: "free_blocks ?z = insert (p, k) (free_blocks z)" by (rule free_blocks_add)
  have new: "(p, j) \<notin> free_blocks z" for j
    using free pages_of_mem [of p j "free_blocks z"] blk_head [of p k] blk_head [of p j]
    unfolding free_set_def by blast
  have heads: "head_ok ?z q j" if "(q, j) \<in> free_blocks z" for q j
  proof -
    from that have h: "head_ok z q j" and n: "q \<noteq> p" using zone_okD(3) [OF z] new by auto
    then show ?thesis by (auto simp: head_ok_def PageBuddy_def page_clean_def)
  qed
  have head: "head_ok ?z p k" using k clean by (auto simp: head_ok_def PageBuddy_def page_clean_def)
  have "(q, page_private (mem_map ?z q)) \<in> insert (p, k) (free_blocks z)"
    if "q \<in> zone_span z" "PageBuddy ?z q" for q
    using that zone_okD(4) [OF z] by (auto simp: PageBuddy_def split: if_splits)
  moreover have "disjoint_blocks (insert (p, k) (free_blocks z))"
    using disjoint_blocks_insert [OF zone_okD(5) [OF z]] free by (simp add: free_set_def)
  ultimately show "zone_ok ?z"
    unfolding zone_ok_def fb
    using zone_okD(2,6) [OF z] heads head lists_ok_add [OF zone_okD(1) [OF z] k(4) new]
    by (auto simp: get_pageblock_migratetype_cong [of ?z z])
qed

section \<open>Merging with free buddies\<close>

lemma page_find_buddy_eq:
  assumes "ord < MAX_ORDER" "2 ^ ord dvd p"
  shows "page_find_buddy p (p mod 2 ^ MAX_ORDER) ord = buddy_of p ord"
  unfolding page_find_buddy_def Let_def xor_buddy [OF assms] by simp

lemma find_combined_index_eq:
  assumes "ord < MAX_ORDER" "2 ^ ord dvd p"
  shows "find_combined_index (p mod 2 ^ MAX_ORDER) ord = parent_of p ord mod 2 ^ MAX_ORDER"
    "nat (int p + (int (find_combined_index (p mod 2 ^ MAX_ORDER) ord) - int (p mod 2 ^ MAX_ORDER))) = parent_of p ord"
  unfolding find_combined_index_def using unset_parent [OF assms] by simp_all

lemma page_is_buddy_eq:
  assumes "zone_ok z" "pg_zone (mem_map z p) = zone_id z"
  shows "page_is_buddy z p b k = Some ((b, k) \<in> free_blocks z)"
proof (cases "(b, k) \<in> free_blocks z")
  case True
  then have h: "head_ok z b k" using zone_okD(3) [OF assms(1)] by blast
  then have "b \<in> zone_span z" using head_okD(3) blk_head by blast
  then have "pg_zone (mem_map z b) = zone_id z" using zone_okD(2) [OF assms(1)] by blast
  with h True assms(2) head_okD(6) [OF h blk_head] show ?thesis
    by (simp add: page_is_buddy_def page_clean_def head_okD(4,5))
next
  case False
  then have "\<not> (PageBuddy z b \<and> page_private (mem_map z b) = k)" if "pg_zone (mem_map z b) = zone_id z"
    using that zone_okD(2,4) [OF assms(1)] by blast
  with False assms(2) show ?thesis by (auto simp: page_is_buddy_def)
qed

text \<open>What the loop keeps, for the block \<open>(p, k)\<close> being freed.\<close>

definition freeing :: "zone \<Rightarrow> nat \<Rightarrow> nat \<Rightarrow> bool" where
  "freeing z p k \<longleftrightarrow> zone_ok z \<and> coalesced (free_blocks z) \<and> k < MAX_ORDER \<and> 2 ^ k dvd p \<and>
     blk p k \<subseteq> zone_span z \<and> (\<forall>q\<in>blk p k. page_clean (mem_map z q)) \<and> blk p k \<inter> free_set z = {}"

lemma coalesced_subset: "coalesced B \<Longrightarrow> A \<subseteq> B \<Longrightarrow> coalesced A"
  unfolding coalesced_def by blast

lemma freeing_step:
  assumes f: "freeing z p k" and b: "(buddy_of p k, k) \<in> free_blocks z" and k: "Suc k < MAX_ORDER"
  defines "z1 \<equiv> remove_block (buddy_of p k) k z"
  shows "freeing z1 (parent_of p k) (Suc k)"
    "free_set z1 \<union> blk (parent_of p k) (Suc k) = free_set z \<union> blk p k"
    "frame (free_set z) z z1" "free_set z1 \<subseteq> free_set z"
proof -
  have z: "zone_ok z" and al: "2 ^ k dvd p" using f by (auto simp: freeing_def)
  note rem = block_removed [OF z b, folded z1_def]
  note hb = zone_okD(3) [OF z b]
  have fs: "free_set z1 = free_set z - blk (buddy_of p k) k"
    unfolding free_set_def rem(2) by (rule pages_of_remove [OF zone_okD(5) [OF z] b])
  have par: "blk (parent_of p k) (Suc k) = blk p k \<union> blk (buddy_of p k) k" by (rule parent_blk [OF al])
  have "coalesced (free_blocks z1)"
    using f coalesced_subset [of "free_blocks z"] by (auto simp: freeing_def rem(2))
  moreover have "page_clean (mem_map z1 q)" if "q \<in> blk (parent_of p k) (Suc k)" for q
  proof -
    have "page_clean (mem_map z q)" using that f head_okD(6) [OF hb] by (auto simp: par freeing_def)
    then show ?thesis by (auto simp: z1_def page_clean_def)
  qed
  moreover have "blk (parent_of p k) (Suc k) \<inter> free_set z1 = {}"
    using f by (auto simp: par fs freeing_def)
  moreover have "blk (parent_of p k) (Suc k) \<subseteq> zone_span z1"
    using f head_okD(3) [OF hb] by (auto simp: par freeing_def z1_def)
  ultimately show "freeing z1 (parent_of p k) (Suc k)"
    using rem(1) k parent_aligned [OF al] by (simp add: freeing_def)
  have "blk (buddy_of p k) k \<subseteq> free_set z" using pages_of_mem [OF b] by (simp add: free_set_def)
  then show "free_set z1 \<union> blk (parent_of p k) (Suc k) = free_set z \<union> blk p k"
    unfolding fs par by blast
  show "frame (free_set z) z z1"
    using frame_remove_block pages_of_mem [OF b] blk_head unfolding z1_def free_set_def
    by (blast intro: frame_mono)
  show "free_set z1 \<subseteq> free_set z" unfolding fs by blast
qed

lemma merge_buddies_ok:
  assumes "freeing z p k" "idx = p mod 2 ^ MAX_ORDER"
  shows "\<exists>z' p' k'. merge_buddies z p idx k = Some (z', p', k') \<and> freeing z' p' k' \<and>
    free_set z' \<union> blk p' k' = free_set z \<union> blk p k \<and>
    (k' < MAX_ORDER - 1 \<longrightarrow> (buddy_of p' k', k') \<notin> free_blocks z') \<and>
    NR_FREE_PAGES z' = NR_FREE_PAGES z \<and> frame (free_set z) z z' \<and> zone_span z' = zone_span z"
  using assms
proof (induction z p idx k rule: merge_buddies.induct)
  case (1 z p idx k)
  have f: "zone_ok z" "k < MAX_ORDER" "2 ^ k dvd p" "p \<in> zone_span z"
    using "1.prems"(1) blk_head by (auto simp: freeing_def)
  have bud: "page_find_buddy p idx k = buddy_of p k"
    using page_find_buddy_eq [OF f(2,3)] "1.prems"(2) by simp
  have isb: "page_is_buddy z p (buddy_of p k) k = Some ((buddy_of p k, k) \<in> free_blocks z)"
    using zone_okD(2) [OF f(1)] f(4) by (intro page_is_buddy_eq [OF f(1)]) blast
  show ?case
  proof (cases "k < MAX_ORDER - 1 \<and> (buddy_of p k, k) \<in> free_blocks z")
    case True
    then have k: "Suc k < MAX_ORDER" by linarith
    let ?z = "remove_block (buddy_of p k) k z"
    have st: "freeing ?z (parent_of p k) (Suc k)"
      "free_set ?z \<union> blk (parent_of p k) (Suc k) = free_set z \<union> blk p k"
      "frame (free_set z) z ?z" "free_set ?z \<subseteq> free_set z"
      using freeing_step [OF "1.prems"(1) _ k] True by auto
    note ci = find_combined_index_eq [OF f(2,3), folded "1.prems"(2)]
    note comb = ci(1) ci(2) [unfolded ci(1)]
    have run: "merge_buddies z p idx k = merge_buddies ?z (parent_of p k) (find_combined_index idx k) (k + 1)"
      using True by (subst merge_buddies.simps) (simp add: bud isb comb remove_block_def Let_def)
    have "\<exists>z' p' k'. merge_buddies ?z (parent_of p k) (find_combined_index idx k) (k + 1) = Some (z', p', k') \<and>
        freeing z' p' k' \<and> free_set z' \<union> blk p' k' = free_set ?z \<union> blk (parent_of p k) (k + 1) \<and>
        (k' < MAX_ORDER - 1 \<longrightarrow> (buddy_of p' k', k') \<notin> free_blocks z') \<and>
        NR_FREE_PAGES z' = NR_FREE_PAGES ?z \<and> frame (free_set ?z) ?z z' \<and> zone_span z' = zone_span ?z"
    proof (rule "1.IH")
      show "k < MAX_ORDER - 1" "buddy_of p k = page_find_buddy p idx k" "True = True"
        "find_combined_index idx k = find_combined_index idx k"
        using True bud by simp_all
      show "page_is_buddy z p (buddy_of p k) k = Some True" using isb True by simp
      show "?z = rmv_page_order (buddy_of p k) (add_nr_free k (- 1) (list_del_lru (buddy_of p k) z))"
        by (rule remove_block_def)
      show "parent_of p k = nat (int p + (int (find_combined_index idx k) - int idx))" using ci(2) by simp
      show "freeing ?z (parent_of p k) (k + 1)" using st(1) by simp
      show "find_combined_index idx k = parent_of p k mod 2 ^ MAX_ORDER" by (rule ci(1))
    qed
    then show ?thesis
      unfolding run using st(2) frame_trans [OF st(3) frame_mono [OF _ st(4)]] by fastforce
  next
    case False
    then have "merge_buddies z p idx k = Some (z, p, k)"
      by (subst merge_buddies.simps) (auto simp: bud isb Let_def)
    with False "1.prems"(1) show ?thesis by auto
  qed
qed

lemma coalesced_insert:
  assumes "coalesced B" "2 ^ k dvd p" "k < MAX_ORDER - 1 \<longrightarrow> (buddy_of p k, k) \<notin> B"
    "\<And>q j. (q, j) \<in> B \<Longrightarrow> 2 ^ j dvd q"
  shows "coalesced (insert (p, k) B)"
proof -
  have "(buddy_of q j, j) \<notin> insert (p, k) B" if q: "(q, j) \<in> B" "j < MAX_ORDER - 1" for q j
  proof
    assume "(buddy_of q j, j) \<in> insert (p, k) B"
    then consider "p = buddy_of q j" "k = j" | "(buddy_of q j, j) \<in> B" by auto
    then show False
    proof cases
      case 1
      then have "buddy_of p k = q" using buddy_buddy assms(4) q(1) by simp
      with assms(3) q 1 show False by auto
    next
      case 2
      with assms(1) q show False by (auto simp: coalesced_def)
    qed
  qed
  moreover have "(buddy_of p k, k) \<notin> insert (p, k) B" if "k < MAX_ORDER - 1"
    using assms(3) that buddy_neq [OF assms(2)] by auto
  ultimately show ?thesis unfolding coalesced_def by fast
qed

text \<open>The counters outside the free lists do not matter for \<open>zone_ok\<close>.\<close>

definition same_zone :: "zone \<Rightarrow> zone \<Rightarrow> bool" where
  "same_zone z' z \<longleftrightarrow> zone_id z' = zone_id z \<and> zone_start_pfn z' = zone_start_pfn z \<and>
     spanned_pages z' = spanned_pages z \<and> free_list z' = free_list z \<and> nr_free z' = nr_free z \<and>
     mem_map z' = mem_map z \<and> pageblock_flags z' = pageblock_flags z \<and> mobility_disabled z' = mobility_disabled z"

lemma same_zone_eq:
  assumes "same_zone z' z"
  shows "free_blocks z' = free_blocks z" "zone_span z' = zone_span z" "free_set z' = free_set z"
    "zone_ok z' = zone_ok z" "freeing z' p k = freeing z p k"
proof -
  show s: "free_blocks z' = free_blocks z" "zone_span z' = zone_span z"
    using assms by (simp_all add: same_zone_def free_blocks_def zone_span_def)
  then show f: "free_set z' = free_set z" by (simp add: free_set_def)
  have "lists_ok z' = lists_ok z" "head_ok z' = head_ok z"
    "get_pageblock_migratetype z' = get_pageblock_migratetype z" "PageBuddy z' = PageBuddy z"
    using assms get_pageblock_migratetype_cong [of z' z]
    by (auto simp: same_zone_def lists_ok_def head_ok_def s PageBuddy_def fun_eq_iff)
  then show o: "zone_ok z' = zone_ok z" using assms by (simp add: zone_ok_def s same_zone_def)
  show "freeing z' p k = freeing z p k" using assms by (simp add: freeing_def o s f same_zone_def)
qed

lemma free_one_page_merge_ok:
  assumes z: "zone_inv z" and mt: "mt < MIGRATE_TYPES" and k: "k < MAX_ORDER" "2 ^ k dvd p" "blk p k \<subseteq> zone_span z"
    and clean: "\<forall>q\<in>blk p k. page_clean (mem_map z q)" and free: "blk p k \<inter> free_set z = {}"
  shows "\<exists>z'. free_one_page_merge p k mt z = Some z' \<and> zone_inv z' \<and> free_set z' = free_set z \<union> blk p k \<and>
    frame (free_set z \<union> blk p k) z z' \<and> zone_span z' = zone_span z"
proof -
  let ?z = "z\<lparr>NR_FREE_PAGES := NR_FREE_PAGES z + 2 ^ k\<rparr>"
  have "same_zone ?z z" by (simp add: same_zone_def)
  note same = same_zone_eq [OF this]
  have "freeing ?z p k" unfolding same(5) using z k clean free by (simp add: freeing_def zone_inv_def)
  from merge_buddies_ok [OF this refl] obtain z1 p' k' where
    run: "merge_buddies ?z p (p mod 2 ^ MAX_ORDER) k = Some (z1, p', k')" and f: "freeing z1 p' k'"
    and fs: "free_set z1 \<union> blk p' k' = free_set z \<union> blk p k"
    and nb: "k' < MAX_ORDER - 1 \<longrightarrow> (buddy_of p' k', k') \<notin> free_blocks z1"
    and nr: "NR_FREE_PAGES z1 = NR_FREE_PAGES z + 2 ^ k" and fr: "frame (free_set z) ?z z1"
    and sp: "zone_span z1 = zone_span z" by (auto simp: same)
  let ?z' = "add_block p' k' mt z1"
  have f': "zone_ok z1" "k' < MAX_ORDER" "2 ^ k' dvd p'" "blk p' k' \<subseteq> zone_span z1"
    "\<forall>q\<in>blk p' k'. page_clean (mem_map z1 q)" "blk p' k' \<inter> free_set z1 = {}" "coalesced (free_blocks z1)"
    using f by (auto simp: freeing_def)
  note add = block_added [OF f'(1-4) mt f'(5,6)]
  have fs': "free_set ?z' = free_set z \<union> blk p k"
    using fs by (auto simp: free_set_def add(2))
  have "card (free_set z \<union> blk p k) = card (free_set z) + 2 ^ k"
    using free z by (subst card_Un_disjoint) (auto simp: zone_inv_def finite_free_set)
  then have "NR_FREE_PAGES ?z' = int (card (free_set ?z'))"
    using z nr by (simp add: fs' zone_inv_def)
  moreover have "coalesced (free_blocks ?z')"
    unfolding add(2) using f' nb zone_okD(3) [OF f'(1)] head_okD(2) by (intro coalesced_insert) blast+
  ultimately have "zone_inv ?z'" using add(1) by (simp add: zone_inv_def)
  moreover have "free_one_page_merge p k mt z = Some ?z'"
    using run by (simp add: free_one_page_merge_def add_block_def Let_def take_bit_eq_mod flip: take_bit_eq_mask)
  moreover have "frame (free_set z \<union> blk p k) z ?z'"
  proof (rule frame_trans)
    show "frame (free_set z \<union> blk p k) z z1" using fr by (auto simp: frame_def)
    have "p' \<in> free_set z \<union> blk p k" using fs blk_head by blast
    then show "frame (free_set z \<union> blk p k) z1 ?z'" using frame_add_block by (blast intro: frame_mono)
  qed
  ultimately show ?thesis using fs' sp by auto
qed

section \<open>Splitting and allocating\<close>

text \<open>\<open>expand\<close> frees the upper half of what is left of the block, again and again.\<close>

lemma expand_step:
  "low < high \<Longrightarrow> expand p low high mt z = expand p low (high - 1) mt (add_block (p + 2 ^ (high - 1)) (high - 1) mt z)"
  by (subst expand.simps) (auto simp: add_block_def zone_op_defs intro!: arg_cong [where f = "expand p low (high - Suc 0) mt"])

lemma upper_half:
  assumes "2 ^ Suc k dvd p"
  shows "blk p (Suc k) = blk p k \<union> blk (p + 2 ^ k) k" "blk p k \<inter> blk (p + 2 ^ k) k = {}"
    "2 ^ k dvd p" "2 ^ k dvd p + 2 ^ k" "buddy_of (p + 2 ^ k) k = p" "buddy_of p k = p + 2 ^ k"
proof -
  show al: "2 ^ k dvd p" using assms by (rule power_le_dvd) simp
  then show "2 ^ k dvd p + 2 ^ k" by simp
  have b: "\<not> bit p k" using aligned_bit [OF al] assms by simp
  then show bp: "buddy_of p k = p + 2 ^ k" by (simp add: buddy_of_def)
  then show "buddy_of (p + 2 ^ k) k = p" using buddy_buddy [OF al] by simp
  show "blk p (Suc k) = blk p k \<union> blk (p + 2 ^ k) k" by (auto simp: blk_def)
  show "blk p k \<inter> blk (p + 2 ^ k) k = {}" by (auto simp: blk_def)
qed

lemma expand_frame: "frame (blk p high) z (expand p low high mt z)"
proof (induction "high - low" arbitrary: high z)
  case 0
  then show ?case by (simp add: expand.simps)
next
  case (Suc n)
  then obtain k where k: "high = Suc k" "n = k - low" "low \<le> k" by (cases high) auto
  have "frame (blk p high) z (add_block (p + 2 ^ k) k mt z)"
    by (rule frame_mono [OF frame_add_block]) (simp add: k blk_def)
  moreover have "frame (blk p high) (add_block (p + 2 ^ k) k mt z) (expand p low k mt (add_block (p + 2 ^ k) k mt z))"
    using Suc.hyps(1) [OF k(2)] by (rule frame_mono) (auto simp: k blk_def)
  ultimately show ?case using frame_trans expand_step [of low high p mt z] k by simp
qed

lemma expand_ok:
  assumes "freeing z p high" "low \<le> high" "mt < MIGRATE_TYPES"
    "\<And>j. (p, j) \<notin> free_blocks z"
  shows "freeing (expand p low high mt z) p low \<and>
    free_set (expand p low high mt z) \<union> blk p low = free_set z \<union> blk p high \<and>
    NR_FREE_PAGES (expand p low high mt z) = NR_FREE_PAGES z \<and>
    mem_map (expand p low high mt z) p = mem_map z p \<and> zone_span (expand p low high mt z) = zone_span z"
  using assms
proof (induction "high - low" arbitrary: high z)
  case 0
  then have "expand p low high mt z = z" "high = low" by (auto simp: expand.simps)
  with 0 show ?case by simp
next
  case (Suc n)
  then obtain k where k: "high = Suc k" "low \<le> k" "n = k - low" by (cases high) auto
  let ?q = "p + 2 ^ k" and ?z = "add_block (p + 2 ^ k) k mt z"
  have f: "zone_ok z" "coalesced (free_blocks z)" "Suc k < MAX_ORDER" "2 ^ Suc k dvd p" "blk p (Suc k) \<subseteq> zone_span z"
    "\<forall>q\<in>blk p (Suc k). page_clean (mem_map z q)" "blk p (Suc k) \<inter> free_set z = {}"
    using Suc.prems(1) by (auto simp: freeing_def k)
  note up = upper_half [OF f(4)]
  have add: "zone_ok ?z" "free_blocks ?z = insert (?q, k) (free_blocks z)"
    using block_added [of z k ?q mt] f up Suc.prems(3) by auto
  have fs: "free_set ?z = free_set z \<union> blk ?q k" by (auto simp: free_set_def add(2))
  have al: "\<And>q j. (q, j) \<in> free_blocks z \<Longrightarrow> 2 ^ j dvd q" using zone_okD(3) [OF f(1)] head_okD(2) by blast
  have "coalesced (free_blocks ?z)"
    unfolding add(2) using f(2) up(4) Suc.prems(4) al by (intro coalesced_insert) (auto simp: up(5))
  moreover have "page_clean (mem_map ?z q)" if "q \<in> blk p k" for q
    using f(6) that up(1,2) by (auto simp: page_clean_def)
  ultimately have "freeing ?z p k"
    using f up add by (auto simp: freeing_def fs)
  moreover have "\<And>j. (p, j) \<notin> free_blocks ?z" using Suc.prems(4) by (auto simp: add(2))
  ultimately have IH: "freeing (expand p low k mt ?z) p low \<and>
      free_set (expand p low k mt ?z) \<union> blk p low = free_set ?z \<union> blk p k \<and>
      NR_FREE_PAGES (expand p low k mt ?z) = NR_FREE_PAGES ?z \<and>
      mem_map (expand p low k mt ?z) p = mem_map ?z p \<and> zone_span (expand p low k mt ?z) = zone_span ?z"
    using Suc.hyps(1) [of k ?z] k Suc.prems(3) by simp
  have "expand p low high mt z = expand p low k mt ?z" using expand_step [of low high p mt z] k by simp
  moreover have "free_set ?z \<union> blk p k = free_set z \<union> blk p high" unfolding fs k(1) up(1) by blast
  ultimately show ?case using IH by simp
qed

definition alloc_ok :: "zone \<Rightarrow> nat \<Rightarrow> nat \<Rightarrow> zone \<Rightarrow> bool" where
  "alloc_ok z ord p z' \<longleftrightarrow> zone_inv z' \<and> 2 ^ ord dvd p \<and> blk p ord \<subseteq> free_set z \<and>
     free_set z' = free_set z - blk p ord \<and> zone_span z' = zone_span z \<and> frame (free_set z) z z' \<and>
     (\<forall>q\<in>blk p ord. page_clean (mem_map z' q) \<and> \<not> PageBuddy z' q)"

lemma expand_alloc_ok:
  assumes f: "freeing z1 p k" and ord: "ord \<le> k" and mt: "mt < MIGRATE_TYPES"
    and new: "\<And>j. (p, j) \<notin> free_blocks z1" and fs: "free_set z1 \<union> blk p k = free_set z"
    and nr: "NR_FREE_PAGES z1 = int (card (free_set z)) - 2 ^ ord" and span: "zone_span z1 = zone_span z"
    and fin: "finite (free_set z)" and fr: "frame (free_set z) z z1"
  shows "alloc_ok z ord p (expand p ord k mt z1)"
proof -
  let ?z = "expand p ord k mt z1"
  note e = expand_ok [OF f ord mt new]
  have f': "zone_ok ?z" "coalesced (free_blocks ?z)" "2 ^ ord dvd p" "blk p ord \<subseteq> zone_span ?z"
    "\<forall>q\<in>blk p ord. page_clean (mem_map ?z q)" "blk p ord \<inter> free_set ?z = {}"
    using e by (auto simp: freeing_def)
  have u: "free_set ?z \<union> blk p ord = free_set z" using e fs by simp
  then have sub: "blk p ord \<subseteq> free_set z" and fz: "free_set ?z = free_set z - blk p ord" using f'(6) by auto
  have "card (free_set ?z) = card (free_set z) - 2 ^ ord" "2 ^ ord \<le> card (free_set z)"
    using card_Diff_subset [of "blk p ord" "free_set z"] card_mono [OF fin sub] sub by (simp_all add: fz)
  then have "NR_FREE_PAGES ?z = int (card (free_set ?z))"
    using e nr by (simp add: of_nat_diff)
  moreover have "\<not> PageBuddy ?z q" if "q \<in> blk p ord" for q
  proof
    assume "PageBuddy ?z q"
    then have "(q, page_private (mem_map ?z q)) \<in> free_blocks ?z" using zone_okD(4) [OF f'(1)] f'(4) that by blast
    then have "q \<in> free_set ?z" using pages_of_mem blk_head unfolding free_set_def by blast
    then show False using f'(6) that by blast
  qed
  moreover have "frame (free_set z) z ?z"
    using fs by (intro frame_trans [OF fr] frame_mono [OF expand_frame]) auto
  ultimately show ?thesis
    unfolding alloc_ok_def zone_inv_def using f' sub fz e span by auto
qed

lemma removed_freeing:
  assumes z: "zone_inv z" and p: "(p, k) \<in> free_blocks z"
  defines "z1 \<equiv> remove_block p k z"
  shows "freeing z1 p k" "(p, j) \<notin> free_blocks z1" "free_set z1 \<union> blk p k = free_set z"
proof -
  have ok: "zone_ok z" using z by (simp add: zone_inv_def)
  note rem = block_removed [OF ok p, folded z1_def]
  note h = zone_okD(3) [OF ok p]
  have fs: "free_set z1 = free_set z - blk p k"
    unfolding free_set_def rem(2) by (rule pages_of_remove [OF zone_okD(5) [OF ok] p])
  have "blk p k \<subseteq> free_set z" using pages_of_mem [OF p] by (simp add: free_set_def)
  then show "free_set z1 \<union> blk p k = free_set z" unfolding fs by blast
  show "(p, j) \<notin> free_blocks z1" using free_block_order [OF ok p] by (auto simp: rem(2))
  have "page_clean (mem_map z1 q)" if "q \<in> blk p k" for q
    using head_okD(6) [OF h that] by (auto simp: z1_def page_clean_def)
  moreover have "coalesced (free_blocks z1)"
    using z coalesced_subset [of "free_blocks z"] by (auto simp: zone_inv_def rem(2))
  ultimately show "freeing z1 p k"
    using rem(1) head_okD(1-3) [OF h] by (auto simp: freeing_def z1_def fs [unfolded z1_def])
qed

lemma freeing_NR: "freeing (z\<lparr>NR_FREE_PAGES := n\<rparr>) p k = freeing z p k"
  "free_blocks (z\<lparr>NR_FREE_PAGES := n\<rparr>) = free_blocks z" "free_set (z\<lparr>NR_FREE_PAGES := n\<rparr>) = free_set z"
  "zone_span (z\<lparr>NR_FREE_PAGES := n\<rparr>) = zone_span z"
  using same_zone_eq [of "z\<lparr>NR_FREE_PAGES := n\<rparr>" z] by (simp_all add: same_zone_def)

lemma rmqueue_smallest_from_ok:
  assumes z: "zone_inv z" and mt: "mt < MIGRATE_TYPES" and "\<forall>k\<in>set ks. ord \<le> k"
  shows "case rmqueue_smallest_from ord ks mt z of
      (Some p, z') \<Rightarrow> alloc_ok z ord p z'
    | (None, z') \<Rightarrow> z' = z \<and> (\<forall>k\<in>set ks. free_list z k mt = [])"
  using assms(3)
proof (induction ks)
  case (Cons k ks)
  show ?case
  proof (cases "free_list z k mt")
    case Nil
    with Cons show ?thesis by (auto split: prod.splits option.splits)
  next
    case (Cons p ps)
    then have p: "(p, k) \<in> free_blocks z" by (auto simp: free_blocks_def intro!: exI [of _ mt])
    note r = removed_freeing [OF z p]
    let ?z1 = "remove_block p k z"
    let ?z2 = "?z1\<lparr>NR_FREE_PAGES := NR_FREE_PAGES ?z1 - 2 ^ ord\<rparr>"
    have eq: "add_nr_free k (-1) (rmv_page_order p (list_del_lru p z)) = ?z1"
      by (simp add: remove_block_def zone_op_defs)
    have "p \<in> free_set z" using pages_of_mem [OF p] blk_head unfolding free_set_def by blast
    then have "frame (free_set z) z ?z2" using frame_remove_block [of p z k] by (auto simp: frame_def)
    then have "alloc_ok z ord p (expand p ord k mt ?z2)"
      using r z \<open>\<forall>k\<in>set (k # ks). ord \<le> k\<close> mt finite_free_set [of z]
      by (intro expand_alloc_ok) (auto simp: freeing_NR zone_inv_def)
    then show ?thesis using Cons by (simp add: eq Let_def)
  qed
qed simp

lemma rmqueue_smallest_ok:
  assumes "zone_inv z" "mt < MIGRATE_TYPES"
  shows "case rmqueue_smallest ord mt z of
      (Some p, z') \<Rightarrow> alloc_ok z ord p z'
    | (None, z') \<Rightarrow> z' = z \<and> (\<forall>k\<in>{ord..<MAX_ORDER}. free_list z k mt = [])"
  using rmqueue_smallest_from_ok [OF assms, of "[ord..<MAX_ORDER]" ord] by (simp add: rmqueue_smallest_def split: prod.splits option.splits)

section \<open>The fallback to other migrate types\<close>

text \<open>Moving a free page to another list of its order is removing the block and adding it again.\<close>

lemma relist_eq:
  assumes "PageBuddy z p" "page_private (mem_map z p) = k"
  shows "list_add_lru p k mt (list_del_lru p z) = add_block p k mt (remove_block p k z)"
proof -
  have "(mem_map z p)\<lparr>page_private := k, flags := insert PG_buddy (flags (mem_map z p))\<rparr> = mem_map z p"
    using assms by (cases "mem_map z p") (auto simp: PageBuddy_def)
  then show ?thesis
    by (simp add: add_block_def remove_block_def zone_op_defs fun_upd_idem insert_absorb)
qed

definition relisted :: "zone \<Rightarrow> zone \<Rightarrow> bool" where
  "relisted z' z \<longleftrightarrow> zone_ok z' \<and> free_blocks z' = free_blocks z \<and> mem_map z' = mem_map z \<and> nr_free z' = nr_free z \<and>
     NR_FREE_PAGES z' = NR_FREE_PAGES z \<and> zone_span z' = zone_span z \<and> frame {} z z'"

lemma relist_ok:
  assumes z: "zone_ok z" and p: "PageBuddy z p" "p \<in> zone_span z" and mt: "mt < MIGRATE_TYPES"
  shows "relisted (list_add_lru p (page_private (mem_map z p)) mt (list_del_lru p z)) z"
proof -
  let ?k = "page_private (mem_map z p)" let ?z1 = "remove_block p ?k z"
  have b: "(p, ?k) \<in> free_blocks z" using zone_okD(4) [OF z p(2,1)] .
  note rem = block_removed [OF z b]
  note h = zone_okD(3) [OF z b]
  have "free_set ?z1 = free_set z - blk p ?k"
    unfolding free_set_def rem(2) by (rule pages_of_remove [OF zone_okD(5) [OF z] b])
  moreover have "page_clean (mem_map ?z1 q)" if "q \<in> blk p ?k" for q
    using head_okD(6) [OF h that] by (auto simp: page_clean_def)
  ultimately have add: "zone_ok (add_block p ?k mt ?z1)" "free_blocks (add_block p ?k mt ?z1) = free_blocks z"
    using block_added [of ?z1 ?k p mt] rem head_okD(1-3) [OF h] mt b by (auto simp: insert_absorb)
  show ?thesis
    using add unfolding relisted_def relist_eq [OF p(1) refl, symmetric]
    by (simp add: list_add_lru_def list_del_lru_def zone_span_def frame_def)
qed

lemma relisted_trans: "relisted a b \<Longrightarrow> relisted b c \<Longrightarrow> relisted a c"
  by (auto simp: relisted_def intro: frame_trans)

lemma move_freepages_loop_ok:
  assumes "zone_ok z" "{p..e} \<subseteq> zone_span z" "mt < MIGRATE_TYPES"
  shows "relisted (snd (move_freepages_loop p e mt moved z)) z"
  using assms
proof (induction p e mt moved z rule: move_freepages_loop.induct)
  case (1 p e mt moved z)
  consider "e < p" | "p \<le> e" "\<not> PageBuddy z p" | "p \<le> e" "PageBuddy z p" by linarith
  then show ?case
  proof cases
    case 1
    then show ?thesis using "1.prems"(1) by (subst move_freepages_loop.simps) (simp add: relisted_def)
  next
    case 2
    then have "relisted (snd (move_freepages_loop (p + 1) e mt moved z)) z"
      using "1.prems" by (intro "1.IH"(1)) auto
    with 2 show ?thesis by (subst move_freepages_loop.simps) simp
  next
    case 3
    let ?k = "page_private (mem_map z p)" let ?z = "list_add_lru p ?k mt (list_del_lru p z)"
    have r: "relisted ?z z" using 3 "1.prems" by (intro relist_ok) auto
    then have "relisted (snd (move_freepages_loop (p + 2 ^ ?k) e mt (moved + 2 ^ ?k) ?z)) ?z"
      using 3 "1.prems" by (intro "1.IH"(2)) (auto simp: relisted_def)
    with r have "relisted (snd (move_freepages_loop (p + 2 ^ ?k) e mt (moved + 2 ^ ?k) ?z)) z"
      by (rule relisted_trans [rotated])
    with 3 show ?thesis by (subst move_freepages_loop.simps) (simp add: Let_def)
  qed
qed

lemma nr_free_commute:
  "list_add_lru p k mt (list_del_lru p (z\<lparr>nr_free := f\<rparr>)) = (list_add_lru p k mt (list_del_lru p z))\<lparr>nr_free := f\<rparr>"
  by (simp add: list_add_lru_def list_del_lru_def)

lemma move_freepages_loop_nr_free:
  "move_freepages_loop p e mt moved (z\<lparr>nr_free := f\<rparr>) = map_prod (\<lambda>n. n) (nr_free_update (\<lambda>_. f)) (move_freepages_loop p e mt moved z)"
proof (induction p e mt moved z rule: move_freepages_loop.induct)
  case (1 p e mt moved z)
  consider "e < p" | "p \<le> e" "\<not> PageBuddy z p" | "p \<le> e" "PageBuddy z p" by linarith
  then show ?case
  proof cases
    case 1
    then show ?thesis by (subst (1 2) move_freepages_loop.simps) simp
  next
    case 2
    then show ?thesis
      using "1.IH"(1) by (subst (1 2) move_freepages_loop.simps) (simp add: PageBuddy_def)
  next
    case 3
    then show ?thesis
      using "1.IH"(2) [OF _ _ refl]
      by (subst (1 2) move_freepages_loop.simps) (simp add: PageBuddy_def Let_def nr_free_commute)
  qed
qed

lemma range_ends: "a \<le> b \<Longrightarrow> {a..b} \<subseteq> S \<Longrightarrow> a \<in> S \<and> b \<in> (S :: nat set)"
  by auto

lemma move_freepages_block_ok:
  assumes z: "zone_ok z" and p: "p \<in> zone_span z" and mt: "mt < MIGRATE_TYPES"
  shows "\<exists>n z'. move_freepages_block p mt (z\<lparr>nr_free := f\<rparr>) = Some (n, z'\<lparr>nr_free := f\<rparr>) \<and> relisted z' z"
proof -
  define s where "s = p - p mod pageblock_nr_pages"
  define e where "e = s + pageblock_nr_pages - 1"
  define st where "st = (if s < zone_start_pfn z then p else s)"
  have run: "move_freepages_block p mt (z\<lparr>nr_free := f\<rparr>) =
      (if e \<ge> zone_start_pfn z + spanned_pages z then Some (0, z\<lparr>nr_free := f\<rparr>)
       else if pg_zone (mem_map z st) \<noteq> pg_zone (mem_map z e) then None
       else Some (map_prod (\<lambda>n. n) (nr_free_update (\<lambda>_. f)) (move_freepages_loop st e mt 0 z)))"
    by (simp add: move_freepages_block_def move_freepages_def Let_def move_freepages_loop_nr_free s_def e_def st_def)
  show ?thesis
  proof (cases "e \<ge> zone_start_pfn z + spanned_pages z")
    case True
    moreover have "relisted z z" using z by (simp add: relisted_def)
    ultimately show ?thesis unfolding run by auto
  next
    case False
    have "0 < pageblock_nr_pages" by (simp add: pageblock_nr_pages_def)
    then have "p mod pageblock_nr_pages < pageblock_nr_pages" by simp
    then have "p \<le> e" "s \<le> e" "s \<le> p" by (auto simp: s_def e_def)
    then have "st \<le> e" by (simp add: st_def)
    have sub: "{st..e} \<subseteq> zone_span z"
      using False p \<open>s \<le> p\<close> by (auto simp: zone_span_def st_def split: if_splits)
    have "pg_zone (mem_map z st) = zone_id z" "pg_zone (mem_map z e) = zone_id z"
      using zone_okD(2) [OF z] range_ends [OF \<open>st \<le> e\<close> sub] by blast+
    moreover have "relisted (snd (move_freepages_loop st e mt 0 z)) z"
      by (rule move_freepages_loop_ok [OF z sub mt])
    ultimately show ?thesis
      unfolding run using False by (cases "move_freepages_loop st e mt 0 z") auto
  qed
qed

lemma take_bit_3: "take_bit 3 (fl::nat) = of_bool (bit fl 0) + 2 * of_bool (bit fl 1) + 4 * of_bool (bit fl 2)"
proof -
  have "take_bit 3 fl = (fl mod 2) + 2 * ((fl div 2) mod 2) + 4 * (fl div 2 div 2 mod 2)"
    by (simp add: numeral_3_eq_3 take_bit_Suc)
  moreover have "fl div 2 div 2 = fl div 4" by simp
  ultimately show ?thesis by (simp add: bit_iff_odd mod_2_eq_odd)
qed

lemma pageblock_get_set:
  "get_pageblock_flags_group (set_pageblock_flags_group p fl z) q =
     (if pfn_to_bitidx z q = pfn_to_bitidx z p then take_bit 3 fl else get_pageblock_flags_group z q)"
proof -
  have b: "pfn_to_bitidx (set_pageblock_flags_group p fl z) = pfn_to_bitidx z"
    by (simp add: pfn_to_bitidx_def set_pageblock_flags_group_def fun_eq_iff Let_def)
  obtain m n where m: "pfn_to_bitidx z p = m * 3" "pfn_to_bitidx z q = n * 3"
    by (simp add: pfn_to_bitidx_def NR_PAGEBLOCK_BITS_def)
  have three: "[0..<NR_PAGEBLOCK_BITS] = [0, 1, 2]" by (simp add: NR_PAGEBLOCK_BITS_def upt_rec)
  have flags: "pageblock_flags (set_pageblock_flags_group p fl z) =
      (pageblock_flags z)(m * 3 + 0 := bit fl 0, m * 3 + 1 := bit fl 1, m * 3 + 2 := bit fl 2)"
    by (simp add: set_pageblock_flags_group_def three Let_def m)
  have get: "get_pageblock_flags_group y q = of_bool (pageblock_flags y (n * 3 + 0)) +
      2 * of_bool (pageblock_flags y (n * 3 + 1)) + 4 * of_bool (pageblock_flags y (n * 3 + 2))"
    if "pfn_to_bitidx y q = n * 3" for y
    by (simp add: get_pageblock_flags_group_def three that)
  have at: "pageblock_flags (set_pageblock_flags_group p fl z) (n * 3 + i) =
      (if n = m then bit fl i else pageblock_flags z (n * 3 + i))" if "i < 3" for i
  proof -
    have "i = 0 \<or> i = 1 \<or> i = 2" using that by linarith
    moreover have "n * 3 + i = m * 3 + j \<longleftrightarrow> n = m \<and> i = j" if "j < 3" for j
      using that \<open>i < 3\<close> by presburger
    ultimately show ?thesis by (elim disjE) (simp_all only: flags fun_upd_apply, simp_all)
  qed
  show ?thesis
    by (simp only: get [OF m(2)] get [OF trans [OF fun_cong [OF b] m(2)]] at take_bit_3 m) simp
qed

lemma set_pageblock_zone_ok:
  fixes z :: zone and p :: nat
  assumes "mt < MIGRATE_TYPES"
  defines "z' \<equiv> set_pageblock_migratetype p mt z"
  shows "zone_ok z \<Longrightarrow> zone_ok z'" "free_blocks z' = free_blocks z" "zone_span z' = zone_span z"
    "free_set z' = free_set z" "mem_map z' = mem_map z" "NR_FREE_PAGES z' = NR_FREE_PAGES z"
proof -
  have f: "zone_id z' = zone_id z" "free_list z' = free_list z" "nr_free z' = nr_free z"
    "mobility_disabled z' = mobility_disabled z"
    by (simp_all add: z'_def set_pageblock_migratetype_def set_pageblock_flags_group_def Let_def)
  show s: "free_blocks z' = free_blocks z" "zone_span z' = zone_span z" "mem_map z' = mem_map z"
    "NR_FREE_PAGES z' = NR_FREE_PAGES z" "free_set z' = free_set z"
    by (simp_all add: z'_def set_pageblock_migratetype_def set_pageblock_flags_group_def Let_def free_blocks_def
        zone_span_def free_set_def)
  have eqs: "lists_ok z' = lists_ok z" "head_ok z' = head_ok z" "PageBuddy z' = PageBuddy z"
    by (auto simp: lists_ok_def head_ok_def PageBuddy_def f s fun_eq_iff)
  have mt8: "take_bit 3 mt = mt" using assms(1) by (intro take_bit_nat_eq_self) (simp add: MIGRATE_TYPES_def)
  assume z: "zone_ok z"
  have "get_pageblock_migratetype z' q < MIGRATE_TYPES" for q
  proof (cases "mobility_disabled z")
    case False
    then have "get_pageblock_flags_group z q < MIGRATE_TYPES" using zone_okD(6) [OF z, of q]
      by (simp add: get_pageblock_migratetype_def)
    moreover have "get_pageblock_flags_group z' q \<in> {mt, get_pageblock_flags_group z q}"
      by (simp add: z'_def set_pageblock_migratetype_def pageblock_get_set mt8)
    ultimately show ?thesis using False assms(1) by (auto simp: get_pageblock_migratetype_def f)
  qed (simp add: get_pageblock_migratetype_def f MIGRATE_UNMOVABLE_def MIGRATE_TYPES_def)
  with z show "zone_ok z'" by (simp add: zone_ok_def eqs s f)
qed

lemma set_pageblock_freeing:
  assumes "mt < MIGRATE_TYPES"
  shows "freeing z p k \<Longrightarrow> freeing (set_pageblock_migratetype q mt z) p k"
  using set_pageblock_zone_ok [OF assms, where z = z and p = q] by (simp add: freeing_def)

lemma remove_nr_free:
  "rmv_page_order p (list_del_lru p (z\<lparr>nr_free := (nr_free z)(k := nr_free z k - 1)\<rparr>)) = remove_block p k z"
  by (simp add: remove_block_def zone_op_defs)

lemma fallback_take_ok:
  assumes z: "zone_inv z" and p: "(p, k) \<in> free_blocks z" and ord: "ord \<le> k"
    and mt: "start < MIGRATE_TYPES" "mt0 < MIGRATE_TYPES"
  shows "\<exists>z'. fallback_take p ord start k mt0 z = Some (Some p, z') \<and> alloc_ok z ord p z'"
proof -
  define f where "f = (nr_free z)(k := nr_free z k - 1)"
  have ok: "zone_ok z" using z by (simp add: zone_inv_def)
  have "p \<in> zone_span z" using zone_okD(3) [OF ok p] head_okD(3) blk_head by blast
  from move_freepages_block_ok [OF ok this mt(1)] obtain n zm where
    mv: "move_freepages_block p start (z\<lparr>nr_free := f\<rparr>) = Some (n, zm\<lparr>nr_free := f\<rparr>)" and rl: "relisted zm z" by blast
  obtain mt zb where b: "fallback_take p ord start k mt0 z =
      (let z4 = rmv_page_order p (list_del_lru p zb);
           z5 = z4\<lparr>NR_FREE_PAGES := NR_FREE_PAGES z4 - 2 ^ ord\<rparr>;
           z6 = (if k = pageblock_order then set_pageblock_migratetype p start z5 else z5)
       in Some (Some p, expand p ord k mt z6))" "mt < MIGRATE_TYPES"
    and zb: "\<exists>y. zb = y\<lparr>nr_free := f\<rparr> \<and> relisted y z"
  proof (cases "k \<ge> drop_bit 1 pageblock_order \<or> start = MIGRATE_RECLAIMABLE")
    case True
    let ?y = "if n \<ge> 2 ^ (pageblock_order - 1) then set_pageblock_migratetype p start zm else zm"
    have "relisted ?y z"
      using rl set_pageblock_zone_ok [OF mt(1), where z = zm and p = p]
      by (auto simp: relisted_def set_pageblock_migratetype_def set_pageblock_flags_group_def Let_def frame_def)
    moreover have "set_pageblock_migratetype p start (zm\<lparr>nr_free := f\<rparr>) = (set_pageblock_migratetype p start zm)\<lparr>nr_free := f\<rparr>"
      by (simp add: set_pageblock_migratetype_def set_pageblock_flags_group_def Let_def pfn_to_bitidx_def)
    ultimately show ?thesis
      using True mv mt(1) by (intro that [of "?y\<lparr>nr_free := f\<rparr>" start])
        (auto simp: fallback_take_def add_nr_free_def f_def Let_def)
  next
    case False
    then show ?thesis
      using mt(2) ok by (intro that [of "z\<lparr>nr_free := f\<rparr>" mt0])
        (auto simp: fallback_take_def add_nr_free_def f_def Let_def relisted_def)
  qed
  from zb obtain y where y: "zb = y\<lparr>nr_free := f\<rparr>" "relisted y z" by blast
  have yz: "zone_inv y" "(p, k) \<in> free_blocks y" "free_set y = free_set z" "zone_span y = zone_span z" "f = (nr_free y)(k := nr_free y k - 1)"
    using y(2) z p by (auto simp: relisted_def zone_inv_def free_set_def f_def)
  let ?y1 = "remove_block p k y"
  note r = removed_freeing [OF yz(1,2)]
  let ?y2 = "?y1\<lparr>NR_FREE_PAGES := NR_FREE_PAGES ?y1 - 2 ^ ord\<rparr>"
  let ?y3 = "if k = pageblock_order then set_pageblock_migratetype p start ?y2 else ?y2"
  have "rmv_page_order p (list_del_lru p zb) = ?y1" unfolding y(1) yz(5) by (rule remove_nr_free)
  then have run: "fallback_take p ord start k mt0 z = Some (Some p, expand p ord k mt ?y3)"
    unfolding b(1) Let_def by simp
  note sp = set_pageblock_zone_ok [OF mt(1), where z = ?y2 and p = p]
  have "alloc_ok z ord p (expand p ord k mt ?y3)"
  proof (rule expand_alloc_ok [OF _ ord b(2)])
    have "freeing ?y2 p k" using r(1) by (simp add: freeing_NR)
    with set_pageblock_freeing [OF mt(1) this] show "freeing ?y3 p k" by (cases "k = pageblock_order") simp_all
    have "free_blocks ?y3 = free_blocks ?y1" "free_set ?y3 = free_set ?y1" "zone_span ?y3 = zone_span ?y1"
      "NR_FREE_PAGES ?y3 = NR_FREE_PAGES y - 2 ^ ord"
      using sp by (cases "k = pageblock_order"; simp add: freeing_NR)+
    then show "(p, j) \<notin> free_blocks ?y3" "free_set ?y3 \<union> blk p k = free_set z"
      "NR_FREE_PAGES ?y3 = int (card (free_set z)) - 2 ^ ord" "zone_span ?y3 = zone_span z" for j
      using r(2,3) yz by (simp_all add: zone_inv_def)
    show "finite (free_set z)" by (rule finite_free_set [OF ok])
    have "p \<in> free_set z" using pages_of_mem [OF p] blk_head unfolding free_set_def by blast
    then have "frame (free_set z) z ?y2"
      using frame_remove_block [of p y k] y(2) by (auto simp: frame_def relisted_def)
    then show "frame (free_set z) z ?y3"
      by (cases "k = pageblock_order")
        (simp_all add: frame_def set_pageblock_migratetype_def set_pageblock_flags_group_def Let_def)
  qed
  with run show ?thesis by blast
qed

text \<open>An allocation attempt ends with a block, or with the zone unchanged and some lists known empty.\<close>

definition attempt :: "zone \<Rightarrow> nat \<Rightarrow> bool \<Rightarrow> (nat option \<times> zone) option \<Rightarrow> bool" where
  "attempt z ord none res \<longleftrightarrow>
     (\<exists>p z'. res = Some (Some p, z') \<and> alloc_ok z ord p z') \<or> res = Some (None, z) \<and> none"

lemma fallback_types_ok:
  assumes z: "zone_inv z" and mts: "\<forall>mt\<in>set mts. mt < MIGRATE_TYPES" and ord: "ord \<le> k" and start: "start < MIGRATE_TYPES"
  shows "attempt z ord (\<forall>mt\<in>set mts. mt \<noteq> MIGRATE_RESERVE \<longrightarrow> free_list z k mt = [])
    (fallback_types ord start k mts z)"
  using mts
proof (induction mts)
  case (Cons mt mts)
  show ?case
  proof (cases "mt = MIGRATE_RESERVE \<or> free_list z k mt = []")
    case True
    then have "fallback_types ord start k (mt # mts) z = fallback_types ord start k mts z" by auto
    with Cons True show ?thesis by (auto simp: attempt_def)
  next
    case False
    then obtain p ps where p: "free_list z k mt = p # ps" by (cases "free_list z k mt") auto
    then have "(p, k) \<in> free_blocks z" by (auto simp: free_blocks_def intro!: exI [of _ mt])
    from fallback_take_ok [OF z this ord start, of mt] Cons.prems obtain z' where
      "fallback_take p ord start k mt z = Some (Some p, z')" "alloc_ok z ord p z'" by auto
    with False p show ?thesis by (simp add: attempt_def)
  qed
qed (simp add: attempt_def)

lemma fallbacks_types: "mt \<in> set (fallbacks m) \<Longrightarrow> mt < MIGRATE_TYPES"
  by (auto simp: fallbacks_def MIGRATE_TYPES_def MIGRATE_UNMOVABLE_def MIGRATE_RECLAIMABLE_def
      MIGRATE_MOVABLE_def MIGRATE_RESERVE_def split: if_splits)

lemma rmqueue_smallest_attempt:
  assumes "zone_inv z" "mt < MIGRATE_TYPES"
  shows "attempt z ord (\<forall>k\<in>{ord..<MAX_ORDER}. free_list z k mt = []) (Some (rmqueue_smallest ord mt z))"
  using rmqueue_smallest_ok [OF assms, of ord]
  by (cases "rmqueue_smallest ord mt z") (auto simp: attempt_def split: option.splits)

lemma fallback_orders_ok:
  assumes z: "zone_inv z" and ks: "\<forall>k\<in>set ks. ord \<le> k" and start: "start < MIGRATE_TYPES"
  shows "attempt z ord ((\<forall>k\<in>{ord..<MAX_ORDER}. free_list z k MIGRATE_RESERVE = []) \<and>
      (\<forall>k\<in>set ks. \<forall>mt\<in>set (fallbacks start). mt \<noteq> MIGRATE_RESERVE \<longrightarrow> free_list z k mt = []))
    (fallback_orders ord start ks z)"
  using ks
proof (induction ks)
  case Nil
  have "MIGRATE_RESERVE < MIGRATE_TYPES" by (simp add: MIGRATE_RESERVE_def MIGRATE_TYPES_def)
  from rmqueue_smallest_attempt [OF z this, of ord] show ?case by (simp add: attempt_def)
next
  case (Cons k ks)
  from Cons.prems have "ord \<le> k" by simp
  from fallback_types_ok [OF z _ this start, of "fallbacks start"] fallbacks_types Cons show ?case
    by (auto simp: attempt_def)
qed

text \<open>\<open>__rmqueue\<close> never reaches \<open>BUG()\<close>; it returns a free block, or there is none on the lists it may use.\<close>

lemma rmqueue_ok:
  assumes z: "zone_inv z" and mt: "mt < MIGRATE_TYPES"
  shows "attempt z ord
    (\<forall>k\<in>{ord..<MAX_ORDER}. \<forall>m\<in>{mt, MIGRATE_RESERVE} \<union> set (fallbacks mt). free_list z k m = [])
    (rmqueue ord mt z)"
proof -
  have "\<forall>k\<in>set (rev [ord..<MAX_ORDER]). ord \<le> k" by simp
  from fallback_orders_ok [OF z this mt] rmqueue_smallest_attempt [OF z mt, of ord] show ?thesis
    unfolding attempt_def rmqueue_def rmqueue_fallback_def by fastforce
qed

end
