(* ===== verification/PageAlloc.thy ===== *)
theory PageAlloc
  imports BuddyOk
begin

text \<open>
  The page allocator above the buddy lists: the per-cpu list, \<open>buffered_rmqueue\<close> and \<open>__free_pages\<close>.
  \<open>avail\<close> is the set of pages that the allocator may still give out; allocation takes an aligned
  block out of it and freeing puts the block back. Both never touch a page that is not theirs.
\<close>

section \<open>The invariant with the per-cpu list\<close>

definition pcp_page_ok :: "zone \<Rightarrow> nat \<Rightarrow> bool" where
  "pcp_page_ok z p \<longleftrightarrow> p \<in> zone_span z \<and> page_clean (mem_map z p) \<and> \<not> PageBuddy z p \<and> p \<notin> free_set z"

definition pcp_ok :: "zone \<Rightarrow> bool" where
  "pcp_ok z \<longleftrightarrow> pcp_count z = int (length (pcp_list z)) \<and> distinct (pcp_list z) \<and>
     (\<forall>p\<in>set (pcp_list z). pcp_page_ok z p) \<and> int (pcp_batch z) \<le> pcp_high z"

definition mm_inv :: "zone \<Rightarrow> bool" where
  "mm_inv z \<longleftrightarrow> zone_inv z \<and> pcp_ok z"

definition avail :: "zone \<Rightarrow> nat set" where
  "avail z = free_set z \<union> set (pcp_list z)"

definition pages_same :: "nat set \<Rightarrow> zone \<Rightarrow> zone \<Rightarrow> bool" where
  "pages_same S z z' \<longleftrightarrow> (\<forall>q. q \<notin> S \<longrightarrow> mem_map z' q = mem_map z q) \<and> zone_span z' = zone_span z \<and>
     zone_id z' = zone_id z"

lemma pages_same_refl [simp]: "pages_same S z z"
  by (simp add: pages_same_def)

lemma pages_same_trans: "pages_same S z z' \<Longrightarrow> pages_same S z' z'' \<Longrightarrow> pages_same S z z''"
  by (simp add: pages_same_def)

lemma pages_same_mono: "pages_same S z z' \<Longrightarrow> S \<subseteq> S' \<Longrightarrow> pages_same S' z z'"
  by (auto simp: pages_same_def)

lemma frame_pages_same: "frame S z z' \<Longrightarrow> zone_span z' = zone_span z \<Longrightarrow> pages_same S z z'"
  by (simp add: frame_def pages_same_def)

lemma blk_0 [simp]: "blk p 0 = {p}"
  by (auto simp: blk_def)

text \<open>The per-cpu fields and the reclaim hints do not matter for the free lists.\<close>

lemma zone_span_upd [simp]:
  "zone_span (z\<lparr>pcp_list := l\<rparr>) = zone_span z" "zone_span (z\<lparr>pcp_count := c\<rparr>) = zone_span z"
  "zone_span (z\<lparr>all_unreclaimable := b\<rparr>) = zone_span z" "zone_span (z\<lparr>pages_scanned := n\<rparr>) = zone_span z"
  by (simp_all add: zone_span_def)

lemma free_set_upd [simp]:
  "free_set (z\<lparr>pcp_list := l\<rparr>) = free_set z" "free_set (z\<lparr>pcp_count := c\<rparr>) = free_set z"
  "free_set (z\<lparr>all_unreclaimable := b\<rparr>) = free_set z" "free_set (z\<lparr>pages_scanned := n\<rparr>) = free_set z"
  by (simp_all add: free_set_def free_blocks_def)

lemma zone_inv_upd [simp]:
  "zone_inv (z\<lparr>pcp_list := l\<rparr>) = zone_inv z" "zone_inv (z\<lparr>pcp_count := c\<rparr>) = zone_inv z"
  "zone_inv (z\<lparr>all_unreclaimable := b\<rparr>) = zone_inv z" "zone_inv (z\<lparr>pages_scanned := n\<rparr>) = zone_inv z"
  using same_zone_eq [of "z\<lparr>pcp_list := l\<rparr>" z] same_zone_eq [of "z\<lparr>pcp_count := c\<rparr>" z]
    same_zone_eq [of "z\<lparr>all_unreclaimable := b\<rparr>" z] same_zone_eq [of "z\<lparr>pages_scanned := n\<rparr>" z]
  by (simp_all add: zone_inv_def same_zone_def)

lemma pcp_page_ok_upd [simp]:
  "pcp_page_ok (z\<lparr>pcp_list := l\<rparr>) p = pcp_page_ok z p" "pcp_page_ok (z\<lparr>pcp_count := c\<rparr>) p = pcp_page_ok z p"
  by (simp_all add: pcp_page_ok_def PageBuddy_def)

section \<open>Updates of pages that are in use\<close>

lemma upd_page_fields [simp]:
  "zone_id (upd_page p f z) = zone_id z" "zone_span (upd_page p f z) = zone_span z"
  "free_list (upd_page p f z) = free_list z" "nr_free (upd_page p f z) = nr_free z"
  "NR_FREE_PAGES (upd_page p f z) = NR_FREE_PAGES z" "pcp_list (upd_page p f z) = pcp_list z"
  "pcp_count (upd_page p f z) = pcp_count z" "pcp_high (upd_page p f z) = pcp_high z"
  "pcp_batch (upd_page p f z) = pcp_batch z" "mobility_disabled (upd_page p f z) = mobility_disabled z"
  "mem_map (upd_page p f z) = (mem_map z)(p := f (mem_map z p))"
  "get_pageblock_migratetype (upd_page p f z) = get_pageblock_migratetype z"
  "free_blocks (upd_page p f z) = free_blocks z" "free_set (upd_page p f z) = free_set z"
  "lists_ok (upd_page p f z) = lists_ok z"
  by (auto simp: upd_page_def zone_span_def free_blocks_def free_set_def lists_ok_def fun_eq_iff
      intro!: get_pageblock_migratetype_cong)

lemma avail_upd [simp]: "avail (upd_page p f z) = avail z"
  by (simp add: avail_def)

lemma upd_outside:
  assumes z: "zone_inv z" and p: "p \<notin> free_set z"
    and f: "pg_zone (f (mem_map z p)) = pg_zone (mem_map z p)" "PG_buddy \<notin> flags (f (mem_map z p))"
  shows "zone_inv (upd_page p f z)"
proof -
  let ?z = "upd_page p f z"
  have ok: "zone_ok z" using z by (simp add: zone_inv_def)
  have "head_ok ?z q k" if "(q, k) \<in> free_blocks z" for q k
  proof -
    have h: "head_ok z q k" using zone_okD(3) [OF ok that] .
    have "p \<notin> blk q k" using p pages_of_mem [OF that] by (auto simp: free_set_def)
    then have "mem_map ?z r = mem_map z r" if "r \<in> blk q k" for r using that by auto
    with h blk_head [of q k] show ?thesis unfolding head_ok_def PageBuddy_def by auto
  qed
  moreover have "(q, page_private (mem_map ?z q)) \<in> free_blocks z" if "q \<in> zone_span z" "PageBuddy ?z q" for q
    using that f zone_okD(4) [OF ok] by (auto simp: PageBuddy_def split: if_splits)
  moreover have "pg_zone (mem_map ?z q) = zone_id z \<longleftrightarrow> q \<in> zone_span z" for q
    using zone_okD(2) [OF ok] f by auto
  ultimately show ?thesis
    using z zone_okD(1,5,6) [OF ok] by (auto simp: zone_inv_def zone_ok_def)
qed

lemma upd_in_use:
  assumes z: "mm_inv z" and p: "p \<notin> avail z"
    and f: "pg_zone (f (mem_map z p)) = pg_zone (mem_map z p)" "PG_buddy \<notin> flags (f (mem_map z p))"
  shows "mm_inv (upd_page p f z)"
proof -
  have "zone_inv (upd_page p f z)" using z p f by (intro upd_outside) (auto simp: mm_inv_def avail_def)
  moreover have "pcp_ok (upd_page p f z)"
    using z p by (auto simp: mm_inv_def pcp_ok_def pcp_page_ok_def avail_def PageBuddy_def)
  ultimately show ?thesis by (simp add: mm_inv_def)
qed

text \<open>Pages that are not available are never marked as buddies.\<close>

lemma in_use_not_buddy:
  assumes "mm_inv z" "q \<in> zone_span z" "q \<notin> avail z"
  shows "PG_buddy \<notin> flags (mem_map z q)"
proof
  assume "PG_buddy \<in> flags (mem_map z q)"
  then have "(q, page_private (mem_map z q)) \<in> free_blocks z"
    using assms zone_okD(4) [of z q] by (simp add: mm_inv_def zone_inv_def PageBuddy_def)
  then have "q \<in> free_set z" using pages_of_mem blk_head unfolding free_set_def by blast
  then show False using assms(3) by (simp add: avail_def)
qed

lemma free_set_span: "zone_ok z \<Longrightarrow> free_set z \<subseteq> zone_span z"
  using zone_okD(3) head_okD(3) unfolding free_set_def pages_of_def by blast

section \<open>Refilling the per-cpu list\<close>

definition bulk_ok :: "zone \<Rightarrow> nat list \<Rightarrow> zone \<Rightarrow> bool" where
  "bulk_ok z ps z' \<longleftrightarrow> zone_inv z' \<and> distinct ps \<and> set ps \<subseteq> free_set z \<and> free_set z' = free_set z - set ps \<and>
     (\<forall>p\<in>set ps. page_clean (mem_map z' p) \<and> \<not> PageBuddy z' p) \<and> frame (free_set z) z z' \<and> zone_span z' = zone_span z"

lemma rmqueue_bulk_ok:
  assumes "zone_inv z" "mt < MIGRATE_TYPES"
  shows "\<exists>ps z'. rmqueue_bulk 0 n mt z = Some (ps, z') \<and> bulk_ok z ps z'"
  using assms
proof (induction n arbitrary: z)
  case 0
  then show ?case by (simp add: bulk_ok_def)
next
  case (Suc n)
  from rmqueue_ok [OF Suc.prems, of 0] consider
    (none) "rmqueue 0 mt z = Some (None, z)"
    | (some) p z1 where "rmqueue 0 mt z = Some (Some p, z1)" "alloc_ok z 0 p z1"
    unfolding attempt_def by blast
  then show ?case
  proof cases
    case none
    then show ?thesis using Suc.prems by (auto simp: bulk_ok_def)
  next
    case some
    let ?z2 = "set_page_private p mt z1"
    have a: "zone_inv z1" "p \<in> free_set z" "free_set z1 = free_set z - {p}" "zone_span z1 = zone_span z"
      "frame (free_set z) z z1" "page_clean (mem_map z1 p)" "\<not> PageBuddy z1 p"
      using some(2) by (auto simp: alloc_ok_def)
    have z2: "zone_inv ?z2" "free_set ?z2 = free_set z - {p}" "zone_span ?z2 = zone_span z"
      "page_clean (mem_map ?z2 p)" "\<not> PageBuddy ?z2 p" "frame (free_set z) z ?z2"
      using a upd_outside [of z1 p "\<lambda>g. g\<lparr>page_private := mt\<rparr>"]
      by (auto simp: set_page_private_def PageBuddy_def page_clean_def frame_def)
    from Suc.IH [OF z2(1) Suc.prems(2)] obtain ps z' where
      b: "rmqueue_bulk 0 n mt ?z2 = Some (ps, z')" "bulk_ok ?z2 ps z'" by blast
    have keep: "mem_map z' p = mem_map ?z2 p" using b(2) z2(2) by (simp add: bulk_ok_def frame_def)
    have "frame (free_set z) ?z2 z'" using b(2) z2(2) by (auto simp: bulk_ok_def intro: frame_mono)
    then have fr: "frame (free_set z) z z'" using z2(6) frame_trans by blast
    have "bulk_ok z (p # ps) z'"
      using b(2) z2 a(2) keep fr by (auto simp: bulk_ok_def PageBuddy_def)
    with some(1) b(1) show ?thesis by auto
  qed
qed

lemma pcp_refill_ok:
  assumes z: "mm_inv z" and mt: "mt < MIGRATE_TYPES"
  shows "\<exists>z'. pcp_refill mt z = Some z' \<and> mm_inv z' \<and> avail z' = avail z \<and> pages_same (avail z) z z' \<and>
    (pcp_list z \<noteq> [] \<longrightarrow> pcp_list z' \<noteq> [])"
proof -
  have zi: "zone_inv z" using z by (simp add: mm_inv_def)
  from rmqueue_bulk_ok [OF zi mt, of "pcp_batch z"] obtain ps z1 where
    r: "rmqueue_bulk 0 (pcp_batch z) mt z = Some (ps, z1)" and b: "bulk_ok z ps z1" by blast
  let ?z = "z1\<lparr>pcp_list := ps @ pcp_list z1, pcp_count := pcp_count z1 + int (length ps)\<rparr>"
  have "zone_inv ?z" using b by (simp add: bulk_ok_def)
  moreover have fr: "pcp_list z1 = pcp_list z" "pcp_count z1 = pcp_count z" "pcp_high z1 = pcp_high z"
    "pcp_batch z1 = pcp_batch z" "\<And>q. q \<notin> free_set z \<Longrightarrow> mem_map z1 q = mem_map z q" "zone_span z1 = zone_span z"
    using b by (auto simp: bulk_ok_def frame_def)
  moreover have pc: "pcp_page_ok z p" if "p \<in> set (pcp_list z)" for p
    using z that by (simp add: mm_inv_def pcp_ok_def)
  have sub: "free_set z \<subseteq> zone_span z"
    using free_set_span zi by (simp add: zone_inv_def)
  have "pcp_page_ok ?z p" if "p \<in> set (ps @ pcp_list z)" for p
    using that b pc [of p] fr(5) [of p] sub by (auto simp: pcp_page_ok_def bulk_ok_def fr(6) PageBuddy_def)
  moreover have "distinct (ps @ pcp_list z)"
    using z b by (auto simp: bulk_ok_def mm_inv_def pcp_ok_def pcp_page_ok_def)
  ultimately have "mm_inv ?z" using z by (simp add: mm_inv_def pcp_ok_def)
  moreover have "avail ?z = avail z"
    using b by (auto simp: avail_def bulk_ok_def fr(1))
  moreover have "pages_same (avail z) z ?z"
    using b fr by (auto simp: pages_same_def avail_def bulk_ok_def frame_def)
  ultimately show ?thesis using r fr by (simp add: pcp_refill_def)
qed

section \<open>Allocation\<close>

lemma allocflags_types: "allocflags_to_migratetype z g < MIGRATE_TYPES"
  by (auto simp: allocflags_to_migratetype_def MIGRATE_TYPES_def MIGRATE_UNMOVABLE_def)

definition take_ok :: "zone \<Rightarrow> nat \<Rightarrow> nat option \<Rightarrow> zone \<Rightarrow> bool" where
  "take_ok z ord r z' \<longleftrightarrow> mm_inv z' \<and> pages_same (avail z) z z' \<and>
     (case r of
        None \<Rightarrow> avail z' = avail z
      | Some p \<Rightarrow> 2 ^ ord dvd p \<and> blk p ord \<subseteq> avail z \<and> avail z' = avail z - blk p ord \<and>
          (\<forall>q\<in>blk p ord. page_clean (mem_map z' q) \<and> \<not> PageBuddy z' q))"

lemma avail_span: "mm_inv z \<Longrightarrow> avail z \<subseteq> zone_span z"
  using free_set_span [of z] by (auto simp: mm_inv_def zone_inv_def avail_def pcp_ok_def pcp_page_ok_def)

lemma rmqueue_take_ok:
  assumes z: "mm_inv z" and mt: "mt < MIGRATE_TYPES"
  shows "\<exists>r z'. rmqueue ord mt z = Some (r, z') \<and> take_ok z ord r z'"
proof -
  have zi: "zone_inv z" using z by (simp add: mm_inv_def)
  from rmqueue_ok [OF zi mt, of ord] consider
    (none) "rmqueue ord mt z = Some (None, z)"
    | (some) p z1 where "rmqueue ord mt z = Some (Some p, z1)" "alloc_ok z ord p z1"
    unfolding attempt_def by blast
  then show ?thesis
  proof cases
    case none
    then show ?thesis using z by (simp add: take_ok_def)
  next
    case some
    then have a: "zone_inv z1" "blk p ord \<subseteq> free_set z" "free_set z1 = free_set z - blk p ord"
      "zone_span z1 = zone_span z" "frame (free_set z) z z1" by (auto simp: alloc_ok_def)
    have "pcp_page_ok z1 q" if "q \<in> set (pcp_list z)" for q
      using z that a by (auto simp: mm_inv_def pcp_ok_def pcp_page_ok_def frame_def PageBuddy_def)
    then have "mm_inv z1" using z a by (simp add: mm_inv_def pcp_ok_def frame_def)
    moreover have "set (pcp_list z) \<inter> free_set z = {}"
      using z by (auto simp: mm_inv_def pcp_ok_def pcp_page_ok_def)
    moreover have "pages_same (avail z) z z1"
      using frame_pages_same [OF a(5,4)] by (rule pages_same_mono) (simp add: avail_def)
    ultimately show ?thesis using some a by (auto simp: take_ok_def alloc_ok_def avail_def frame_def)
  qed
qed

lemma pcp_take_ok:
  assumes z: "mm_inv z" and p: "p \<in> set (pcp_list z)"
  shows "take_ok z 0 (Some p) (z\<lparr>pcp_list := remove1 p (pcp_list z), pcp_count := pcp_count z - 1\<rparr>)"
proof -
  let ?z = "z\<lparr>pcp_list := remove1 p (pcp_list z), pcp_count := pcp_count z - 1\<rparr>"
  have zi: "zone_inv ?z" using z by (simp add: mm_inv_def)
  have d: "distinct (pcp_list z)" using z by (simp add: mm_inv_def pcp_ok_def)
  have "length (pcp_list z) \<noteq> 0" using p by auto
  then have len: "int (length (remove1 p (pcp_list z))) = int (length (pcp_list z)) - 1"
    using p by (simp add: length_remove1 of_nat_diff Suc_leI)
  have "pcp_ok ?z" using z d len by (auto simp: mm_inv_def pcp_ok_def)
  then have "mm_inv ?z" using zi by (simp add: mm_inv_def)
  moreover have "avail ?z = avail z - {p}"
    using z p d by (auto simp: avail_def mm_inv_def pcp_ok_def pcp_page_ok_def)
  moreover have "pages_same (avail z) z ?z" by (simp add: pages_same_def)
  moreover have "pcp_page_ok z p" using z p by (simp add: mm_inv_def pcp_ok_def)
  ultimately show ?thesis using p by (simp add: take_ok_def pcp_page_ok_def avail_def PageBuddy_def)
qed

lemma take_ok_after:
  assumes "avail z1 = avail z" "pages_same (avail z) z z1" "take_ok z1 ord r z'"
  shows "take_ok z ord r z'"
  using assms by (auto simp: take_ok_def intro: pages_same_trans split: option.splits)

lemma find_Some_in: "find P xs = Some x \<Longrightarrow> x \<in> set xs"
  by (auto simp: find_Some_iff)

lemma buffered_take_ok:
  assumes z: "mm_inv z"
  shows "\<exists>r z'. buffered_take ord g z = Some (r, z') \<and> take_ok z ord r z'"
proof (cases "ord = 0")
  case False
  then show ?thesis
    using rmqueue_take_ok [OF z allocflags_types, of ord z g] by (simp add: buffered_take_def)
next
  case True
  let ?mt = "allocflags_to_migratetype z g"
  obtain z1 where z1: "(if pcp_count z = 0 then pcp_refill ?mt z else Some z) = Some z1"
    "mm_inv z1" "avail z1 = avail z" "pages_same (avail z) z z1"
  proof (cases "pcp_count z = 0")
    case True
    then show ?thesis using that pcp_refill_ok [OF z allocflags_types, of z g] by auto
  qed (use that z in auto)
  have cnt: "pcp_count z1 = int (length (pcp_list z1))" using z1(2) by (simp add: mm_inv_def pcp_ok_def)
  show ?thesis
  proof (cases "pcp_list z1 = []")
    case True
    then have "buffered_take ord g z = Some (None, z1)"
      using z1(1) \<open>ord = 0\<close> cnt by (simp add: buffered_take_def Let_def)
    then show ?thesis using z1 by (simp add: take_ok_def)
  next
    case False
    let ?l = "if g AND GFP_COLD \<noteq> 0 then rev (pcp_list z1) else pcp_list z1"
    let ?pick = "case find (\<lambda>p. page_private (mem_map z1 p) = ?mt) ?l of Some p \<Rightarrow> Some (p, z1)
      | None \<Rightarrow> (case pcp_refill ?mt z1 of None \<Rightarrow> None | Some z2 \<Rightarrow> Some (hd (pcp_list z2), z2))"
    have "\<exists>p z2. ?pick = Some (p, z2) \<and> p \<in> set (pcp_list z2) \<and> mm_inv z2 \<and> avail z2 = avail z1 \<and>
        pages_same (avail z1) z1 z2"
    proof (cases "find (\<lambda>p. page_private (mem_map z1 p) = ?mt) ?l")
      case None
      then show ?thesis using pcp_refill_ok [OF z1(2) allocflags_types, of z g] False by auto
    next
      case (Some p)
      then have "p \<in> set ?l" by (rule find_Some_in)
      then have "p \<in> set (pcp_list z1)" by (simp split: if_splits)
      then show ?thesis using Some z1 by simp
    qed
    then obtain p z2 where p: "?pick = Some (p, z2)" "p \<in> set (pcp_list z2)" "mm_inv z2" "avail z2 = avail z1"
      "pages_same (avail z1) z1 z2" by blast
    let ?z3 = "z2\<lparr>pcp_list := remove1 p (pcp_list z2), pcp_count := pcp_count z2 - 1\<rparr>"
    have "take_ok z 0 (Some p) ?z3"
      using pcp_take_ok [OF p(3,2)] take_ok_after [OF p(4) p(5)] take_ok_after [OF z1(3,4)] by blast
    moreover have "buffered_take ord g z = Some (Some p, ?z3)"
      using z1(1) \<open>ord = 0\<close> cnt False p(1) by (simp add: buffered_take_def Let_def)
    ultimately show ?thesis using \<open>ord = 0\<close> by blast
  qed
qed

lemma blk_index: "i < 2 ^ ord \<Longrightarrow> p + i \<in> blk p ord"
  by (simp add: blk_def)

lemma fold_upd_in_use:
  assumes "mm_inv z" "\<forall>i\<in>set is. p + i \<in> zone_span z \<and> p + i \<notin> avail z"
    "\<And>g. pg_zone (f g) = pg_zone g" "\<And>g. PG_buddy \<notin> flags g \<Longrightarrow> PG_buddy \<notin> flags (f g)"
  shows "mm_inv (fold (\<lambda>i. upd_page (p + i) f) is z) \<and> avail (fold (\<lambda>i. upd_page (p + i) f) is z) = avail z \<and>
    pages_same ((+) p ` set is) z (fold (\<lambda>i. upd_page (p + i) f) is z)"
  using assms(1,2)
proof (induction "is" arbitrary: z)
  case (Cons i "is")
  have "mm_inv (upd_page (p + i) f z)"
    using Cons.prems assms(3,4) in_use_not_buddy by (intro upd_in_use) auto
  with Cons have "mm_inv (fold (\<lambda>i. upd_page (p + i) f) is (upd_page (p + i) f z)) \<and>
      avail (fold (\<lambda>i. upd_page (p + i) f) is (upd_page (p + i) f z)) = avail z \<and>
      pages_same ((+) p ` set is) (upd_page (p + i) f z) (fold (\<lambda>i. upd_page (p + i) f) is (upd_page (p + i) f z))"
    by simp
  moreover have "pages_same {p + i} z (upd_page (p + i) f z)" by (simp add: pages_same_def)
  ultimately show ?case by (auto simp: pages_same_def)
qed simp

lemma fold_upd_mem:
  "distinct is \<Longrightarrow> mem_map (fold (\<lambda>i. upd_page (p + i) f) is z) q =
   (if q \<in> (+) p ` set is then f (mem_map z q) else mem_map z q)"
  by (induction "is" arbitrary: z) auto

lemma PREP_all: "PAGE_FLAGS_CHECK_AT_PREP = UNIV"
  unfolding PAGE_FLAGS_CHECK_AT_PREP_def using pageflag.exhaust by blast

text \<open>
  What a caller must leave behind in a block it frees: one reference on the first page and none on
  the others, no mapping, and none of the flags that \<open>free_pages_check\<close> rejects
  (\<open>PG_mlocked\<close> is cleaned up by the check itself).
\<close>

definition freeable_page :: "page \<Rightarrow> bool" where
  "freeable_page g \<longleftrightarrow> page_mapcount g = 0 \<and> mapping g = None \<and> flags g \<inter> PAGE_FLAGS_CHECK_AT_FREE \<subseteq> {PG_mlocked}"

definition freeable :: "zone \<Rightarrow> nat \<Rightarrow> nat \<Rightarrow> bool" where
  "freeable z p ord \<longleftrightarrow> ord < MAX_ORDER \<and> 2 ^ ord dvd p \<and> blk p ord \<subseteq> zone_span z \<and> blk p ord \<inter> avail z = {} \<and>
     (\<forall>q\<in>blk p ord. freeable_page (mem_map z q) \<and> page_count (mem_map z q) = (if q = p then 1 else 0))"

text \<open>A clean page passes the checks of \<open>prep_new_page\<close>.\<close>

lemma prep_new_page_ok:
  assumes z: "mm_inv z" and b: "blk p ord \<inter> avail z = {}" "blk p ord \<subseteq> zone_span z"
    and c: "\<forall>q\<in>blk p ord. page_clean (mem_map z q) \<and> \<not> PageBuddy z q"
  shows "\<exists>z'. prep_new_page p ord g z = (z', False) \<and> mm_inv z' \<and> avail z' = avail z \<and>
    pages_same (blk p ord) z z' \<and>
    (\<forall>q\<in>blk p ord. freeable_page (mem_map z' q) \<and> page_count (mem_map z' q) = (if q = p then 1 else 0))"
proof -
  have p: "p \<in> blk p ord" by (rule blk_head)
  then have cl: "page_clean (mem_map z p)" "flags (mem_map z p) = {}" "p \<notin> avail z" "p \<in> zone_span z"
    using c b p by (auto simp: page_clean_def PageBuddy_def simp del: blk_head)
  let ?f = "\<lambda>g. g\<lparr>page_private := 0, page_count := 1\<rparr>" let ?z1 = "upd_page p ?f z"
  have z1: "mm_inv ?z1" by (rule upd_in_use [OF z]) (use cl in auto)
  have s1: "set_page_refcounted p (set_page_private p 0 z) = ?z1"
    by (simp add: set_page_refcounted_def set_page_private_def upd_page_def)
  show ?thesis
  proof (cases "ord \<noteq> 0 \<and> g AND GFP_COMP \<noteq> 0")
    case False
    have "pages_same (blk p ord) z ?z1" using p by (auto simp: pages_same_def)
    moreover have "\<forall>q\<in>blk p ord. freeable_page (mem_map ?z1 q) \<and> page_count (mem_map ?z1 q) = (if q = p then 1 else 0)"
      using c by (auto simp: page_clean_def freeable_page_def PageBuddy_def)
    ultimately show ?thesis using False z1 cl by (auto simp: prep_new_page_def page_clean_def Let_def s1)
  next
    case True
    let ?h = "\<lambda>g. g\<lparr>compound_ord := ord, flags := insert PG_head (flags g)\<rparr>" let ?z2 = "upd_page p ?h ?z1"
    let ?t = "\<lambda>g. g\<lparr>flags := insert PG_tail (flags g), first_page := p\<rparr>"
    have z2: "mm_inv ?z2" by (rule upd_in_use [OF z1]) (use cl in auto)
    have "\<forall>i\<in>set [1..<2 ^ ord]. p + i \<in> zone_span ?z2 \<and> p + i \<notin> avail ?z2"
      using b blk_index [of _ ord p] by (fastforce simp: disjoint_iff)
    note t = fold_upd_in_use [OF z2 this, of ?t]
    have sub: "(+) p ` set [1..<2 ^ ord] \<subseteq> blk p ord" "p \<notin> (+) p ` set [1..<2 ^ ord]" by (auto simp: blk_def)
    have run: "prep_new_page p ord g z = (prep_compound_page p ord ?z1, False)"
      using True cl by (simp add: prep_new_page_def page_clean_def Let_def s1)
    have pc: "prep_compound_page p ord ?z1 = fold (\<lambda>i. upd_page (p + i) ?t) [1..<2 ^ ord] ?z2"
      by (simp add: prep_compound_page_def)
    have "pages_same (blk p ord) z ?z2" using p by (auto simp: pages_same_def)
    moreover have "pages_same (blk p ord) ?z2 (prep_compound_page p ord ?z1)"
      unfolding pc by (rule pages_same_mono [OF _ sub(1)]) (use t in simp)
    moreover have "\<forall>q\<in>blk p ord. freeable_page (mem_map (prep_compound_page p ord ?z1) q) \<and>
        page_count (mem_map (prep_compound_page p ord ?z1) q) = (if q = p then 1 else 0)"
      unfolding pc using c sub(2)
      by (auto simp: fold_upd_mem page_clean_def freeable_page_def PageBuddy_def PAGE_FLAGS_CHECK_AT_FREE_def)
    ultimately show ?thesis
      unfolding run using t by (auto simp: pc intro: pages_same_trans)
  qed
qed

definition alloc_result :: "zone \<Rightarrow> nat \<Rightarrow> nat option \<Rightarrow> zone \<Rightarrow> bool" where
  "alloc_result z ord r z' \<longleftrightarrow> mm_inv z' \<and> pages_same (avail z) z z' \<and>
     (case r of
        None \<Rightarrow> avail z' = avail z
      | Some p \<Rightarrow> 2 ^ ord dvd p \<and> blk p ord \<subseteq> avail z \<and> avail z' = avail z - blk p ord \<and>
          (\<forall>q\<in>blk p ord. freeable_page (mem_map z' q) \<and> page_count (mem_map z' q) = (if q = p then 1 else 0)))"

lemma buffered_rmqueue_ok:
  assumes z: "mm_inv z"
  shows "\<exists>r z'. buffered_rmqueue ord g z = Some (r, z') \<and> alloc_result z ord r z'"
proof -
  obtain r z1 where t: "buffered_take ord g z = Some (r, z1)" "take_ok z ord r z1"
    using buffered_take_ok [OF z] by blast
  show ?thesis
  proof (cases r)
    case None
    then show ?thesis
      using t by (subst buffered_rmqueue.simps) (auto simp: take_ok_def alloc_result_def)
  next
    case (Some p)
    then have a: "mm_inv z1" "pages_same (avail z) z z1" "2 ^ ord dvd p" "blk p ord \<subseteq> avail z"
      "avail z1 = avail z - blk p ord" "\<forall>q\<in>blk p ord. page_clean (mem_map z1 q) \<and> \<not> PageBuddy z1 q"
      using t by (auto simp: take_ok_def)
    have "blk p ord \<subseteq> zone_span z1" "blk p ord \<inter> avail z1 = {}"
      using a avail_span [OF z] by (auto simp: pages_same_def)
    from prep_new_page_ok [OF a(1) this(2,1) a(6), of g] obtain z2 where
      n: "prep_new_page p ord g z1 = (z2, False)" "mm_inv z2" "avail z2 = avail z1"
      "pages_same (blk p ord) z1 z2" "\<forall>q\<in>blk p ord. freeable_page (mem_map z2 q) \<and> page_count (mem_map z2 q) = (if q = p then 1 else 0)" by blast
    have "pages_same (avail z) z z2" using a(2,4) n(4) by (blast intro: pages_same_trans pages_same_mono)
    with a n t(1) Some show ?thesis
      by (subst buffered_rmqueue.simps) (auto simp: alloc_result_def)
  qed
qed

section \<open>Freeing\<close>

lemma free_pages_check_ok:
  assumes "freeable_page (mem_map z p)" "page_count (mem_map z p) = 0"
  shows "free_pages_check p z = (upd_page p (\<lambda>g. g\<lparr>flags := {}\<rparr>) z, 0)"
proof -
  let ?fs = "flags (mem_map z p) - {PG_mlocked}"
  let ?z = "upd_page p (\<lambda>g. g\<lparr>flags := flags g - {PG_mlocked}\<rparr>) z"
  have ok: "?fs \<inter> PAGE_FLAGS_CHECK_AT_FREE = {}" using assms(1) by (auto simp: freeable_page_def)
  have "free_pages_check p z =
      (if ?fs \<inter> PAGE_FLAGS_CHECK_AT_PREP \<noteq> {}
       then upd_page p (\<lambda>g. g\<lparr>flags := flags g - PAGE_FLAGS_CHECK_AT_PREP\<rparr>) ?z else ?z, 0)"
    using assms ok unfolding free_pages_check_def free_page_mlock_def Let_def
    by (simp add: freeable_page_def)
  also have "\<dots> = (upd_page p (\<lambda>g. g\<lparr>flags := {}\<rparr>) z, 0)"
  proof (cases "?fs = {}")
    case True
    then show ?thesis by (simp only: upd_page_def) simp
  qed (simp add: PREP_all upd_page_def)
  finally show ?thesis .
qed

lemma check_pages_ok:
  assumes "\<forall>i\<in>set is. freeable_page (mem_map z (p + i)) \<and> page_count (mem_map z (p + i)) = 0" "distinct is"
  shows "fold (\<lambda>i (z, bad). case free_pages_check (p + i) z of (z', b) \<Rightarrow> (z', bad + b)) is (z, 0) =
    (fold (\<lambda>i. upd_page (p + i) (\<lambda>g. g\<lparr>flags := {}\<rparr>)) is z, 0)"
  using assms
proof (induction "is" arbitrary: z)
  case (Cons i "is")
  let ?z = "upd_page (p + i) (\<lambda>g. g\<lparr>flags := {}\<rparr>) z"
  have "free_pages_check (p + i) z = (?z, 0)" using Cons.prems(1) by (intro free_pages_check_ok) auto
  moreover have "\<forall>j\<in>set is. freeable_page (mem_map ?z (p + j)) \<and> page_count (mem_map ?z (p + j)) = 0"
    using Cons.prems by (auto simp: freeable_page_def)
  ultimately show ?case using Cons by simp
qed simp

text \<open>\<open>__free_one_page\<close> of a clean block that is in use.\<close>

lemma free_one_page_locked_ok:
  assumes z: "zone_inv z" and b: "ord < MAX_ORDER" "2 ^ ord dvd p" "blk p ord \<subseteq> zone_span z" "blk p ord \<inter> free_set z = {}"
    and c: "\<forall>q\<in>blk p ord. page_clean (mem_map z q)"
  shows "\<exists>z'. free_one_page_locked p ord z = Some z' \<and> zone_inv z' \<and> free_set z' = free_set z \<union> blk p ord \<and>
    frame (free_set z \<union> blk p ord) z z' \<and> zone_span z' = zone_span z"
proof -
  have mt: "get_pageblock_migratetype z p < MIGRATE_TYPES"
    using z zone_okD(6) by (simp add: zone_inv_def)
  have "page_clean (mem_map z p)" using c by simp
  then have "\<not> PageCompound z p" by (auto simp: PageCompound_def page_clean_def)
  then show ?thesis
    using free_one_page_merge_ok [OF z mt b(1-3) c b(4)] by (simp add: free_one_page_locked_def)
qed

lemma free_pages_bulk_loop_ok:
  assumes "zone_inv z" "distinct lst" "\<forall>p\<in>set lst. pcp_page_ok z p" "n \<le> length lst"
  shows "\<exists>z'. free_pages_bulk_loop n lst 0 z = Some (take (length lst - n) lst, z') \<and> zone_inv z' \<and>
    free_set z' = free_set z \<union> set (drop (length lst - n) lst) \<and>
    frame (free_set z \<union> set (drop (length lst - n) lst)) z z' \<and> zone_span z' = zone_span z"
  using assms
proof (induction n arbitrary: lst z)
  case (Suc n)
  then obtain xs p where l: "lst = xs @ [p]" by (metis le_zero_eq length_0_conv nat.distinct(1) rev_exhaust)
  have pp: "pcp_page_ok z p" using Suc.prems l by simp
  have "\<exists>z'. free_one_page_locked p 0 z = Some z' \<and> zone_inv z' \<and> free_set z' = free_set z \<union> blk p 0 \<and>
    frame (free_set z \<union> blk p 0) z z' \<and> zone_span z' = zone_span z"
    using Suc.prems(1) pp by (intro free_one_page_locked_ok) (auto simp: pcp_page_ok_def MAX_ORDER_def)
  then obtain z1 where z1: "free_one_page_locked p 0 z = Some z1" "zone_inv z1" "free_set z1 = insert p (free_set z)"
    "frame (insert p (free_set z)) z z1" "zone_span z1 = zone_span z" by auto
  have "\<forall>q\<in>set xs. pcp_page_ok z1 q"
    using Suc.prems l z1 by (auto simp: pcp_page_ok_def frame_def PageBuddy_def)
  then obtain z' where z': "free_pages_bulk_loop n xs 0 z1 = Some (take (length xs - n) xs, z')" "zone_inv z'"
    "free_set z' = free_set z1 \<union> set (drop (length xs - n) xs)"
    "frame (free_set z1 \<union> set (drop (length xs - n) xs)) z1 z'" "zone_span z' = zone_span z1"
    using Suc.IH [of z1 xs] Suc.prems l z1(2) by auto
  have d: "drop (length lst - Suc n) lst = drop (length xs - n) xs @ [p]"
    "take (length lst - Suc n) lst = take (length xs - n) xs" using l Suc.prems(4) by auto
  have "frame (free_set z \<union> set (drop (length lst - Suc n) lst)) z z'"
    using z1(3,4) z'(4) unfolding d by (intro frame_trans [OF frame_mono [OF z1(4)] frame_mono [OF z'(4)]]) auto
  then show ?case using z1 z' l by (auto simp: d)
qed simp

text \<open>Giving a clean block in use back to the buddy lists.\<close>

lemma free_one_page_mm_ok:
  assumes z: "mm_inv z" and b: "ord < MAX_ORDER" "2 ^ ord dvd p" "blk p ord \<subseteq> zone_span z" "blk p ord \<inter> avail z = {}"
    and c: "\<forall>q\<in>blk p ord. page_clean (mem_map z q)"
  shows "\<exists>z'. free_one_page p ord z = Some z' \<and> mm_inv z' \<and> avail z' = avail z \<union> blk p ord \<and>
    pages_same (avail z \<union> blk p ord) z z'"
proof -
  let ?z = "z\<lparr>all_unreclaimable := False, pages_scanned := 0\<rparr>"
  have zi: "zone_inv ?z" using z by (simp add: mm_inv_def)
  from free_one_page_locked_ok [OF zi b(1,2)] b(3,4) c obtain z' where
    r: "free_one_page_locked p ord ?z = Some z'" "zone_inv z'" "free_set z' = free_set z \<union> blk p ord"
    "frame (free_set z \<union> blk p ord) ?z z'" "zone_span z' = zone_span z" by (auto simp: avail_def Int_Un_distrib)
  have fr: "pcp_list z' = pcp_list z" "pcp_count z' = pcp_count z" "pcp_high z' = pcp_high z" "pcp_batch z' = pcp_batch z"
    "\<And>q. q \<notin> free_set z \<union> blk p ord \<Longrightarrow> mem_map z' q = mem_map z q" "zone_id z' = zone_id z"
    using r(4) by (auto simp: frame_def)
  have "pcp_page_ok z' q" if "q \<in> set (pcp_list z)" for q
  proof -
    have "pcp_page_ok z q" "q \<notin> blk p ord" using z b(4) that by (auto simp: mm_inv_def pcp_ok_def avail_def)
    then show ?thesis using r fr(5) [of q] by (auto simp: pcp_page_ok_def PageBuddy_def)
  qed
  then have "mm_inv z'" using z r(2) by (simp add: mm_inv_def pcp_ok_def fr)
  moreover have "avail z' = avail z \<union> blk p ord" using r(3) by (auto simp: avail_def fr)
  moreover have "pages_same (avail z \<union> blk p ord) z z'"
    using r(5) fr(5,6) by (auto simp: pages_same_def avail_def)
  ultimately show ?thesis using r(1) by (simp add: free_one_page_def)
qed

lemma free_pages_ok_ok:
  assumes z: "mm_inv z" and b: "ord < MAX_ORDER" "2 ^ ord dvd p" "blk p ord \<subseteq> zone_span z" "blk p ord \<inter> avail z = {}"
    and c: "\<forall>q\<in>blk p ord. freeable_page (mem_map z q) \<and> page_count (mem_map z q) = 0"
  shows "\<exists>z'. free_pages_ok p ord z = Some z' \<and> mm_inv z' \<and> avail z' = avail z \<union> blk p ord \<and>
    pages_same (avail z \<union> blk p ord) z z'"
proof -
  let ?f = "\<lambda>g. g\<lparr>flags := {}\<rparr>"
  define z1 where "z1 = fold (\<lambda>i. upd_page (p + i) ?f) [0..<2 ^ ord] z"
  have im: "(+) p ` set [0..<2 ^ ord] = blk p ord" by (auto simp: blk_def image_iff intro!: bexI [of _ "_ - p"])
  have "\<forall>i\<in>set [0..<2 ^ ord]. freeable_page (mem_map z (p + i)) \<and> page_count (mem_map z (p + i)) = 0"
    using c blk_index by auto
  then have chk: "check_pages p ord z = (z1, 0)" using check_pages_ok by (simp add: check_pages_def z1_def)
  have "\<forall>i\<in>set [0..<2 ^ ord]. p + i \<in> zone_span z \<and> p + i \<notin> avail z"
    using b blk_index [of _ ord p] by (fastforce simp: disjoint_iff)
  from fold_upd_in_use [OF z this, of ?f] have f: "mm_inv z1" "avail z1 = avail z" "pages_same (blk p ord) z z1"
    unfolding z1_def [symmetric] im by simp_all
  have "\<forall>q\<in>blk p ord. page_clean (mem_map z1 q)"
    using c unfolding z1_def fold_upd_mem [OF distinct_upt] im by (simp add: page_clean_def freeable_page_def)
  from free_one_page_mm_ok [OF f(1) b(1,2) _ _ this] b f obtain z' where
    r: "free_one_page p ord z1 = Some z'" "mm_inv z'" "avail z' = avail z \<union> blk p ord"
    "pages_same (avail z \<union> blk p ord) z1 z'" by (auto simp: pages_same_def)
  have "pages_same (avail z \<union> blk p ord) z z'"
    using f(3) r(4) by (blast intro: pages_same_trans pages_same_mono)
  with r chk show ?thesis by (simp add: free_pages_ok_def)
qed

text \<open>Moving pages from the per-cpu list back to the buddy lists leaves the supply as it is.\<close>

lemma pcp_shrink_ok:
  assumes z: "mm_inv z" and n: "n \<le> length (pcp_list z)"
  shows "\<exists>lst z1. free_pages_bulk n (pcp_list z) 0 z = Some (lst, z1) \<and> pcp_count z1 = pcp_count z \<and>
    pcp_batch z1 = pcp_batch z \<and> lst = take (length (pcp_list z) - n) (pcp_list z) \<and>
    mm_inv (z1\<lparr>pcp_list := lst, pcp_count := pcp_count z - int n\<rparr>) \<and>
    avail (z1\<lparr>pcp_list := lst, pcp_count := pcp_count z - int n\<rparr>) = avail z \<and> pages_same (avail z) z z1"
proof -
  let ?z = "z\<lparr>all_unreclaimable := False, pages_scanned := 0\<rparr>"
  let ?l = "take (length (pcp_list z) - n) (pcp_list z)" and ?d = "drop (length (pcp_list z) - n) (pcp_list z)"
  have zi: "zone_inv ?z" "\<forall>p\<in>set (pcp_list z). pcp_page_ok ?z p" and pcp: "pcp_ok z"
    using z by (auto simp: mm_inv_def pcp_ok_def pcp_page_ok_def PageBuddy_def)
  from free_pages_bulk_loop_ok [OF zi(1) _ zi(2) n] pcp obtain z1 where
    r: "free_pages_bulk_loop n (pcp_list z) 0 ?z = Some (?l, z1)" "zone_inv z1" "free_set z1 = free_set z \<union> set ?d"
    "frame (free_set z \<union> set ?d) ?z z1" "zone_span z1 = zone_span z" by (auto simp: pcp_ok_def)
  have fr: "pcp_count z1 = pcp_count z" "pcp_high z1 = pcp_high z" "pcp_batch z1 = pcp_batch z" "zone_id z1 = zone_id z"
    "\<And>q. q \<notin> free_set z \<union> set ?d \<Longrightarrow> mem_map z1 q = mem_map z q" using r(4) by (auto simp: frame_def)
  have split: "set (pcp_list z) = set ?l \<union> set ?d" by (metis append_take_drop_id set_append)
  have "distinct (?l @ ?d)" using pcp unfolding append_take_drop_id pcp_ok_def by blast
  then have dj: "set ?l \<inter> set ?d = {}" "distinct ?l" by (simp_all del: append_take_drop_id)
  have pg: "pcp_page_ok z1 q" if "q \<in> set ?l" for q
  proof -
    have "pcp_page_ok z q" "q \<notin> set ?d" using pcp that split dj by (auto simp: pcp_ok_def)
    then show ?thesis using r(3,5) fr(5) [of q] by (auto simp: pcp_page_ok_def PageBuddy_def)
  qed
  have "mm_inv (z1\<lparr>pcp_list := ?l, pcp_count := pcp_count z - int n\<rparr>)"
    using r(2) pg dj(2) pcp n by (simp add: mm_inv_def pcp_ok_def fr)
  moreover have "avail (z1\<lparr>pcp_list := ?l, pcp_count := pcp_count z - int n\<rparr>) = avail z"
    using r(3) split by (auto simp: avail_def)
  moreover have "pages_same (avail z) z z1" using fr(4,5) r(5) split by (auto simp: pages_same_def avail_def)
  ultimately show ?thesis using r(1) fr by (simp add: free_pages_bulk_def)
qed

lemma drain_pages_ok:
  assumes z: "mm_inv z"
  shows "\<exists>z'. drain_pages z = Some z' \<and> mm_inv z' \<and> pcp_list z' = [] \<and> free_set z' = avail z \<and> pages_same (avail z) z z'"
proof -
  have c: "pcp_count z = int (length (pcp_list z))" using z by (simp add: mm_inv_def pcp_ok_def)
  from pcp_shrink_ok [OF z order_refl] obtain z1 where
    r: "free_pages_bulk (length (pcp_list z)) (pcp_list z) 0 z = Some ([], z1)"
    "mm_inv (z1\<lparr>pcp_list := [], pcp_count := 0\<rparr>)" "avail (z1\<lparr>pcp_list := [], pcp_count := 0\<rparr>) = avail z"
    "pages_same (avail z) z z1" by (auto simp: c)
  have "pages_same (avail z) z (z1\<lparr>pcp_list := [], pcp_count := 0\<rparr>)" using r(4) by (simp add: pages_same_def)
  with r show ?thesis by (simp add: drain_pages_def c avail_def)
qed

lemma pcp_add_ok:
  assumes z: "mm_inv z" and p: "p \<in> zone_span z" "p \<notin> avail z" "page_clean (mem_map z p)" "\<not> PageBuddy z p"
  shows "mm_inv (z\<lparr>pcp_list := p # pcp_list z, pcp_count := pcp_count z + 1\<rparr>)"
  using assms by (auto simp: mm_inv_def pcp_ok_def pcp_page_ok_def avail_def PageBuddy_def)

lemma set_page_private_listed:
  "set_page_private p m ((upd_page p f z)\<lparr>pcp_list := l\<rparr>) =
   (upd_page p (\<lambda>g. (f g)\<lparr>page_private := m\<rparr>) z)\<lparr>pcp_list := l\<rparr>"
  by (cases z) (simp add: set_page_private_def upd_page_def)

lemma free_hot_cold_page_ok:
  assumes z: "mm_inv z" and p: "p \<in> zone_span z" "p \<notin> avail z"
    and c: "freeable_page (mem_map z p)" "page_count (mem_map z p) = 0"
  shows "\<exists>z'. free_hot_cold_page p False z = Some z' \<and> mm_inv z' \<and> avail z' = insert p (avail z) \<and>
    pages_same (insert p (avail z)) z z'"
proof -
  let ?z1 = "upd_page p (\<lambda>g. g\<lparr>flags := {}\<rparr>) z"
  let ?mt = "get_pageblock_migratetype (?z1\<lparr>pcp_list := p # pcp_list z\<rparr>) p"
  let ?f = "\<lambda>g. g\<lparr>flags := {}, page_private := ?mt\<rparr>"
  let ?z2 = "upd_page p ?f z"
  let ?z4 = "?z2\<lparr>pcp_list := p # pcp_list z, pcp_count := pcp_count z + 1\<rparr>"
  have m: "mapping (mem_map z p) = None" using c by (simp add: freeable_page_def)
  have z2: "mm_inv ?z2" using z p by (intro upd_in_use) auto
  have av: "avail ?z2 = avail z" by (simp add: avail_def)
  have z4: "mm_inv ?z4"
    using pcp_add_ok [OF z2, of p] p c by (simp add: av page_clean_def freeable_page_def PageBuddy_def)
  have s4: "avail ?z4 = insert p (avail z)" "pages_same (insert p (avail z)) z ?z4"
    by (auto simp: avail_def pages_same_def)
  have e: "free_hot_cold_page p False z =
    (if pcp_count z + 1 \<ge> pcp_high z
     then (case free_pages_bulk (pcp_batch z) (pcp_list ?z4) 0 ?z4 of None \<Rightarrow> None
           | Some (lst, z5) \<Rightarrow> Some (z5\<lparr>pcp_list := lst, pcp_count := pcp_count z5 - int (pcp_batch z5)\<rparr>))
     else Some ?z4)"
    by (simp add: free_hot_cold_page_def m free_pages_check_ok [OF c] Let_def set_page_private_listed)
  show ?thesis
  proof (cases "pcp_count z + 1 \<ge> pcp_high z")
    case True
    then have "pcp_batch z \<le> length (pcp_list ?z4)" using z by (simp add: mm_inv_def pcp_ok_def)
    from pcp_shrink_ok [OF z4 this] obtain lst z5 where
      r: "free_pages_bulk (pcp_batch z) (pcp_list ?z4) 0 ?z4 = Some (lst, z5)"
      "pcp_count z5 = pcp_count z + 1" "pcp_batch z5 = pcp_batch z"
      "mm_inv (z5\<lparr>pcp_list := lst, pcp_count := pcp_count z + 1 - int (pcp_batch z)\<rparr>)"
      "avail (z5\<lparr>pcp_list := lst, pcp_count := pcp_count z + 1 - int (pcp_batch z)\<rparr>) = insert p (avail z)"
      "pages_same (insert p (avail z)) ?z4 z5" unfolding s4 by auto
    from pages_same_trans [OF s4(2) r(6)]
    have "pages_same (insert p (avail z)) z (z5\<lparr>pcp_list := lst, pcp_count := pcp_count z + 1 - int (pcp_batch z)\<rparr>)"
      by (simp add: pages_same_def)
    then show ?thesis unfolding e using True r(1-5) by simp
  next
    case False
    then show ?thesis unfolding e using z4 s4 by auto
  qed
qed

lemma free_pages_freeable:
  assumes z: "mm_inv z" and fr: "freeable z p ord"
  shows "\<exists>z'. free_pages p ord z = Some z' \<and> mm_inv z' \<and> avail z' = avail z \<union> blk p ord \<and>
    pages_same (avail z \<union> blk p ord) z z'"
proof -
  let ?z1 = "upd_page p (\<lambda>g. g\<lparr>page_count := page_count g - 1\<rparr>) z"
  have f: "ord < MAX_ORDER" "2 ^ ord dvd p" "blk p ord \<subseteq> zone_span z" "blk p ord \<inter> avail z = {}"
    "\<And>q. q \<in> blk p ord \<Longrightarrow> freeable_page (mem_map z q) \<and> page_count (mem_map z q) = (if q = p then 1 else 0)"
    using fr by (auto simp: freeable_def)
  have p: "p \<in> zone_span z" "p \<notin> avail z" using f(3,4) blk_head [of p ord] by blast+
  have "mm_inv ?z1" using z p f(5) [of p] by (intro upd_in_use) (auto simp: freeable_page_def PAGE_FLAGS_CHECK_AT_FREE_def)
  moreover have av: "avail ?z1 = avail z" "zone_span ?z1 = zone_span z" by (simp_all add: avail_def)
  moreover have c: "\<forall>q\<in>blk p ord. freeable_page (mem_map ?z1 q) \<and> page_count (mem_map ?z1 q) = 0"
    using f(5) by (auto simp: freeable_page_def)
  moreover have s1: "pages_same (blk p ord) z ?z1" by (auto simp: pages_same_def)
  ultimately have "\<exists>z'. (if ord = 0 then free_hot_cold_page p False ?z1 else free_pages_ok p ord ?z1) = Some z' \<and>
      mm_inv z' \<and> avail z' = avail z \<union> blk p ord \<and> pages_same (avail z \<union> blk p ord) ?z1 z'"
    using free_hot_cold_page_ok [of ?z1 p] free_pages_ok_ok [of ?z1 ord p] f p by (cases "ord = 0") auto
  then obtain z' where r: "(if ord = 0 then free_hot_cold_page p False ?z1 else free_pages_ok p ord ?z1) = Some z'"
    "mm_inv z'" "avail z' = avail z \<union> blk p ord" "pages_same (avail z \<union> blk p ord) ?z1 z'" by blast
  have "free_pages p ord z = Some z'" using r(1) f(5) [of p] by (simp add: free_pages_def)
  moreover have "pages_same (avail z \<union> blk p ord) z z'"
    by (rule pages_same_trans [OF pages_same_mono [OF s1] r(4)]) blast
  ultimately show ?thesis using r by blast
qed

end
