(* ===== verification/PageAllocSafety.thy ===== *)
theory PageAllocSafety
  imports PageAlloc
begin

text \<open>
  The properties of the page allocator. The locale \<open>block_allocator\<close> is what a user of the
  allocator relies on; its client lemmas are about any sequence of allocations, frees and drains, and
  it is interpreted on \<open>buffered_rmqueue\<close>, \<open>__free_pages\<close> and \<open>drain_pages\<close>.
\<close>

section \<open>Clients of a block allocator\<close>

text \<open>The state of a run: the allocator's state and the blocks handed out and not given back yet.\<close>

inductive client_step ::
  "(nat \<Rightarrow> 'g \<Rightarrow> 's \<Rightarrow> (nat option \<times> 's) option) \<Rightarrow> (nat \<Rightarrow> nat \<Rightarrow> 's \<Rightarrow> 's option) \<Rightarrow> ('s \<Rightarrow> 's option) \<Rightarrow>
   's \<times> (nat \<times> nat) list \<Rightarrow> 's \<times> (nat \<times> nat) list \<Rightarrow> bool"
  for alloc release drain where
  got: "ord < MAX_ORDER \<Longrightarrow> alloc ord g s = Some (Some p, s') \<Longrightarrow>
    client_step alloc release drain (s, out) (s', (p, ord) # out)"
| failed: "ord < MAX_ORDER \<Longrightarrow> alloc ord g s = Some (None, s') \<Longrightarrow>
    client_step alloc release drain (s, out) (s', out)"
| freed: "(p, ord) \<in> set out \<Longrightarrow> release p ord s = Some s' \<Longrightarrow>
    client_step alloc release drain (s, out) (s', remove1 (p, ord) out)"
| drained: "drain s = Some s' \<Longrightarrow> client_step alloc release drain (s, out) (s', out)"

inductive_cases client_stepE: "client_step alloc release drain (s, out) (s', out')"

text \<open>No block is handed out twice, none overlaps the free memory, and no page is lost.\<close>

definition accounts_ok :: "nat set \<Rightarrow> nat set \<Rightarrow> (nat \<times> nat) list \<Rightarrow> bool" where
  "accounts_ok U free_pgs out \<longleftrightarrow> distinct out \<and> disjoint_blocks (set out) \<and>
     (\<forall>(p, k)\<in>set out. blk p k \<inter> free_pgs = {}) \<and> free_pgs \<union> pages_of (set out) = U"

lemma accounts_take:
  assumes "accounts_ok U S out" "blk p k \<subseteq> S"
  shows "accounts_ok U (S - blk p k) ((p, k) # out)"
proof -
  have d: "blk p k \<inter> pages_of (set out) = {}" using assms by (fastforce simp: accounts_ok_def pages_of_def)
  then have "disjoint_blocks (set ((p, k) # out))" using assms by (simp add: accounts_ok_def disjoint_blocks_insert)
  moreover have "(p, k) \<notin> set out" using d pages_of_mem [of p k "set out"] blk_head [of p k] by blast
  ultimately show ?thesis using assms by (auto simp: accounts_ok_def)
qed

lemma accounts_give:
  assumes "accounts_ok U S out" "(p, k) \<in> set out"
  shows "accounts_ok U (S \<union> blk p k) (remove1 (p, k) out)"
    "(q, j) \<in> set (remove1 (p, k) out) \<Longrightarrow> blk q j \<inter> blk p k = {}"
proof -
  have s: "set (remove1 (p, k) out) = set out - {(p, k)}" using assms by (simp add: accounts_ok_def)
  have d: "blk q j \<inter> blk p k = {}" if "(q, j) \<in> set (remove1 (p, k) out)" for q j
    using that assms unfolding s accounts_ok_def disjoint_blocks_def by fast
  then show "(q, j) \<in> set (remove1 (p, k) out) \<Longrightarrow> blk q j \<inter> blk p k = {}" .
  have "pages_of (set (remove1 (p, k) out)) = pages_of (set out) - blk p k"
    using assms unfolding s by (intro pages_of_remove) (auto simp: accounts_ok_def)
  moreover have "blk p k \<subseteq> pages_of (set out)" using assms(2) by (rule pages_of_mem)
  ultimately have "(S \<union> blk p k) \<union> pages_of (set (remove1 (p, k) out)) = U" using assms by (auto simp: accounts_ok_def)
  moreover have "\<forall>(q, j)\<in>set (remove1 (p, k) out). blk q j \<inter> (S \<union> blk p k) = {}"
    using assms d unfolding accounts_ok_def s by fast
  moreover have "disjoint_blocks (set (remove1 (p, k) out))"
    using assms disjoint_blocks_subset [of "set out" "set out - {(p, k)}"] unfolding accounts_ok_def s by blast
  ultimately show "accounts_ok U (S \<union> blk p k) (remove1 (p, k) out)"
    using assms by (simp add: accounts_ok_def distinct_remove1)
qed

locale block_allocator =
  fixes inv :: "'s \<Rightarrow> bool" and stock :: "'s \<Rightarrow> nat set" and held :: "'s \<Rightarrow> nat \<Rightarrow> nat \<Rightarrow> bool"
    and alloc :: "nat \<Rightarrow> 'g \<Rightarrow> 's \<Rightarrow> (nat option \<times> 's) option" and release :: "nat \<Rightarrow> nat \<Rightarrow> 's \<Rightarrow> 's option"
    and drain :: "'s \<Rightarrow> 's option"
  assumes alloc_spec: "inv s \<Longrightarrow> k < MAX_ORDER \<Longrightarrow> \<exists>r s'. alloc k g s = Some (r, s') \<and> inv s' \<and>
      (\<forall>q j. held s q j \<longrightarrow> held s' q j) \<and>
      (case r of None \<Rightarrow> stock s' = stock s
       | Some p \<Rightarrow> blk p k \<subseteq> stock s \<and> stock s' = stock s - blk p k \<and> held s' p k)"
    and release_spec: "inv s \<Longrightarrow> held s p k \<Longrightarrow> \<exists>s'. release p k s = Some s' \<and> inv s' \<and>
      stock s' = stock s \<union> blk p k \<and> (\<forall>q j. held s q j \<longrightarrow> blk q j \<inter> blk p k = {} \<longrightarrow> held s' q j)"
    and drain_spec: "inv s \<Longrightarrow> \<exists>s'. drain s = Some s' \<and> inv s' \<and> stock s' = stock s \<and>
      (\<forall>q j. held s q j \<longrightarrow> held s' q j)"
begin

definition client_ok :: "nat set \<Rightarrow> 's \<times> (nat \<times> nat) list \<Rightarrow> bool" where
  "client_ok U c \<longleftrightarrow> inv (fst c) \<and> (\<forall>(p, k)\<in>set (snd c). held (fst c) p k) \<and> accounts_ok U (stock (fst c)) (snd c)"

lemma client_step_ok:
  assumes "client_step alloc release drain c c'" "client_ok U c"
  shows "client_ok U c'"
  using assms
proof (induction rule: client_step.induct)
  case (got ord g s p s' out)
  then have "inv s'" "\<forall>q j. held s q j \<longrightarrow> held s' q j" "blk p ord \<subseteq> stock s" "stock s' = stock s - blk p ord"
    "held s' p ord" "accounts_ok U (stock s) out" "\<forall>(p, k)\<in>set out. held s p k"
    using alloc_spec [of s ord g] by (simp_all add: client_ok_def)
  then show ?case using accounts_take [of U "stock s" out p ord] by (auto simp: client_ok_def)
next
  case (failed ord g s s' out)
  then have "inv s'" "\<forall>q j. held s q j \<longrightarrow> held s' q j" "stock s' = stock s"
    "accounts_ok U (stock s) out" "\<forall>(p, k)\<in>set out. held s p k"
    using alloc_spec [of s ord g] by (simp_all add: client_ok_def)
  then show ?case by (auto simp: client_ok_def)
next
  case (freed p ord out s s')
  then have h: "held s p ord" "inv s" "accounts_ok U (stock s) out" "\<forall>(p, k)\<in>set out. held s p k"
    by (auto simp: client_ok_def)
  with release_spec [of s p ord] freed(2) have r: "inv s'" "stock s' = stock s \<union> blk p ord"
    "\<forall>q j. held s q j \<longrightarrow> blk q j \<inter> blk p ord = {} \<longrightarrow> held s' q j" by auto
  have "\<forall>(q, j)\<in>set (remove1 (p, ord) out). held s' q j"
    using h(4) r(3) accounts_give(2) [OF h(3) freed(1)] set_remove1_subset [of "(p, ord)" out] by blast
  then show ?case using r accounts_give(1) [OF h(3) freed(1)] by (simp add: client_ok_def)
next
  case (drained s s' out)
  then have "inv s'" "\<forall>q j. held s q j \<longrightarrow> held s' q j" "stock s' = stock s"
    "accounts_ok U (stock s) out" "\<forall>(p, k)\<in>set out. held s p k"
    using drain_spec [of s] by (simp_all add: client_ok_def)
  then show ?case by (auto simp: client_ok_def)
qed

lemma client_run_ok:
  assumes "(client_step alloc release drain)\<^sup>*\<^sup>* c c'" "client_ok U c"
  shows "client_ok U c'"
  using assms by (induction rule: rtranclp_induct) (auto intro: client_step_ok)

lemma client_not_stuck:
  assumes "(client_step alloc release drain)\<^sup>*\<^sup>* (s, []) (s', out)" "inv s"
  shows "accounts_ok (stock s) (stock s') out" "k < MAX_ORDER \<Longrightarrow> alloc k g s' \<noteq> None"
    "(p, k) \<in> set out \<Longrightarrow> release p k s' \<noteq> None" "drain s' \<noteq> None"
proof -
  have "client_ok (stock s) (s, [])" using assms(2) by (simp add: client_ok_def accounts_ok_def disjoint_blocks_def)
  from client_run_ok [OF assms(1) this] have c: "client_ok (stock s) (s', out)" .
  then have i: "inv s'" by (simp add: client_ok_def)
  show "accounts_ok (stock s) (stock s') out" using c by (simp add: client_ok_def)
  show "k < MAX_ORDER \<Longrightarrow> alloc k g s' \<noteq> None" using alloc_spec [OF i] by fastforce
  show "(p, k) \<in> set out \<Longrightarrow> release p k s' \<noteq> None" using release_spec [OF i, of p k] c by (auto simp: client_ok_def)
  show "drain s' \<noteq> None" using drain_spec [OF i] by auto
qed

end

section \<open>The page allocator as a block allocator\<close>

lemma freeable_keep:
  assumes "freeable z q j" "pages_same S z z'" "blk q j \<inter> S = {}" "blk q j \<inter> avail z' = {}"
  shows "freeable z' q j"
  using assms by (auto simp: freeable_def pages_same_def disjoint_iff)

lemma alloc_result_keep: "alloc_result z ord r z' \<Longrightarrow> freeable z q j \<Longrightarrow> freeable z' q j"
  by (rule freeable_keep [where S = "avail z"]) (auto simp: alloc_result_def freeable_def split: option.splits)

lemma alloc_result_freeable:
  assumes "mm_inv z" "alloc_result z ord (Some p) z'" "ord < MAX_ORDER"
  shows "freeable z' p ord"
  using assms avail_span [of z] by (auto simp: alloc_result_def freeable_def pages_same_def)

interpretation page_alloc: block_allocator mm_inv avail freeable buffered_rmqueue free_pages drain_pages
proof unfold_locales
  fix z k and g :: u32
  assume z: "mm_inv z" and k: "k < MAX_ORDER"
  from buffered_rmqueue_ok [OF z] obtain r z' where r: "buffered_rmqueue k g z = Some (r, z')" "alloc_result z k r z'" by blast
  then have "case r of None \<Rightarrow> avail z' = avail z
    | Some p \<Rightarrow> blk p k \<subseteq> avail z \<and> avail z' = avail z - blk p k \<and> freeable z' p k"
    using alloc_result_freeable [OF z _ k] by (auto simp: alloc_result_def split: option.splits)
  with r show "\<exists>r z'. buffered_rmqueue k g z = Some (r, z') \<and> mm_inv z' \<and> (\<forall>q j. freeable z q j \<longrightarrow> freeable z' q j) \<and>
    (case r of None \<Rightarrow> avail z' = avail z | Some p \<Rightarrow> blk p k \<subseteq> avail z \<and> avail z' = avail z - blk p k \<and> freeable z' p k)"
    using alloc_result_keep by (fastforce simp: alloc_result_def)
next
  fix z p k
  assume z: "mm_inv z" and f: "freeable z p k"
  from free_pages_freeable [OF this] obtain z' where
    r: "free_pages p k z = Some z'" "mm_inv z'" "avail z' = avail z \<union> blk p k" "pages_same (avail z \<union> blk p k) z z'" by blast
  have "freeable z' q j" if "freeable z q j" "blk q j \<inter> blk p k = {}" for q j
    by (rule freeable_keep [OF that(1) r(4)]) (use that r(3) in \<open>auto simp: freeable_def Int_Un_distrib\<close>)
  with r show "\<exists>z'. free_pages p k z = Some z' \<and> mm_inv z' \<and> avail z' = avail z \<union> blk p k \<and>
    (\<forall>q j. freeable z q j \<longrightarrow> blk q j \<inter> blk p k = {} \<longrightarrow> freeable z' q j)" by blast
next
  fix z
  assume z: "mm_inv z"
  from drain_pages_ok [OF z] obtain z' where
    r: "drain_pages z = Some z'" "mm_inv z'" "pcp_list z' = []" "free_set z' = avail z" "pages_same (avail z) z z'" by blast
  have a: "avail z' = avail z" using r(3,4) by (simp add: avail_def)
  have "freeable z' q j" if "freeable z q j" for q j
    by (rule freeable_keep [OF that r(5)]) (use that a in \<open>auto simp: freeable_def\<close>)
  with r a show "\<exists>z'. drain_pages z = Some z' \<and> mm_inv z' \<and> avail z' = avail z \<and> (\<forall>q j. freeable z q j \<longrightarrow> freeable z' q j)"
    by blast
qed

section \<open>Fragmentation\<close>

text \<open>An aligned run of free pages lies in one free block: the lists are fully coalesced.\<close>

lemma free_run_in_block:
  assumes z: "zone_inv z" and k: "k < MAX_ORDER" "2 ^ k dvd p" "blk p k \<subseteq> free_set z"
  shows "\<exists>q j. (q, j) \<in> free_blocks z \<and> k \<le> j \<and> blk p k \<subseteq> blk q j"
  using k
proof (induction k arbitrary: p)
  case 0
  then show ?case by (auto simp: free_set_def pages_of_def blk_def) blast
next
  case (Suc k)
  have al: "2 ^ k dvd p" "\<not> bit p k" "2 ^ k dvd p + 2 ^ k"
    using Suc.prems(2) aligned_bit [of k p] by (auto dest: power_le_dvd [of 2 "Suc k" p k])
  have b: "buddy_of p k = p + 2 ^ k" "parent_of p k = p" using al(2) by (simp_all add: buddy_of_def parent_of_def)
  have halves: "blk p (Suc k) = blk p k \<union> blk (p + 2 ^ k) k" using parent_blk [OF al(1)] b by simp
  obtain q j where q: "(q, j) \<in> free_blocks z" "k \<le> j" "blk p k \<subseteq> blk q j"
    using Suc.IH [of p] Suc.prems al halves by auto
  obtain q' j' where q': "(q', j') \<in> free_blocks z" "k \<le> j'" "blk (p + 2 ^ k) k \<subseteq> blk q' j'"
    using Suc.IH [of "p + 2 ^ k"] Suc.prems al halves by auto
  have zo: "zone_ok z" using z by (simp add: zone_inv_def)
  have alq: "2 ^ j dvd q" "2 ^ j' dvd q'" using head_okD(2) zone_okD(3) [OF zo] q(1) q'(1) by blast+
  show ?case
  proof (cases "Suc k \<le> j \<or> Suc k \<le> j'")
    case True
    then show ?thesis
    proof
      assume "Suc k \<le> j"
      moreover have "blk p (Suc k) \<inter> blk q j \<noteq> {}" using q(3) halves blk_head [of p k] by blast
      ultimately show ?thesis using blk_nested [OF Suc.prems(2) alq(1)] q(1) by blast
    next
      assume "Suc k \<le> j'"
      moreover have "blk p (Suc k) \<inter> blk q' j' \<noteq> {}" using q'(3) halves blk_head [of "p + 2 ^ k" k] by blast
      ultimately show ?thesis using blk_nested [OF Suc.prems(2) alq(2)] q'(1) by blast
    qed
  next
    case False
    then have j: "j = k" "j' = k" using q(2) q'(2) by auto
    have "q = p" "q' = p + 2 ^ k" using q(3) q'(3) j by (auto simp: blk_def)
    with q(1) q'(1) j b have "(p, k) \<in> free_blocks z" "(buddy_of p k, k) \<in> free_blocks z" by auto
    then show ?thesis using z Suc.prems(1) by (auto simp: zone_inv_def coalesced_def)
  qed
qed

lemma movable_fallbacks:
  assumes "mt \<in> {MIGRATE_UNMOVABLE, MIGRATE_RECLAIMABLE, MIGRATE_MOVABLE}" "m < MIGRATE_TYPES" "m \<noteq> MIGRATE_ISOLATE"
  shows "m \<in> {mt, MIGRATE_RESERVE} \<union> set (fallbacks mt)"
  using assms by (auto simp: fallbacks_def MIGRATE_UNMOVABLE_def MIGRATE_RECLAIMABLE_def MIGRATE_MOVABLE_def
    MIGRATE_RESERVE_def MIGRATE_ISOLATE_def MIGRATE_TYPES_def)

section \<open>A small zone\<close>

text \<open>Four pages, one free block of order two.\<close>

definition ex_page :: "nat \<Rightarrow> page" where
  "ex_page p = \<lparr>flags = (if p = 0 then {PG_buddy} else {}), pg_zone = (if p < 4 then 0 else 1), page_count = 0,
     page_mapcount = 0, mapping = None, page_private = (if p = 0 then 2 else 0), first_page = 0, compound_ord = 0\<rparr>"

definition ex_zone :: zone where
  "ex_zone = \<lparr>zone_id = 0, zone_start_pfn = 0, spanned_pages = 4,
     free_list = (\<lambda>k mt. if k = 2 \<and> mt = 2 then [0] else []), nr_free = (\<lambda>k. if k = 2 then 1 else 0),
     NR_FREE_PAGES = 4, pages_scanned = 0, all_unreclaimable = False, pageblock_flags = (\<lambda>i. i = 1),
     mobility_disabled = False, pcp_list = [], pcp_count = 0, pcp_high = 6, pcp_batch = 1,
     mem_map = ex_page, tainted = False\<rparr>"

lemma ex_zone_blocks: "free_blocks ex_zone = {(0, 2)}"
  by (auto simp: free_blocks_def ex_zone_def split: if_splits)

lemma ex_zone_free: "free_set ex_zone = {0..<4}"
  by (simp add: free_set_def ex_zone_blocks pages_of_def blk_def)

lemma ex_zone_migratetype: "get_pageblock_migratetype ex_zone q < MIGRATE_TYPES"
proof -
  have "[0..<NR_PAGEBLOCK_BITS] = [0, 1, 2]" by (simp add: NR_PAGEBLOCK_BITS_def upt_rec)
  then show ?thesis
    by (simp add: get_pageblock_migratetype_def get_pageblock_flags_group_def ex_zone_def MIGRATE_TYPES_def Let_def)
qed

lemma ex_zone_inv: "mm_inv ex_zone"
proof -
  have "lists_ok ex_zone"
    by (auto simp: lists_ok_def ex_zone_def MIGRATE_TYPES_def eval_nat_numeral split: if_splits)
  moreover have "head_ok ex_zone 0 2"
    by (simp add: head_ok_def ex_zone_def blk_def zone_span_def PageBuddy_def ex_page_def page_clean_def MAX_ORDER_def)
  ultimately have "zone_ok ex_zone"
    using ex_zone_migratetype unfolding zone_ok_def ex_zone_blocks
    by (auto simp: disjoint_blocks_def zone_span_def PageBuddy_def) (auto simp: ex_zone_def ex_page_def split: if_splits)
  then have "zone_inv ex_zone"
    by (simp add: zone_inv_def ex_zone_blocks ex_zone_free coalesced_def buddy_of_def MAX_ORDER_def) (simp add: ex_zone_def)
  then show ?thesis by (simp add: mm_inv_def pcp_ok_def ex_zone_def)
qed

lemma ex_alloc: "\<exists>z1. buffered_rmqueue 1 0 ex_zone = Some (Some 0, z1) \<and> mm_inv z1 \<and> freeable z1 0 1"
proof -
  have "map_option fst (buffered_rmqueue 1 0 ex_zone) = Some (Some 0)" by code_simp
  then obtain z1 where r: "buffered_rmqueue 1 0 ex_zone = Some (Some 0, z1)" by auto
  then have "alloc_result ex_zone 1 (Some 0) z1" using buffered_rmqueue_ok [OF ex_zone_inv, of 1 0] by auto
  then show ?thesis using r alloc_result_freeable [OF ex_zone_inv]
    by (auto simp: alloc_result_def MAX_ORDER_def)
qed

section \<open>Page checks\<close>

lemma free_pages_check_flags:
  "flags (mem_map (fst (free_pages_check p z)) q) \<subseteq> flags (mem_map z q)"
  "snd (free_pages_check p z) = 0 \<Longrightarrow> flags (mem_map (fst (free_pages_check p z)) p) = {}"
  by (auto simp: free_pages_check_def free_page_mlock_def bad_page_def Let_def PREP_all split: if_split_asm)

lemma check_pages_flags:
  assumes "fold (\<lambda>i (z, bad). case free_pages_check (p + i) z of (z', b) \<Rightarrow> (z', bad + b)) is (z, b) = (z', b')"
  shows "b \<le> b' \<and> (\<forall>q. flags (mem_map z' q) \<subseteq> flags (mem_map z q)) \<and>
    (b' = b \<longrightarrow> (\<forall>i\<in>set is. flags (mem_map z' (p + i)) = {}))"
  using assms
proof (induction "is" arbitrary: z b)
  case (Cons i "is")
  obtain z1 c where c: "free_pages_check (p + i) z = (z1, c)" by fastforce
  from Cons.IH [of z1 "b + c"] Cons.prems c have
    "b + c \<le> b'" "\<forall>q. flags (mem_map z' q) \<subseteq> flags (mem_map z1 q)"
    "b' = b + c \<longrightarrow> (\<forall>i\<in>set is. flags (mem_map z' (p + i)) = {})" by auto
  moreover have "flags (mem_map z1 q) \<subseteq> flags (mem_map z q)" for q using free_pages_check_flags(1) [of "p + i" z q] c by simp
  moreover have "c = 0 \<Longrightarrow> flags (mem_map z1 (p + i)) = {}" using free_pages_check_flags(2) [of "p + i" z] c by simp
  ultimately show ?case by fastforce
qed simp

section \<open>Properties\<close>

text \<open>
  C10. An allocation always returns. It either fails and leaves the free memory as it was, or hands out
  an aligned block of \<open>2 ^ ord\<close> pages that were all free, takes exactly those out of the free memory,
  and gives the first page one reference and the others none. No page in use is written.
\<close>

theorem alloc_hands_out_free_block:
  assumes "mm_inv z"
  shows "\<exists>r z'. buffered_rmqueue ord g z = Some (r, z') \<and> mm_inv z' \<and>
    (\<forall>q. q \<notin> avail z \<longrightarrow> mem_map z' q = mem_map z q) \<and>
    (case r of
       None \<Rightarrow> avail z' = avail z
     | Some p \<Rightarrow> 2 ^ ord dvd p \<and> blk p ord \<subseteq> avail z \<and> avail z' = avail z - blk p ord \<and>
         (\<forall>q\<in>blk p ord. page_count (mem_map z' q) = (if q = p then 1 else 0)))"
  using buffered_rmqueue_ok [OF assms, of ord g] by (fastforce simp: alloc_result_def pages_same_def split: option.splits)

theorem alloc_hands_out_free_block_witness:
  "mm_inv ex_zone \<and> (\<exists>r z'. buffered_rmqueue 1 GFP_COMP ex_zone = Some (r, z') \<and> mm_inv z')"
  using alloc_hands_out_free_block [OF ex_zone_inv, of 1 GFP_COMP] ex_zone_inv by auto

text \<open>
  C15. Freeing a block in use returns, adds exactly its pages to the free memory, keeps the free lists
  coalesced and counted, and writes no other page in use.
\<close>

theorem free_pages_returns_block:
  assumes "mm_inv z" "freeable z p ord"
  shows "\<exists>z'. free_pages p ord z = Some z' \<and> mm_inv z' \<and> avail z' = avail z \<union> blk p ord \<and>
    (\<forall>q. q \<notin> avail z \<union> blk p ord \<longrightarrow> mem_map z' q = mem_map z q)"
  using free_pages_freeable [OF assms] by (fastforce simp: pages_same_def)

theorem free_pages_returns_block_witness:
  "\<exists>z. mm_inv z \<and> freeable z 0 1 \<and> (\<exists>z'. free_pages 0 1 z = Some z' \<and> mm_inv z' \<and> avail z' = avail z \<union> blk 0 1)"
  using ex_alloc free_pages_returns_block by blast

text \<open>
  C2. Whatever sequence of allocations, frees of outstanding blocks and drains of the per-cpu list is
  run, outstanding blocks never overlap each other or the free memory, no page is lost, and no further
  allocation, free or drain can run into a \<open>BUG\<close>.
\<close>

theorem outstanding_blocks_disjoint:
  assumes "mm_inv z" "(client_step buffered_rmqueue free_pages drain_pages)\<^sup>*\<^sup>* (z, []) (z', out)"
  shows "accounts_ok (avail z) (avail z') out \<and> (\<forall>ord g. ord < MAX_ORDER \<longrightarrow> buffered_rmqueue ord g z' \<noteq> None) \<and>
    (\<forall>(p, ord)\<in>set out. free_pages p ord z' \<noteq> None) \<and> drain_pages z' \<noteq> None"
  using page_alloc.client_not_stuck [OF assms(2,1)] by blast

theorem outstanding_blocks_disjoint_witness:
  "\<exists>z'. (client_step buffered_rmqueue free_pages drain_pages)\<^sup>*\<^sup>* (ex_zone, []) (z', [(0, 1)]) \<and>
     accounts_ok (avail ex_zone) (avail z') [(0, 1)]"
proof -
  obtain z1 where "buffered_rmqueue 1 0 ex_zone = Some (Some 0, z1)" using ex_alloc by blast
  then have "client_step buffered_rmqueue free_pages drain_pages (ex_zone, []) (z1, [(0, 1)])"
    by (auto intro: client_step.got simp: MAX_ORDER_def)
  then have "(client_step buffered_rmqueue free_pages drain_pages)\<^sup>*\<^sup>* (ex_zone, []) (z1, [(0, 1)])" by blast
  with outstanding_blocks_disjoint [OF ex_zone_inv this] show ?thesis by blast
qed



text \<open>
  C8. While no block is isolated, the buddy system fails a request for \<open>2 ^ ord\<close> pages exactly when no
  aligned run of \<open>2 ^ ord\<close> pages is free: freeing always merges, and every migrate type falls back on all
  the others, so neither fragmentation by missed merges nor the grouping by mobility fails a request.
\<close>

theorem rmqueue_fails_iff_no_run:
  assumes z: "zone_inv z" and ord: "ord < MAX_ORDER" and mt: "mt \<in> {MIGRATE_UNMOVABLE, MIGRATE_RECLAIMABLE, MIGRATE_MOVABLE}"
    and iso: "\<forall>k. free_list z k MIGRATE_ISOLATE = []"
  shows "(\<exists>z'. rmqueue ord mt z = Some (None, z')) \<longleftrightarrow> \<not> (\<exists>p. 2 ^ ord dvd p \<and> blk p ord \<subseteq> free_set z)"
proof -
  have mts: "mt < MIGRATE_TYPES" using mt
    by (auto simp: MIGRATE_UNMOVABLE_def MIGRATE_RECLAIMABLE_def MIGRATE_MOVABLE_def MIGRATE_TYPES_def)
  have lists: "lists_ok z" using z by (auto simp: zone_inv_def dest: zone_okD)
  have nb: False if none: "\<forall>k\<in>{ord..<MAX_ORDER}. \<forall>m\<in>{mt, MIGRATE_RESERVE} \<union> set (fallbacks mt). free_list z k m = []"
    and qj: "(q, j) \<in> free_blocks z" "ord \<le> j" for q j
  proof -
    obtain m where m: "q \<in> set (free_list z j m)" using qj by (auto simp: free_blocks_def)
    have "head_ok z q j" using z qj by (auto simp: zone_inv_def dest: zone_okD)
    then have "j < MAX_ORDER" by (rule head_okD)
    moreover have "m \<in> {mt, MIGRATE_RESERVE} \<union> set (fallbacks mt)"
      using movable_fallbacks [OF mt] lists_okD(2) [OF lists m] iso m by fastforce
    ultimately show False using none m qj by fastforce
  qed
  show ?thesis
    using rmqueue_ok [OF z mts, of ord] free_run_in_block [OF z ord] nb unfolding attempt_def alloc_ok_def
    by (metis (no_types, lifting) Pair_inject option.inject option.distinct(1))
qed

theorem rmqueue_fails_iff_no_run_witness:
  "(\<exists>z'. rmqueue 3 MIGRATE_MOVABLE ex_zone = Some (None, z')) \<and> \<not> (\<exists>z'. rmqueue 2 MIGRATE_MOVABLE ex_zone = Some (None, z'))"
proof -
  have z: "zone_inv ex_zone" using ex_zone_inv by (simp add: mm_inv_def)
  have iso: "\<forall>k. free_list ex_zone k MIGRATE_ISOLATE = []" by (simp add: ex_zone_def MIGRATE_ISOLATE_def)
  have "\<not> blk p 3 \<subseteq> free_set ex_zone" for p by (auto simp: ex_zone_free blk_def subset_iff intro!: exI [of _ "p + 4"])
  moreover have "(2::nat) ^ 2 dvd 0 \<and> blk 0 2 \<subseteq> free_set ex_zone" by (auto simp: ex_zone_free blk_def)
  ultimately show ?thesis
    using rmqueue_fails_iff_no_run [OF z _ _ iso, of 3 MIGRATE_MOVABLE]
      rmqueue_fails_iff_no_run [OF z _ _ iso, of 2 MIGRATE_MOVABLE] by (auto simp: MAX_ORDER_def)
qed

text \<open>
  C37. Once \<open>__free_pages_ok\<close> has passed all pages of a block, no page flag is left, so the test for a
  compound page in \<open>__free_one_page\<close> never holds and the consistency checks of \<open>destroy_compound_page\<close>
  are not made.
\<close>

theorem free_pages_skips_compound_checks:
  assumes "check_pages p ord z = (z1, 0)"
  shows "(\<forall>q\<in>blk p ord. flags (mem_map z1 q) = {}) \<and>
    free_one_page_locked p ord z1 = free_one_page_merge p ord (get_pageblock_migratetype z1 p) z1"
proof -
  have "\<forall>i\<in>set [0..<2 ^ ord]. flags (mem_map z1 (p + i)) = {}"
    using check_pages_flags assms unfolding check_pages_def by blast
  then have f: "\<forall>q\<in>blk p ord. flags (mem_map z1 q) = {}"
    by (metis atLeastLessThan_iff blk_def le_add_diff_inverse less_diff_conv2 set_upt zero_le add.commute)
  then have "\<not> PageCompound z1 p" by (simp add: PageCompound_def)
  with f show ?thesis by (simp add: free_one_page_locked_def)
qed

theorem free_pages_skips_compound_checks_witness:
  "\<exists>z1. check_pages 1 0 ex_zone = (z1, 0) \<and> free_one_page_locked 1 0 z1 = free_one_page_merge 1 0 (get_pageblock_migratetype z1 1) z1"
proof -
  have "snd (check_pages 1 0 ex_zone) = 0" by code_simp
  then obtain z1 where c: "check_pages 1 0 ex_zone = (z1, 0)" by (metis prod.collapse)
  with free_pages_skips_compound_checks [OF c] show ?thesis by blast
qed

end
