(* ===== verification/Ring.thy ===== *)
theory Ring
  imports KPrelude
begin

text \<open>
  Ring buffers in power-of-two arrays, shared by the kernel FIFO and the Android logger: \<open>memcpy\<close>
  into a byte array, the copy in two pieces that both components use at the end of the array, and the
  masking of an index by the size minus one.
\<close>

section \<open>Arrays\<close>

definition memcpy :: "'a list \<Rightarrow> nat \<Rightarrow> 'a list \<Rightarrow> 'a list" where
  "memcpy dst off src = take off dst @ src @ drop (off + length src) dst"

lemma length_memcpy [simp]: "off + length src \<le> length dst \<Longrightarrow> length (memcpy dst off src) = length dst"
  by (simp add: memcpy_def)

lemma nth_memcpy:
  assumes "off + length src \<le> length dst" "i < length dst"
  shows "memcpy dst off src ! i = (if off \<le> i \<and> i < off + length src then src ! (i - off) else dst ! i)"
  using assms by (auto simp: memcpy_def nth_append)

definition ring_read :: "'a list \<Rightarrow> nat \<Rightarrow> nat \<Rightarrow> 'a list" where
  "ring_read buf off n = map (\<lambda>i. buf ! ((off + i) mod length buf)) [0..<n]"

lemma length_ring_read [simp]: "length (ring_read buf off n) = n"
  by (simp add: ring_read_def)

lemma nth_ring_read [simp]: "i < n \<Longrightarrow> ring_read buf off n ! i = buf ! ((off + i) mod length buf)"
  by (simp add: ring_read_def)

lemma ring_read_0 [simp]: "ring_read buf off 0 = []"
  by (simp add: ring_read_def)

lemma ring_read_mod [simp]: "ring_read buf (off mod length buf) n = ring_read buf off n"
  by (simp add: ring_read_def mod_simps)

lemma ring_read_add: "ring_read buf off (n + m) = ring_read buf off n @ ring_read buf (off + n) m"
  by (rule nth_equalityI) (auto simp: nth_append add.assoc)

lemma take_ring_read: "take k (ring_read buf off n) = ring_read buf off (min k n)"
  by (rule nth_equalityI) auto

lemma drop_ring_read: "drop k (ring_read buf off n) = ring_read buf (off + k) (n - k)"
  by (rule nth_equalityI) (auto simp: add.assoc)

text \<open>Reading in two pieces, as both readers of a ring do at the end of the array.\<close>

lemma ring_read_split:
  assumes "off < length buf" "n \<le> length buf"
  shows "take (min n (length buf - off)) (drop off buf) @ take (n - min n (length buf - off)) buf = ring_read buf off n"
proof (cases "n \<le> length buf - off")
  case True
  then have m: "min n (length buf - off) = n" by simp
  show ?thesis unfolding m using assms True by (intro nth_equalityI) auto
next
  case False
  then have m: "min n (length buf - off) = length buf - off" by simp
  have "min (length buf) (n - (length buf - off)) = n - (length buf - off)" using assms by simp
  then show ?thesis unfolding m using assms False by (intro nth_equalityI) (auto simp: nth_append mod_if ac_simps)
qed

text \<open>Writing in two pieces.\<close>

definition ring_write :: "'a list \<Rightarrow> nat \<Rightarrow> 'a list \<Rightarrow> 'a list" where
  "ring_write buf off src =
     (let l = min (length src) (length buf - off)
      in memcpy (memcpy buf off (take l src)) 0 (drop l src))"

lemma length_ring_write [simp]:
  "off < length buf \<Longrightarrow> length src \<le> length buf \<Longrightarrow> length (ring_write buf off src) = length buf"
  by (simp add: ring_write_def Let_def)

lemma memcpy_Nil [simp]: "memcpy b off [] = b"
  by (simp add: memcpy_def)

lemma memcpy_pieces:
  assumes "length d1 = min (length d1 + length d2) (length b - off)"
  shows "memcpy (memcpy b off d1) 0 d2 = ring_write b off (d1 @ d2)"
  unfolding ring_write_def Let_def length_append assms [symmetric] by simp

text \<open>Distance from \<open>off\<close> to \<open>i\<close> going up in a ring of \<open>n\<close> cells.\<close>

definition dist :: "nat \<Rightarrow> nat \<Rightarrow> nat \<Rightarrow> nat" where
  "dist n off i = (i + n - off) mod n"

lemma dist_if: "off < n \<Longrightarrow> i < n \<Longrightarrow> dist n off i = (if off \<le> i then i - off else i + n - off)"
  by (simp add: dist_def le_mod_geq)

lemma dist_less [simp]: "0 < n \<Longrightarrow> dist n off i < n"
  by (simp add: dist_def)

lemma dist_self [simp]: "0 < n \<Longrightarrow> dist n i i = 0"
  by (simp add: dist_def)

lemma dist_add:
  assumes "off < n" "k < n"
  shows "dist n off ((off + k) mod n) = k"
proof (cases "off + k < n")
  case False
  then have "(off + k) mod n = off + k - n" using assms by (simp add: mod_if)
  then show ?thesis using assms False by (simp add: dist_def)
qed (use assms in \<open>simp add: dist_def\<close>)

lemma add_dist: "off < n \<Longrightarrow> i < n \<Longrightarrow> (off + dist n off i) mod n = i"
  by (auto simp: dist_def mod_if)

lemma nth_ring_write:
  assumes "off < length buf" "length src \<le> length buf" "i < length buf"
  shows "ring_write buf off src ! i =
    (if dist (length buf) off i < length src then src ! dist (length buf) off i else buf ! i)"
proof -
  define l where "l = min (length src) (length buf - off)"
  have l: "l \<le> length src" "off + l \<le> length buf" "length src - l \<le> off" "l < length src \<Longrightarrow> off + l = length buf"
    using assms(1,2) by (auto simp: l_def)
  have e: "ring_write buf off src ! i = (if i < length src - l then src ! (l + i)
      else if off \<le> i \<and> i < off + l then src ! (i - off) else buf ! i)"
    unfolding ring_write_def l_def [symmetric] Let_def using assms l by (auto simp: nth_memcpy)
  show ?thesis
  proof (cases "off \<le> i")
    case True
    moreover have "\<not> i < length src - l" using True l by linarith
    moreover have "i < off + l \<longleftrightarrow> i - off < length src" using True assms l by (cases "l = length src") auto
    ultimately show ?thesis unfolding e using assms by (simp add: dist_if)
  next
    case False
    moreover have "i < length src - l \<longleftrightarrow> i + length buf - off < length src" using False assms l by linarith
    moreover have "l + i = i + length buf - off" if "i < length src - l" using that l by linarith
    ultimately show ?thesis unfolding e using assms by (auto simp: dist_if)
  qed
qed

lemma ring_read_write:
  assumes "off < length buf" "length src \<le> length buf"
  shows "ring_read (ring_write buf off src) off (length src) = src"
proof (rule nth_equalityI)
  fix i assume "i < length (ring_read (ring_write buf off src) off (length src))"
  moreover have "(off + i) mod length buf < length buf" using assms by (auto intro: mod_less_divisor)
  ultimately show "ring_read (ring_write buf off src) off (length src) ! i = src ! i"
    using assms nth_ring_write [of off buf src "(off + i) mod length buf"] by (simp add: dist_add)
qed simp

lemma dist_back:
  assumes "p < n" "off < n" "k < dist n p off"
  shows "dist n off ((p + k) mod n) = n - dist n p off + k"
proof (cases "p \<le> off")
  case True
  then have d: "dist n p off = off - p" using assms(1,2) by (simp add: dist_def mod_if)
  then show ?thesis using assms True by (simp add: dist_def)
next
  case False
  then have d: "dist n p off = off + n - p" using assms(1,2) by (simp add: dist_def)
  show ?thesis
  proof (cases "p + k < n")
    case True
    then show ?thesis using assms False d by (simp add: dist_def mod_if)
  next
    case False2: False
    then have "(p + k) mod n = p + k - n" using assms d False by (simp add: mod_if)
    then show ?thesis using assms False False2 d by (simp add: dist_def)
  qed
qed

text \<open>\<open>b'\<close> differs from \<open>b\<close> at most in the \<open>n\<close> cells from \<open>off\<close> on.\<close>

definition same_outside :: "nat \<Rightarrow> nat \<Rightarrow> 'a list \<Rightarrow> 'a list \<Rightarrow> bool" where
  "same_outside off n b b' \<longleftrightarrow> length b' = length b \<and>
     (\<forall>i<length b. n \<le> dist (length b) off i \<longrightarrow> b' ! i = b ! i)"

lemma same_outside_refl [simp]: "same_outside off n b b"
  by (simp add: same_outside_def)

lemma same_outside_trans: "same_outside off n b b' \<Longrightarrow> same_outside off n b' b'' \<Longrightarrow> same_outside off n b b''"
  by (simp add: same_outside_def)

lemma same_outside_mono: "same_outside off k b b' \<Longrightarrow> k \<le> n \<Longrightarrow> same_outside off n b b'"
  by (simp add: same_outside_def)

lemma same_outside_sub:
  assumes "same_outside ((off + k) mod length b) m b b'" "k + m \<le> n" "n \<le> length b" "off < length b"
  shows "same_outside off n b b'"
  unfolding same_outside_def
proof (intro conjI allI impI)
  show "length b' = length b" using assms(1) by (simp add: same_outside_def)
  fix i assume i: "i < length b" "n \<le> dist (length b) off i"
  let ?L = "length b" and ?p = "(off + k) mod length b"
  have "\<not> dist ?L ?p i < m"
  proof
    assume d: "dist ?L ?p i < m"
    have "i = (?p + dist ?L ?p i) mod ?L" using assms(4) i(1) by (intro add_dist [symmetric] mod_less_divisor) auto
    also have "\<dots> = (off + (k + dist ?L ?p i)) mod ?L" by (simp add: mod_simps add.assoc)
    finally have "dist ?L off i = k + dist ?L ?p i" using d assms(2-4) by (metis dist_add add_less_cancel_left order_less_le_trans)
    then show False using d i(2) assms(2) by simp
  qed
  then show "b' ! i = b ! i" using assms(1) i(1) by (simp add: same_outside_def)
qed

lemma same_outside_write:
  "off < length buf \<Longrightarrow> length src \<le> length buf \<Longrightarrow> same_outside off (length src) buf (ring_write buf off src)"
  by (simp add: same_outside_def nth_ring_write)

text \<open>A change that stops before it comes round to \<open>p\<close> leaves what is stored from \<open>p\<close> up to it.\<close>

lemma ring_read_outside:
  assumes "same_outside off m b b'" "off < length b" "p < length b" "n \<le> dist (length b) p off"
    "dist (length b) p off + m \<le> length b"
  shows "ring_read b' p n = ring_read b p n"
proof (rule nth_equalityI)
  fix i assume "i < length (ring_read b' p n)"
  then have i: "i < n" by simp
  then have "dist (length b) off ((p + i) mod length b) = length b - dist (length b) p off + i"
    using assms by (intro dist_back) auto
  moreover have "(p + i) mod length b < length b" using assms by (auto intro: mod_less_divisor)
  ultimately show "ring_read b' p n ! i = ring_read b p n ! i" using assms i by (simp add: same_outside_def)
qed simp

lemma ring_read_write_other:
  assumes "off < length buf" "p < length buf" "n \<le> dist (length buf) p off"
    "dist (length buf) p off + length src \<le> length buf"
  shows "ring_read (ring_write buf off src) p n = ring_read buf p n"
  using assms by (intro ring_read_outside [OF same_outside_write]) auto

text \<open>Two writes one behind the other are one write.\<close>

lemma ring_write_append:
  assumes "off < length buf" "length xs + length ys \<le> length buf"
  shows "ring_write (ring_write buf off xs) ((off + length xs) mod length buf) ys = ring_write buf off (xs @ ys)"
    (is "?l = ?r")
proof (rule nth_equalityI)
  let ?L = "length buf" and ?p = "(off + length xs) mod length buf"
  have p: "?p < ?L" using assms by (auto intro: mod_less_divisor)
  show len: "length ?l = length ?r" using assms p by simp
  fix i assume "i < length ?l"
  then have i: "i < ?L" using assms p by simp
  define d where "d = dist ?L ?p i"
  have w: "?l ! i = (if d < length ys then ys ! d
    else if dist ?L off i < length xs then xs ! dist ?L off i else buf ! i)"
    using assms p i by (simp add: nth_ring_write d_def)
  have d: "d < ?L" unfolding d_def using assms by (intro dist_less) auto
  have "i = (?p + d) mod ?L" unfolding d_def using p i by (rule add_dist [symmetric])
  also have "\<dots> = (off + (length xs + d)) mod ?L" by (simp add: mod_simps add.assoc)
  finally have ii: "i = (off + (length xs + d)) mod ?L" .
  have "(length xs + d) mod ?L < ?L" using assms by (intro mod_less_divisor) auto
  from dist_add [OF assms(1) this] have e: "dist ?L off i = (length xs + d) mod ?L"
    unfolding mod_add_right_eq ii [symmetric] .
  have r: "?r ! i = (if dist ?L off i < length xs + length ys then (xs @ ys) ! dist ?L off i else buf ! i)"
    using assms i by (simp add: nth_ring_write)
  show "?l ! i = ?r ! i"
  proof (cases "length xs + d < ?L")
    case True
    then show ?thesis unfolding w r e by (simp add: nth_append)
  next
    case False
    then have "(length xs + d) mod ?L = length xs + d - ?L" using assms d by (simp add: le_mod_geq)
    then show ?thesis unfolding w r e using False assms d by (auto simp: nth_append)
  qed
qed

lemma ring_pos_split:
  fixes off L n i :: nat
  assumes "off < L" "n \<le> L" "i < n"
  shows "(if i < min n (L - off) then off + i else i - min n (L - off)) = (off + i) mod L"
proof (cases "off + i < L")
  case False
  then have "(off + i) mod L = off + i - L" using assms by (simp add: le_mod_geq)
  then show ?thesis using assms False by auto
qed (use assms in auto)

lemma ring_pos_inj:
  fixes a x y L :: nat
  assumes "x < L" "y < L" "(a + x) mod L = (a + y) mod L"
  shows "x = y"
  using dist_add [of "a mod L" L x] dist_add [of "a mod L" L y] assms by (simp add: mod_simps)

section \<open>Masks\<close>

lemma mask_mod: "(n :: nat) AND (2 ^ k - 1) = n mod 2 ^ k" "n AND (2 ^ k - Suc 0) = n mod 2 ^ k"
  using take_bit_eq_mask [of k n] by (simp_all add: take_bit_eq_mod mask_eq_exp_minus_1)

end
