(* ===== verification/Kfifo.thy ===== *)
theory Kfifo
  imports Ring
begin

text \<open>
  The kernel FIFO (\<open>kernel/kfifo.c\<close>, \<open>include/linux/kfifo.h\<close>, with the power-of-two helpers of
  \<open>include/linux/log2.h\<close>): a byte ring whose two 32-bit indices only grow and wrap. The first part
  shows that the operations implement a bounded queue of bytes; the second that one producer and one
  consumer need no lock, with the copying of single bytes interleaved in any way. Memory is
  sequentially consistent, which is what the barriers of the code are there for.
\<close>

section \<open>Powers of two\<close>

definition is_power_of_2 :: "u32 \<Rightarrow> bool" where
  "is_power_of_2 n \<longleftrightarrow> n \<noteq> 0 \<and> n AND (n - 1) = 0"

text \<open>Position of the most significant bit, counted from one; 0 for 0.\<close>

definition fls :: "u32 \<Rightarrow> nat" where
  "fls n = length (dropWhile Not (rev (map (bit n) [0..<32])))"

definition roundup_pow_of_two :: "u32 \<Rightarrow> u32" where
  "roundup_pow_of_two n = push_bit (fls (n - 1)) 1"

section \<open>The FIFO\<close>

record kfifo =
  fifo_buffer :: "u8 list"
  fifo_size :: u32
  fifo_in :: u32
  fifo_out :: u32

text \<open>
  \<open>None\<close> is \<open>BUG()\<close>. \<open>kmalloc_ok\<close> tells whether the allocation of the structure succeeds;
  \<open>kmalloc\<close> gives the buffer of the requested size, or nothing.
\<close>

definition kfifo_init :: "bool \<Rightarrow> u8 list \<Rightarrow> u32 \<Rightarrow> kfifo kres option" where
  "kfifo_init kmalloc_ok buf n =
     (if \<not> is_power_of_2 n then None
      else if \<not> kmalloc_ok then Some (Inl ENOMEM)
      else Some (Inr \<lparr>fifo_buffer = buf, fifo_size = n, fifo_in = 0, fifo_out = 0\<rparr>))"

definition kfifo_alloc :: "bool \<Rightarrow> (u32 \<Rightarrow> u8 list option) \<Rightarrow> u32 \<Rightarrow> kfifo kres option" where
  "kfifo_alloc kmalloc_ok kmalloc n =
     (if n AND (n - 1) \<noteq> 0 \<and> n > 0x80000000 then None
      else let n' = (if n AND (n - 1) \<noteq> 0 then roundup_pow_of_two n else n)
           in case kmalloc n' of
                None \<Rightarrow> Some (Inl ENOMEM)
              | Some buf \<Rightarrow> kfifo_init kmalloc_ok buf n')"

text \<open>\<open>__kfifo_put\<close>: the number of bytes taken and the new FIFO.\<close>

definition kfifo_put_nolock :: "u8 list \<Rightarrow> u32 \<Rightarrow> kfifo \<Rightarrow> u32 \<times> kfifo" where
  "kfifo_put_nolock data len0 f =
     (let len = min len0 (fifo_size f - fifo_in f + fifo_out f);
          off = fifo_in f AND (fifo_size f - 1);
          l = min len (fifo_size f - off);
          b1 = memcpy (fifo_buffer f) (unat off) (take (unat l) data);
          b2 = memcpy b1 0 (take (unat (len - l)) (drop (unat l) data))
      in (len, f\<lparr>fifo_buffer := b2, fifo_in := fifo_in f + len\<rparr>))"

text \<open>\<open>__kfifo_get\<close>: the number of bytes, the bytes stored at the caller's buffer, and the new FIFO.\<close>

definition kfifo_get_nolock :: "u32 \<Rightarrow> kfifo \<Rightarrow> u32 \<times> u8 list \<times> kfifo" where
  "kfifo_get_nolock len0 f =
     (let len = min len0 (fifo_in f - fifo_out f);
          off = fifo_out f AND (fifo_size f - 1);
          l = min len (fifo_size f - off);
          p1 = take (unat l) (drop (unat off) (fifo_buffer f));
          p2 = take (unat (len - l)) (fifo_buffer f)
      in (len, p1 @ p2, f\<lparr>fifo_out := fifo_out f + len\<rparr>))"

definition kfifo_reset :: "kfifo \<Rightarrow> kfifo" where
  "kfifo_reset f = f\<lparr>fifo_in := 0, fifo_out := 0\<rparr>"

definition kfifo_put :: "u8 list \<Rightarrow> u32 \<Rightarrow> kfifo \<Rightarrow> u32 \<times> kfifo" where
  "kfifo_put data len f = kfifo_put_nolock data len f"

definition kfifo_get :: "u32 \<Rightarrow> kfifo \<Rightarrow> u32 \<times> u8 list \<times> kfifo" where
  "kfifo_get len f =
     (case kfifo_get_nolock len f of
        (n, bs, f1) \<Rightarrow> (n, bs, if fifo_in f1 = fifo_out f1 then f1\<lparr>fifo_in := 0, fifo_out := 0\<rparr> else f1))"

definition kfifo_len :: "kfifo \<Rightarrow> u32" where
  "kfifo_len f = fifo_in f - fifo_out f"

section \<open>Indices\<close>

lemma bit_top:
  fixes n :: u32
  assumes "2 ^ k \<le> unat n" "unat n < 2 ^ Suc k"
  shows "bit n k"
proof -
  have "unat n div 2 ^ k = 1" using assms by (intro div_nat_eqI) auto
  then have "bit (unat n) k" by (simp add: bit_iff_odd)
  then show ?thesis by (simp add: bit_unsigned_iff)
qed

lemma is_power_of_2_eq:
  assumes "is_power_of_2 n"
  obtains k where "k < 32" "n = 2 ^ k" "unat n = 2 ^ k"
proof -
  have n0: "unat n > 0" using assms by (simp add: is_power_of_2_def unat_gt_0)
  then obtain k where k: "2 ^ k \<le> unat n" "unat n < 2 ^ Suc k" using ex_power_ivl1 [of 2 "unat n"] by auto
  have "unat n < 2 ^ 32" using unsigned_less [of n] by simp
  then have "(2::nat) ^ k < 2 ^ 32" using k(1) by simp
  then have k32: "k < 32" by (rule power_less_imp_less_exp [rotated]) simp
  have "unat n = 2 ^ k"
  proof (rule ccontr)
    assume "unat n \<noteq> 2 ^ k"
    moreover have "unat (n - 1) = unat n - 1" using n0 by (simp add: unat_minus_one unat_gt_0)
    ultimately have "bit (n - 1) k" using k by (intro bit_top) auto
    moreover have "bit n k" using k by (intro bit_top)
    ultimately have "bit (n AND (n - 1)) k" by (simp add: bit_and_iff)
    then show False using assms by (simp add: is_power_of_2_def)
  qed
  moreover from this have "of_nat (unat n) = (2::u32) ^ k" by simp
  then have "n = 2 ^ k" by simp
  ultimately show ?thesis using that k32 by blast
qed

lemma power_of_2_is: "k < 32 \<Longrightarrow> is_power_of_2 (2 ^ k)"
  by (auto simp: is_power_of_2_def mask_eq_exp_minus_1 [symmetric] intro!: bit_word_eqI
      simp: bit_simps simp flip: take_bit_eq_mask)

lemma index_mask:
  assumes "is_power_of_2 n"
  shows "unat (w AND (n - 1)) = unat w mod unat n"
proof -
  obtain k where k: "n = 2 ^ k" "unat n = 2 ^ k" using assms by (rule is_power_of_2_eq)
  have "w AND (n - 1) = take_bit k w" by (simp add: k take_bit_eq_mask mask_eq_exp_minus_1)
  then show ?thesis by (simp add: k(1) take_bit_eq_mod unat_mod_distrib)
qed

lemma index_wrap:
  fixes v w :: u32
  assumes "is_power_of_2 n"
  shows "unat (v + w) mod unat n = (unat v + unat w) mod unat n"
proof -
  obtain k where k: "k < 32" "unat n = 2 ^ k" using assms by (rule is_power_of_2_eq)
  have "(2::nat) ^ k dvd 2 ^ 32" using k by (intro le_imp_power_dvd) simp
  then show ?thesis using k by (simp add: unat_word_ariths mod_mod_cancel)
qed

section \<open>A bounded queue of bytes\<close>

definition kfifo_ok :: "kfifo \<Rightarrow> bool" where
  "kfifo_ok f \<longleftrightarrow> is_power_of_2 (fifo_size f) \<and> length (fifo_buffer f) = unat (fifo_size f) \<and>
     fifo_in f - fifo_out f \<le> fifo_size f"

definition contents :: "kfifo \<Rightarrow> u8 list" where
  "contents f = ring_read (fifo_buffer f) (unat (fifo_out f)) (unat (fifo_in f - fifo_out f))"

abbreviation in_at :: "kfifo \<Rightarrow> nat" where
  "in_at f \<equiv> unat (fifo_in f) mod length (fifo_buffer f)"

abbreviation out_at :: "kfifo \<Rightarrow> nat" where
  "out_at f \<equiv> unat (fifo_out f) mod length (fifo_buffer f)"

lemma kfifo_okD:
  assumes "kfifo_ok f"
  shows "0 < length (fifo_buffer f)" "length (fifo_buffer f) = unat (fifo_size f)"
    "unat (fifo_in f - fifo_out f) \<le> length (fifo_buffer f)"
    "in_at f = (unat (fifo_out f) + unat (fifo_in f - fifo_out f)) mod length (fifo_buffer f)"
    "unat (fifo_in f AND (fifo_size f - 1)) = in_at f" "unat (fifo_out f AND (fifo_size f - 1)) = out_at f"
    "in_at f < length (fifo_buffer f)" "out_at f < length (fifo_buffer f)"
proof -
  have p: "is_power_of_2 (fifo_size f)" and l: "length (fifo_buffer f) = unat (fifo_size f)"
    using assms by (simp_all add: kfifo_ok_def)
  show g: "0 < length (fifo_buffer f)" using p l by (simp add: is_power_of_2_def unat_gt_0)
  show "length (fifo_buffer f) = unat (fifo_size f)" by (rule l)
  show "unat (fifo_in f - fifo_out f) \<le> length (fifo_buffer f)"
    using assms l by (simp add: kfifo_ok_def word_le_nat_alt)
  show "in_at f = (unat (fifo_out f) + unat (fifo_in f - fifo_out f)) mod length (fifo_buffer f)"
    using index_wrap [OF p, of "fifo_out f" "fifo_in f - fifo_out f"] l by simp
  show "unat (fifo_in f AND (fifo_size f - 1)) = in_at f" "unat (fifo_out f AND (fifo_size f - 1)) = out_at f"
    using p l by (simp_all add: index_mask)
  show "in_at f < length (fifo_buffer f)" "out_at f < length (fifo_buffer f)" using g by simp_all
qed

lemma length_contents [simp]: "length (contents f) = unat (kfifo_len f)"
  by (simp add: contents_def kfifo_len_def)

lemma free_space:
  assumes "kfifo_ok f"
  shows "unat (fifo_size f - fifo_in f + fifo_out f) = length (fifo_buffer f) - length (contents f)"
proof -
  have e: "fifo_size f - fifo_in f + fifo_out f = fifo_size f - (fifo_in f - fifo_out f)" by simp
  have "unat (fifo_size f - (fifo_in f - fifo_out f)) = unat (fifo_size f) - unat (fifo_in f - fifo_out f)"
    using assms by (intro unat_sub) (simp add: kfifo_ok_def)
  then show ?thesis unfolding e using kfifo_okD(2) [OF assms] by (simp add: kfifo_len_def)
qed

lemma unat_of_nat_small: "m < 2 ^ 32 \<Longrightarrow> unat (of_nat m :: u32) = m"
  by (simp add: unat_of_nat)

lemma unat_min: "unat (min a (b :: u32)) = min (unat a) (unat b)"
  by (simp add: min_def word_le_nat_alt)

lemma out_to_in:
  assumes "kfifo_ok f" "unat (kfifo_len f) < length (fifo_buffer f)"
  shows "dist (length (fifo_buffer f)) (out_at f) (in_at f) = unat (kfifo_len f)"
  using dist_add [of "out_at f" "length (fifo_buffer f)" "unat (kfifo_len f)"] assms kfifo_okD [OF assms(1)]
  by (simp add: kfifo_len_def mod_simps)

text \<open>Writing bytes behind the last one and publishing them appends them.\<close>

lemma contents_append:
  assumes f: "kfifo_ok f" and d: "length d + length (contents f) \<le> length (fifo_buffer f)"
    and b: "length b = length (fifo_buffer f)" "ring_read b (in_at f) (length d) = d"
      "ring_read b (out_at f) (length (contents f)) = contents f"
  shows "kfifo_ok (f\<lparr>fifo_buffer := b, fifo_in := fifo_in f + of_nat (length d)\<rparr>)"
    "contents (f\<lparr>fifo_buffer := b, fifo_in := fifo_in f + of_nat (length d)\<rparr>) = contents f @ d"
proof -
  let ?L = "length (fifo_buffer f)" and ?n = "unat (kfifo_len f)"
  have L: "?L < 2 ^ 32" using kfifo_okD(2) [OF f] unsigned_less [of "fifo_size f"] by simp
  have e: "fifo_in f + of_nat (length d) - fifo_out f = of_nat (?n + length d)" by (simp add: kfifo_len_def)
  have n: "unat (fifo_in f + of_nat (length d) - fifo_out f) = ?n + length d"
    unfolding e using d L by (intro unat_of_nat_small) simp
  show "kfifo_ok (f\<lparr>fifo_buffer := b, fifo_in := fifo_in f + of_nat (length d)\<rparr>)"
    using f d b(1) kfifo_okD(2) [OF f] n by (simp add: kfifo_ok_def word_le_nat_alt)
  have "ring_read b (unat (fifo_out f) + ?n) (length d) = d"
    using b(1,2) kfifo_okD(4) [OF f] ring_read_mod [of b "unat (fifo_out f) + ?n"] by (simp add: kfifo_len_def)
  moreover have "ring_read b (unat (fifo_out f)) ?n = contents f"
    using b(1,3) ring_read_mod [of b "unat (fifo_out f)"] by simp
  ultimately show "contents (f\<lparr>fifo_buffer := b, fifo_in := fifo_in f + of_nat (length d)\<rparr>) = contents f @ d"
    by (simp add: contents_def [of "f\<lparr>fifo_buffer := b, fifo_in := fifo_in f + of_nat (length d)\<rparr>"] n ring_read_add)
qed

lemma contents_drop:
  assumes f: "kfifo_ok f" and n: "n \<le> length (contents f)"
  shows "kfifo_ok (f\<lparr>fifo_out := fifo_out f + of_nat n\<rparr>)"
    "contents (f\<lparr>fifo_out := fifo_out f + of_nat n\<rparr>) = drop n (contents f)"
proof -
  let ?L = "length (fifo_buffer f)"
  have L: "?L < 2 ^ 32" "unat (kfifo_len f) \<le> ?L"
    using kfifo_okD(2,3) [OF f] unsigned_less [of "fifo_size f"] by (simp_all add: kfifo_len_def)
  have u: "unat (of_nat n :: u32) = n" using n L by (intro unat_of_nat_small) simp
  have e: "fifo_in f - (fifo_out f + of_nat n) = kfifo_len f - of_nat n" by (simp add: kfifo_len_def)
  have m: "unat (fifo_in f - (fifo_out f + of_nat n)) = unat (kfifo_len f) - n"
    unfolding e using n u by (subst unat_sub) (simp_all add: word_le_nat_alt)
  show "kfifo_ok (f\<lparr>fifo_out := fifo_out f + of_nat n\<rparr>)"
    using f m L kfifo_okD(2) [OF f] by (simp add: kfifo_ok_def word_le_nat_alt)
  have "unat (fifo_out f + of_nat n) mod ?L = (unat (fifo_out f) + n) mod ?L"
    using index_wrap [of "fifo_size f" "fifo_out f" "of_nat n"] f u kfifo_okD(2) [OF f] by (simp add: kfifo_ok_def)
  then have "ring_read (fifo_buffer f) (unat (fifo_out f + of_nat n)) k = ring_read (fifo_buffer f) (unat (fifo_out f) + n) k" for k
    by (metis ring_read_mod)
  then show "contents (f\<lparr>fifo_out := fifo_out f + of_nat n\<rparr>) = drop n (contents f)"
    by (simp add: contents_def m drop_ring_read kfifo_len_def)
qed

text \<open>The three operations on a FIFO and on its contents.\<close>

lemma kfifo_put_ok:
  fixes len :: u32
  assumes f: "kfifo_ok f" and len: "unat len \<le> length data"
  defines "n \<equiv> min (unat len) (length (fifo_buffer f) - length (contents f))"
  shows "\<exists>f'. kfifo_put_nolock data len f = (of_nat n, f') \<and> kfifo_ok f' \<and> fifo_size f' = fifo_size f \<and>
    contents f' = contents f @ take n data"
proof -
  let ?L = "length (fifo_buffer f)" and ?d = "take n data"
  define w where "w = min len (fifo_size f - fifo_in f + fifo_out f)"
  have wn: "unat w = n" using free_space [OF f] by (simp add: w_def n_def unat_min)
  then have w: "w = of_nat n" by (simp flip: wn)
  have d: "length ?d = n" "n \<le> ?L" "n + length (contents f) \<le> ?L"
    using len kfifo_okD(3) [OF f] by (auto simp: n_def kfifo_len_def)
  let ?off = "fifo_in f AND (fifo_size f - 1)"
  have off: "unat (fifo_size f - ?off) = ?L - in_at f"
    using kfifo_okD [OF f] by (subst unat_sub) (simp_all add: word_le_nat_alt)
  let ?l = "min w (fifo_size f - ?off)"
  have l: "unat ?l = min n (?L - in_at f)" by (simp add: unat_min wn off)
  have wl: "unat (w - ?l) = n - min n (?L - in_at f)" by (subst unat_sub) (simp_all add: wn l)
  let ?b = "ring_write (fifo_buffer f) (in_at f) ?d"
  have "memcpy (memcpy (fifo_buffer f) (unat ?off) (take (unat ?l) data)) 0 (take (unat (w - ?l)) (drop (unat ?l) data)) = ?b"
    unfolding l wl kfifo_okD(5) [OF f] using d(1) by (simp add: ring_write_def Let_def drop_take)
  then have r: "kfifo_put_nolock data len f = (of_nat n, f\<lparr>fifo_buffer := ?b, fifo_in := fifo_in f + of_nat (length ?d)\<rparr>)"
    unfolding kfifo_put_nolock_def Let_def w_def [symmetric] w [symmetric] d(1) by (simp add: w)
  have b1: "length ?b = ?L" using d kfifo_okD(7) [OF f] by simp
  have b2: "ring_read ?b (in_at f) (length ?d) = ?d" using d kfifo_okD(7) [OF f] by (intro ring_read_write) auto
  have b3: "ring_read ?b (out_at f) (length (contents f)) = contents f"
  proof (cases "n = 0")
    case True
    then show ?thesis by (simp add: ring_write_def memcpy_def contents_def kfifo_len_def)
  next
    case False
    then have "dist ?L (out_at f) (in_at f) = length (contents f)" using out_to_in [OF f] d by simp
    then have "ring_read ?b (out_at f) (length (contents f)) = ring_read (fifo_buffer f) (out_at f) (length (contents f))"
      using d kfifo_okD(7,8) [OF f] by (intro ring_read_write_other) auto
    then show ?thesis by (simp add: contents_def kfifo_len_def)
  qed
  show ?thesis
    using contents_append [OF f _ b1 b2 b3] d r by auto
qed

lemma kfifo_get_ok:
  fixes len :: u32
  assumes f: "kfifo_ok f"
  defines "n \<equiv> min (unat len) (length (contents f))"
  shows "\<exists>f'. kfifo_get_nolock len f = (of_nat n, take n (contents f), f') \<and> kfifo_ok f' \<and>
    fifo_size f' = fifo_size f \<and> contents f' = drop n (contents f)"
proof -
  let ?L = "length (fifo_buffer f)"
  define w where "w = min len (fifo_in f - fifo_out f)"
  have wn: "unat w = n" by (simp add: w_def n_def unat_min kfifo_len_def)
  have w: "w = of_nat n" by (simp flip: wn)
  have n: "n \<le> ?L" "n \<le> length (contents f)" using kfifo_okD(3) [OF f] by (auto simp: n_def kfifo_len_def)
  let ?off = "fifo_out f AND (fifo_size f - 1)"
  have off: "unat (fifo_size f - ?off) = ?L - out_at f"
    using kfifo_okD [OF f] by (subst unat_sub) (simp_all add: word_le_nat_alt)
  let ?l = "min w (fifo_size f - ?off)"
  have l: "unat ?l = min n (?L - out_at f)" by (simp add: unat_min wn off)
  have wl: "unat (w - ?l) = n - min n (?L - out_at f)" by (subst unat_sub) (simp_all add: wn l)
  have "take (unat ?l) (drop (unat ?off) (fifo_buffer f)) @ take (unat (w - ?l)) (fifo_buffer f) =
      ring_read (fifo_buffer f) (out_at f) n"
    unfolding l wl kfifo_okD(6) [OF f] using n kfifo_okD(8) [OF f] by (intro ring_read_split)
  also have "\<dots> = take n (contents f)" using n by (simp add: contents_def take_ring_read kfifo_len_def min_def)
  finally have r: "kfifo_get_nolock len f = (of_nat n, take n (contents f), f\<lparr>fifo_out := fifo_out f + of_nat n\<rparr>)"
    unfolding kfifo_get_nolock_def Let_def w_def [symmetric] w [symmetric] by (simp add: w)
  then show ?thesis using contents_drop [OF f n(2)] by auto
qed

lemma kfifo_reset_ok:
  assumes "kfifo_ok f"
  shows "kfifo_ok (kfifo_reset f)" "contents (kfifo_reset f) = []"
  using assms by (simp_all add: kfifo_reset_def kfifo_ok_def contents_def)

section \<open>Allocation\<close>

lemma bit_above:
  fixes n :: u32
  assumes "unat n < 2 ^ k" "k \<le> j"
  shows "\<not> bit n j"
proof -
  have "unat n < 2 ^ j" using assms by (meson less_le_trans one_le_numeral power_increasing)
  then have "\<not> bit (unat n) j" by (simp add: bit_iff_odd)
  then show ?thesis by (auto simp: bit_unsigned_iff dest: bit_imp_le_length)
qed

lemma upt_split: "k < N \<Longrightarrow> [0..<N] = [0..<k] @ k # [Suc k..<N]"
  using upt_add_eq_append [of 0 k "N - k"] by (simp add: upt_conv_Cons)

lemma fls_eq:
  assumes "2 ^ k \<le> unat n" "unat n < 2 ^ Suc k"
  shows "fls n = Suc k"
proof -
  have b: "bit n k" using assms by (rule bit_top)
  then have k: "k < 32" by (auto dest: bit_imp_le_length)
  have "dropWhile Not (rev (map (bit n) [Suc k..<N]) @ True # xs) = True # xs" for N xs
    using bit_above [OF assms(2)] by (subst dropWhile_append2) auto
  with b show ?thesis unfolding fls_def upt_split [OF k] by (simp del: upt_Suc)
qed

lemma roundup_bounds:
  assumes "1 < unat n" "unat n \<le> 2 ^ 31"
  obtains k where "k < 32" "roundup_pow_of_two n = 2 ^ k" "unat n \<le> 2 ^ k" "2 ^ k < 2 * unat n"
proof -
  have m: "unat (n - 1) = unat n - 1" using assms by (intro unat_minus_one) auto
  then have "unat (n - 1) > 0" using assms by simp
  then obtain k where k: "2 ^ k \<le> unat (n - 1)" "unat (n - 1) < 2 ^ Suc k" using ex_power_ivl1 [of 2 "unat (n - 1)"] by auto
  have "(2::nat) ^ k < 2 ^ 31" using k m assms by linarith
  then have "k < 31" by (rule power_less_imp_less_exp [rotated]) simp
  moreover have "roundup_pow_of_two n = 2 ^ Suc k" unfolding roundup_pow_of_two_def fls_eq [OF k] by (simp add: push_bit_eq_mult)
  moreover have "unat n \<le> 2 ^ Suc k" "2 ^ Suc k < 2 * unat n" using k m assms by auto
  ultimately show ?thesis using that [of "Suc k"] by simp
qed

lemma unat_exp: "k < 32 \<Longrightarrow> unat (2 ^ k :: u32) = 2 ^ k"
  using unat_of_nat_small [of "2 ^ k"] power_strict_increasing [of k 32 "2::nat"] by simp

lemma kfifo_alloc_ok:
  assumes n: "0 < unat n" "unat n \<le> 2 ^ 31" and km: "\<And>m. \<exists>b. kmalloc m = Some b \<and> length b = unat m"
  shows "\<exists>f. kfifo_alloc True kmalloc n = Some (Inr f) \<and> kfifo_ok f \<and> contents f = [] \<and>
    unat n \<le> unat (fifo_size f) \<and> unat (fifo_size f) < 2 * unat n"
proof -
  define m where "m = (if n AND (n - 1) \<noteq> 0 then roundup_pow_of_two n else n)"
  have m: "is_power_of_2 m \<and> unat n \<le> unat m \<and> unat m < 2 * unat n"
  proof (cases "n AND (n - 1) = 0")
    case True
    then show ?thesis using n by (auto simp: m_def is_power_of_2_def)
  next
    case False
    then have "n \<noteq> 1" by auto
    then have "unat n \<noteq> 1" by (metis unsigned_1 unsigned_word_eqI)
    then have "1 < unat n" using n(1) by linarith
    with n(2) obtain k where "k < 32" "roundup_pow_of_two n = 2 ^ k" "unat n \<le> 2 ^ k" "2 ^ k < 2 * unat n"
      using roundup_bounds by metis
    then show ?thesis using False by (simp add: m_def power_of_2_is unat_exp)
  qed
  obtain b where b: "kmalloc m = Some b" "length b = unat m" using km by blast
  let ?f = "\<lparr>fifo_buffer = b, fifo_size = m, fifo_in = 0, fifo_out = 0\<rparr>"
  have "\<not> n > 0x80000000" using n(2) by (simp add: word_less_nat_alt)
  then have "kfifo_alloc True kmalloc n = Some (Inr ?f)"
    using b(1) m unfolding kfifo_alloc_def Let_def m_def [symmetric] by (simp add: kfifo_init_def)
  moreover have "kfifo_ok ?f" "contents ?f = []" using m b by (simp_all add: kfifo_ok_def contents_def)
  ultimately show ?thesis using m by auto
qed

section \<open>One producer and one consumer without a lock\<close>

text \<open>
  The producer runs \<open>__kfifo_put\<close>, the consumer \<open>__kfifo_get\<close>, both any number of times. A call is
  split where the other side can come in between: the length is computed from one reading of the
  other side's index, then the bytes are copied one at a time, then the own index is moved.
  \<open>PCopy d i\<close>: \<open>i\<close> of the bytes \<open>d\<close> are copied; \<open>CCopy n bs\<close>: \<open>bs\<close> of \<open>n\<close> bytes are read.
\<close>

datatype prod_pc = PIdle | PCopy "u8 list" nat
datatype cons_pc = CIdle | CCopy nat "u8 list"

record spsc =
  fifo :: kfifo
  prod :: prod_pc
  cons :: cons_pc
  produced :: "u8 list"
  consumed :: "u8 list"

text \<open>Where the \<open>i\<close>-th of \<open>n\<close> bytes copied from the index \<open>w\<close> on is: behind it, or at the beginning of the array.\<close>

definition copy_pos :: "kfifo \<Rightarrow> u32 \<Rightarrow> nat \<Rightarrow> nat \<Rightarrow> nat" where
  "copy_pos f w n i =
     (let off = unat (w AND (fifo_size f - 1)); l = min n (unat (fifo_size f) - off)
      in if i < l then off + i else i - l)"

inductive spsc_step :: "spsc \<Rightarrow> spsc \<Rightarrow> bool" where
  put_start: "prod s = PIdle \<Longrightarrow> unat len \<le> length data \<Longrightarrow> f = fifo s \<Longrightarrow>
    n = unat (min len (fifo_size f - fifo_in f + fifo_out f)) \<Longrightarrow>
    spsc_step s (s\<lparr>prod := PCopy (take n data) 0\<rparr>)"
| put_byte: "prod s = PCopy d i \<Longrightarrow> i < length d \<Longrightarrow> f = fifo s \<Longrightarrow>
    spsc_step s (s\<lparr>fifo := f\<lparr>fifo_buffer := (fifo_buffer f)[copy_pos f (fifo_in f) (length d) i := d ! i]\<rparr>,
      prod := PCopy d (Suc i)\<rparr>)"
| put_done: "prod s = PCopy d i \<Longrightarrow> i = length d \<Longrightarrow> f = fifo s \<Longrightarrow>
    spsc_step s (s\<lparr>fifo := f\<lparr>fifo_in := fifo_in f + of_nat (length d)\<rparr>, prod := PIdle, produced := produced s @ d\<rparr>)"
| get_start: "cons s = CIdle \<Longrightarrow> f = fifo s \<Longrightarrow> n = unat (min len (fifo_in f - fifo_out f)) \<Longrightarrow>
    spsc_step s (s\<lparr>cons := CCopy n []\<rparr>)"
| get_byte: "cons s = CCopy n bs \<Longrightarrow> length bs < n \<Longrightarrow> f = fifo s \<Longrightarrow>
    spsc_step s (s\<lparr>cons := CCopy n (bs @ [fifo_buffer f ! copy_pos f (fifo_out f) n (length bs)])\<rparr>)"
| get_done: "cons s = CCopy n bs \<Longrightarrow> length bs = n \<Longrightarrow> f = fifo s \<Longrightarrow>
    spsc_step s (s\<lparr>fifo := f\<lparr>fifo_out := fifo_out f + of_nat n\<rparr>, cons := CIdle, consumed := consumed s @ bs\<rparr>)"

definition prod_ok :: "kfifo \<Rightarrow> prod_pc \<Rightarrow> bool" where
  "prod_ok f p = (case p of PIdle \<Rightarrow> True
     | PCopy d i \<Rightarrow> i \<le> length d \<and> length d + length (contents f) \<le> length (fifo_buffer f) \<and>
         (\<forall>j<i. fifo_buffer f ! ((unat (fifo_in f) + j) mod length (fifo_buffer f)) = d ! j))"

definition cons_ok :: "kfifo \<Rightarrow> cons_pc \<Rightarrow> bool" where
  "cons_ok f c = (case c of CIdle \<Rightarrow> True
     | CCopy n bs \<Rightarrow> length bs \<le> n \<and> n \<le> length (contents f) \<and> bs = take (length bs) (contents f))"

definition spsc_ok :: "spsc \<Rightarrow> bool" where
  "spsc_ok s \<longleftrightarrow> kfifo_ok (fifo s) \<and> produced s = consumed s @ contents (fifo s) \<and>
     prod_ok (fifo s) (prod s) \<and> cons_ok (fifo s) (cons s)"

lemma copy_pos_mod:
  assumes "kfifo_ok f" "n \<le> length (fifo_buffer f)" "i < n"
  shows "copy_pos f w n i = (unat w + i) mod length (fifo_buffer f)"
proof -
  let ?L = "length (fifo_buffer f)"
  have p: "is_power_of_2 (fifo_size f)" "unat (fifo_size f) = ?L" using assms by (simp_all add: kfifo_ok_def)
  have o: "unat (w AND (fifo_size f - 1)) = unat w mod ?L" using index_mask [OF p(1)] p(2) by simp
  have "unat w mod ?L < ?L" using kfifo_okD(1) [OF assms(1)] by simp
  then have "copy_pos f w n i = (unat w mod ?L + i) mod ?L"
    using ring_pos_split assms(2,3) unfolding copy_pos_def Let_def o p(2) by blast
  then show ?thesis by (simp add: mod_simps)
qed

lemma put_start_ok:
  assumes "kfifo_ok f" "unat len \<le> length data"
  shows "prod_ok f (PCopy (take (unat (min len (fifo_size f - fifo_in f + fifo_out f))) data) 0)"
  using assms free_space [OF assms(1)] kfifo_okD(3) [OF assms(1)] by (auto simp: prod_ok_def unat_min kfifo_len_def)

lemma put_byte_ok:
  assumes f: "kfifo_ok f" and p: "prod_ok f (PCopy d i)" and i: "i < length d"
  defines "f' \<equiv> f\<lparr>fifo_buffer := (fifo_buffer f)[copy_pos f (fifo_in f) (length d) i := d ! i]\<rparr>"
  shows "kfifo_ok f'" "contents f' = contents f" "prod_ok f' (PCopy d (Suc i))"
proof -
  let ?L = "length (fifo_buffer f)" and ?n = "length (contents f)"
  have d: "length d + ?n \<le> ?L" "length d \<le> ?L"
    "\<And>j. j < i \<Longrightarrow> fifo_buffer f ! ((unat (fifo_in f) + j) mod ?L) = d ! j"
    using p by (auto simp: prod_ok_def)
  have pos: "copy_pos f (fifo_in f) (length d) i = (unat (fifo_in f) + i) mod ?L"
    using f d(2) i by (rule copy_pos_mod)
  have less: "(unat (fifo_in f) + i) mod ?L < ?L" using kfifo_okD(1) [OF f] by simp
  show ok: "kfifo_ok f'" using f by (simp add: f'_def kfifo_ok_def)
  have at_out: "(unat (fifo_in f) + i) mod ?L = (unat (fifo_out f) + (?n + i)) mod ?L"
    using kfifo_okD(4) [OF f] by (simp add: kfifo_len_def add.assoc [symmetric] mod_simps) (metis mod_add_left_eq)
  show c: "contents f' = contents f"
  proof (rule nth_equalityI)
    fix j assume "j < length (contents f')"
    then have j: "j < ?n" by (simp add: f'_def kfifo_len_def)
    then have "(unat (fifo_out f) + j) mod ?L \<noteq> (unat (fifo_in f) + i) mod ?L"
      unfolding at_out using ring_pos_inj [of j ?L "?n + i" "unat (fifo_out f)"] d(1) i by auto
    then show "contents f' ! j = contents f ! j" using j
      by (simp add: contents_def f'_def pos kfifo_len_def)
  qed (simp add: f'_def kfifo_len_def)
  have "fifo_buffer f' ! ((unat (fifo_in f) + j) mod ?L) = d ! j" if "j < Suc i" for j
  proof (cases "j = i")
    case True
    then show ?thesis using less by (simp add: f'_def pos)
  next
    case False
    then have "(unat (fifo_in f) + j) mod ?L \<noteq> (unat (fifo_in f) + i) mod ?L"
      using ring_pos_inj [of j ?L i "unat (fifo_in f)"] d(2) i that by auto
    then show ?thesis using False that d(3) [of j] by (simp add: f'_def pos)
  qed
  then show "prod_ok f' (PCopy d (Suc i))" using i d(1) c by (simp add: prod_ok_def f'_def)
qed

lemma put_done_ok:
  assumes f: "kfifo_ok f" and p: "prod_ok f (PCopy d (length d))"
  shows "kfifo_ok (f\<lparr>fifo_in := fifo_in f + of_nat (length d)\<rparr>)"
    "contents (f\<lparr>fifo_in := fifo_in f + of_nat (length d)\<rparr>) = contents f @ d"
proof -
  have "ring_read (fifo_buffer f) (in_at f) (length d) = d"
    using p by (intro nth_equalityI) (simp_all add: prod_ok_def mod_simps)
  then have "kfifo_ok (f\<lparr>fifo_buffer := fifo_buffer f, fifo_in := fifo_in f + of_nat (length d)\<rparr>)"
    "contents (f\<lparr>fifo_buffer := fifo_buffer f, fifo_in := fifo_in f + of_nat (length d)\<rparr>) = contents f @ d"
    using contents_append [OF f, of d "fifo_buffer f"] p by (simp_all add: prod_ok_def contents_def kfifo_len_def)
  then show "kfifo_ok (f\<lparr>fifo_in := fifo_in f + of_nat (length d)\<rparr>)"
    "contents (f\<lparr>fifo_in := fifo_in f + of_nat (length d)\<rparr>) = contents f @ d" by simp_all
qed

lemma get_byte_ok:
  assumes f: "kfifo_ok f" and c: "cons_ok f (CCopy n bs)" and l: "length bs < n"
  shows "cons_ok f (CCopy n (bs @ [fifo_buffer f ! copy_pos f (fifo_out f) n (length bs)]))"
proof -
  have n: "n \<le> length (contents f)" "bs = take (length bs) (contents f)" using c by (simp_all add: cons_ok_def)
  have "copy_pos f (fifo_out f) n (length bs) = (unat (fifo_out f) + length bs) mod length (fifo_buffer f)"
    using f n(1) kfifo_okD(3) [OF f] l by (intro copy_pos_mod) (auto simp: kfifo_len_def)
  then have "fifo_buffer f ! copy_pos f (fifo_out f) n (length bs) = contents f ! length bs"
    using n(1) l by (simp add: contents_def kfifo_len_def)
  then show ?thesis using n l by (simp add: cons_ok_def take_Suc_conv_app_nth)
qed

lemma spsc_step_ok:
  assumes "spsc_step s s'" "spsc_ok s"
  shows "spsc_ok s'"
  using assms
proof (induction rule: spsc_step.induct)
  case (put_start s len data f n)
  then show ?case using put_start_ok [of f len data] by (simp add: spsc_ok_def)
next
  case (put_byte s d i f)
  then show ?case using put_byte_ok [of f d i] by (auto simp: spsc_ok_def cons_ok_def split: cons_pc.splits)
next
  case (put_done s d i f)
  then show ?case using put_done_ok [of f d]
    by (auto simp: spsc_ok_def cons_ok_def prod_ok_def split: cons_pc.splits)
next
  case (get_start s f n len)
  then show ?case by (auto simp: spsc_ok_def cons_ok_def kfifo_len_def unat_min)
next
  case (get_byte s n bs f)
  then show ?case using get_byte_ok [of f n bs] by (auto simp: spsc_ok_def)
next
  case (get_done s n bs f)
  then have "n \<le> length (contents f)" "bs = take n (contents f)" by (auto simp: spsc_ok_def cons_ok_def)
  then show ?case using get_done contents_drop [of f n]
    by (auto simp: spsc_ok_def cons_ok_def prod_ok_def split: prod_pc.splits)
qed

section \<open>Properties\<close>

text \<open>The specification: a queue of at most \<open>cap\<close> bytes that takes and gives as many bytes as it can.\<close>

definition queue_put :: "nat \<Rightarrow> u8 list \<Rightarrow> nat \<Rightarrow> u8 list \<Rightarrow> nat \<times> u8 list" where
  "queue_put cap data len q = (let n = min len (cap - length q) in (n, q @ take n data))"

definition queue_get :: "nat \<Rightarrow> u8 list \<Rightarrow> u8 list \<times> u8 list" where
  "queue_get len q = (take len q, drop len q)"

definition ex_fifo :: kfifo where
  "ex_fifo = \<lparr>fifo_buffer = [1, 2, 3, 4], fifo_size = 4, fifo_in = 1, fifo_out = 0xFFFFFFFE\<rparr>"

text \<open>
  C11. \<open>kfifo_put\<close>, \<open>kfifo_get\<close> and \<open>kfifo_reset\<close> implement a bounded queue of bytes, wherever the
  indices are and whether or not they wrap around 32 bits or around the buffer during the call.
\<close>

theorem kfifo_refines_bounded_queue:
  assumes "kfifo_ok f"
  shows "(unat len \<le> length data \<longrightarrow>
      (case kfifo_put data len f of (n, f') \<Rightarrow> kfifo_ok f' \<and> fifo_size f' = fifo_size f \<and>
         (unat n, contents f') = queue_put (unat (fifo_size f)) data (unat len) (contents f))) \<and>
    (case kfifo_get len f of (n, bs, f') \<Rightarrow> kfifo_ok f' \<and> fifo_size f' = fifo_size f \<and> unat n = length bs \<and>
       (bs, contents f') = queue_get (unat len) (contents f)) \<and>
    kfifo_ok (kfifo_reset f) \<and> contents (kfifo_reset f) = []"
proof (intro conjI impI)
  have len: "unat len < 2 ^ 32" by (rule order_less_le_trans [OF unsigned_less]) simp
  then have small: "unat (of_nat (min (unat len) m) :: u32) = min (unat len) m" for m by (intro unat_of_nat_small) simp
  show "case kfifo_put data len f of (n, f') \<Rightarrow> kfifo_ok f' \<and> fifo_size f' = fifo_size f \<and>
      (unat n, contents f') = queue_put (unat (fifo_size f)) data (unat len) (contents f)" if "unat len \<le> length data"
    using kfifo_put_ok [OF assms that] kfifo_okD(2) [OF assms] small
    by (auto simp: kfifo_put_def queue_put_def Let_def)
  obtain f' where g: "kfifo_get_nolock len f =
      (of_nat (min (unat len) (length (contents f))), take (min (unat len) (length (contents f))) (contents f), f')"
    "kfifo_ok f'" "fifo_size f' = fifo_size f" "contents f' = drop (min (unat len) (length (contents f))) (contents f)"
    using kfifo_get_ok [OF assms] by blast
  have "kfifo_ok (f'\<lparr>fifo_in := 0, fifo_out := 0\<rparr>)" "contents (f'\<lparr>fifo_in := 0, fifo_out := 0\<rparr>) = contents f'"
    if "fifo_in f' = fifo_out f'" using that g(2) by (simp_all add: kfifo_ok_def contents_def)
  moreover have "take (min (unat len) (length (contents f))) (contents f) = take (unat len) (contents f)"
    "drop (min (unat len) (length (contents f))) (contents f) = drop (unat len) (contents f)" by (auto simp: min_def)
  ultimately show "case kfifo_get len f of (n, bs, f') \<Rightarrow> kfifo_ok f' \<and> fifo_size f' = fifo_size f \<and> unat n = length bs \<and>
      (bs, contents f') = queue_get (unat len) (contents f)"
    using g small by (auto simp: kfifo_get_def queue_get_def)
qed (use kfifo_reset_ok [OF assms] in simp_all)

theorem kfifo_refines_bounded_queue_witness:
  "kfifo_ok ex_fifo \<and> contents ex_fifo = [3, 4, 1] \<and>
   (case kfifo_put [7, 8, 9] 3 ex_fifo of (n, f') \<Rightarrow> unat n = 1 \<and> contents f' = [3, 4, 1, 7])"
proof -
  have ok: "kfifo_ok ex_fifo" by (simp add: kfifo_ok_def ex_fifo_def is_power_of_2_def)
  have c: "contents ex_fifo = [3, 4, 1]" by (simp add: contents_def ring_read_def ex_fifo_def upt_rec)
  obtain n f' where r: "kfifo_put [7, 8, 9] 3 ex_fifo = (n, f')" by fastforce
  have "(unat n, contents f') = queue_put (unat (fifo_size ex_fifo)) [7, 8, 9] (unat (3::u32)) (contents ex_fifo)"
    using kfifo_refines_bounded_queue [OF ok, of 3 "[7, 8, 9]"] r by simp
  moreover have "queue_put (unat (fifo_size ex_fifo)) [7, 8, 9] (unat (3::u32)) (contents ex_fifo) = (1, [3, 4, 1, 7])"
    unfolding c by (simp add: queue_put_def ex_fifo_def)
  ultimately show ?thesis using ok c r by simp
qed

text \<open>
  C14. One producer and one consumer may run \<open>__kfifo_put\<close> and \<open>__kfifo_get\<close> at the same time without a
  lock: in every state they can reach, the bytes received so far followed by the bytes in the buffer
  are exactly the bytes sent, in order, and the buffer is never overfull.
\<close>

theorem spsc_keeps_order:
  assumes "spsc_step\<^sup>*\<^sup>* \<lparr>fifo = f, prod = PIdle, cons = CIdle, produced = [], consumed = []\<rparr> s"
    "kfifo_ok f" "contents f = []"
  shows "produced s = consumed s @ contents (fifo s) \<and> length (contents (fifo s)) \<le> unat (fifo_size (fifo s))"
proof -
  have "spsc_ok \<lparr>fifo = f, prod = PIdle, cons = CIdle, produced = [], consumed = []\<rparr>"
    using assms(2,3) by (simp add: spsc_ok_def prod_ok_def cons_ok_def)
  with assms(1) have "spsc_ok s" by (induction rule: rtranclp_induct) (auto intro: spsc_step_ok)
  then show ?thesis using kfifo_okD(2,3) [of "fifo s"] by (simp add: spsc_ok_def kfifo_len_def)
qed

theorem spsc_keeps_order_witness:
  "\<exists>s. spsc_step\<^sup>*\<^sup>* \<lparr>fifo = kfifo_reset ex_fifo, prod = PIdle, cons = CIdle, produced = [], consumed = []\<rparr> s \<and>
    produced s = [7] \<and> consumed s @ contents (fifo s) = [7]"
proof -
  let ?s0 = "\<lparr>fifo = kfifo_reset ex_fifo, prod = PIdle, cons = CIdle, produced = [], consumed = []\<rparr>"
  have ok: "kfifo_ok (kfifo_reset ex_fifo)" "contents (kfifo_reset ex_fifo) = []"
    by (simp_all add: kfifo_ok_def ex_fifo_def is_power_of_2_def kfifo_reset_def contents_def)
  have "spsc_step ?s0 (?s0\<lparr>prod := PCopy [7] 0\<rparr>)"
    using spsc_step.put_start [of ?s0 1 "[7]" "kfifo_reset ex_fifo"] by (simp add: ex_fifo_def kfifo_reset_def)
  moreover have "spsc_step (?s0\<lparr>prod := PCopy [7] 0\<rparr>)
      (?s0\<lparr>fifo := (kfifo_reset ex_fifo)\<lparr>fifo_buffer := [7, 2, 3, 4]\<rparr>, prod := PCopy [7] 1\<rparr>)"
    using spsc_step.put_byte [of "?s0\<lparr>prod := PCopy [7] 0\<rparr>" "[7]" 0 "kfifo_reset ex_fifo"]
    by (simp add: ex_fifo_def kfifo_reset_def copy_pos_def Let_def)
  moreover have "\<exists>s. spsc_step (?s0\<lparr>fifo := (kfifo_reset ex_fifo)\<lparr>fifo_buffer := [7, 2, 3, 4]\<rparr>, prod := PCopy [7] 1\<rparr>) s \<and>
      produced s = [7]"
    by (rule exI, rule conjI, rule spsc_step.put_done) simp_all
  ultimately obtain s where s: "spsc_step\<^sup>*\<^sup>* ?s0 s" "produced s = [7]" by (meson converse_rtranclp_into_rtranclp r_into_rtranclp)
  with spsc_keeps_order [OF s(1) ok] show ?thesis by metis
qed

text \<open>
  C38. \<open>kfifo_alloc\<close> of a size from 1 to \<open>0x80000000\<close> gives an empty FIFO whose size is the smallest power
  of two that is large enough, whatever buffers \<open>kmalloc\<close> returns.
\<close>

theorem kfifo_alloc_rounds_up:
  assumes "0 < n" "n \<le> 0x80000000" "\<And>m. \<exists>b. kmalloc m = Some b \<and> length b = unat m"
  shows "\<exists>f. kfifo_alloc True kmalloc n = Some (Inr f) \<and> kfifo_ok f \<and> contents f = [] \<and>
    unat n \<le> unat (fifo_size f) \<and> unat (fifo_size f) < 2 * unat n"
  using assms by (intro kfifo_alloc_ok) (auto simp: word_le_nat_alt word_less_nat_alt)

theorem kfifo_alloc_rounds_up_witness:
  "\<exists>f. kfifo_alloc True (\<lambda>m. Some (replicate (unat m) 0)) 5 = Some (Inr f) \<and> kfifo_ok f \<and> 5 \<le> unat (fifo_size f) \<and>
     unat (fifo_size f) < 10"
  using kfifo_alloc_rounds_up [of 5 "\<lambda>m. Some (replicate (unat m) 0)"] by auto

end
