(* ===== verification/Logger.thy ===== *)
theory Logger
  imports Ring
begin

text \<open>
  The Android logger (\<open>drivers/staging/android/logger.c\<close>): three logs, each a ring of variable-length
  entries with any number of readers at their own offsets and writers that never wait. Offsets and
  sizes are natural numbers: the logs have 256 KiB and no sum in the code comes near \<open>2 ^ 32\<close>.
  Every operation runs under the log's mutex and is one function; where the code looks at the
  log outside of the mutex (\<open>orig\<close> in \<open>logger_aio_write\<close>, the two critical sections of
  \<open>logger_read\<close>) the parts are functions of their own.
\<close>

section \<open>Data\<close>

record logger_entry =
  entry_len :: u16
  entry_pad :: u16
  entry_pid :: u32
  entry_tid :: u32
  entry_sec :: u32
  entry_nsec :: u32

definition le16 :: "u16 \<Rightarrow> u8 list" where
  "le16 w = [ucast w, ucast (drop_bit 8 w)]"

definition le32 :: "u32 \<Rightarrow> u8 list" where
  "le32 w = [ucast w, ucast (drop_bit 8 w), ucast (drop_bit 16 w), ucast (drop_bit 24 w)]"

text \<open>The bytes of the structure on the little-endian target.\<close>

definition header_bytes :: "logger_entry \<Rightarrow> u8 list" where
  "header_bytes h = le16 (entry_len h) @ le16 (entry_pad h) @ le32 (entry_pid h) @ le32 (entry_tid h) @
     le32 (entry_sec h) @ le32 (entry_nsec h)"

definition sizeof_logger_entry :: nat where "sizeof_logger_entry = 20"
definition LOGGER_ENTRY_MAX_LEN :: nat where "LOGGER_ENTRY_MAX_LEN = 4 * 1024"
definition LOGGER_ENTRY_MAX_PAYLOAD :: nat where
  "LOGGER_ENTRY_MAX_PAYLOAD = LOGGER_ENTRY_MAX_LEN - sizeof_logger_entry"

text \<open>A log and its readers: the address of each \<open>struct logger_reader\<close> with its \<open>r_off\<close>, in list order.\<close>

record logger_log =
  log_buffer :: "u8 list"
  readers :: "(nat \<times> nat) list"
  w_off :: nat
  log_head :: nat
  log_size :: nat

definition logger_offset :: "logger_log \<Rightarrow> nat \<Rightarrow> nat" where
  "logger_offset log n = n AND (log_size log - 1)"

definition get_entry_len :: "logger_log \<Rightarrow> nat \<Rightarrow> nat" where
  "get_entry_len log off =
     (let lo = log_buffer log ! off;
          hi = (if log_size log - off = 1 then log_buffer log ! 0 else log_buffer log ! (off + 1))
      in sizeof_logger_entry + unat lo + 256 * unat hi)"

definition set_r_off :: "nat \<Rightarrow> nat \<Rightarrow> logger_log \<Rightarrow> logger_log" where
  "set_r_off rd off log = log\<lparr>readers := map (\<lambda>(i, o'). if i = rd then (i, off) else (i, o')) (readers log)\<rparr>"

section \<open>User memory\<close>

text \<open>
  User memory is a partial function on addresses: \<open>None\<close> faults. \<open>copy_from_user\<close> gives the bytes left
  at the destination (those before the first fault and zeroes behind) and whether all were copied.
\<close>

type_synonym user_mem = "nat \<Rightarrow> u8 option"

definition user_mapped :: "user_mem \<Rightarrow> nat \<Rightarrow> nat \<Rightarrow> bool" where
  "user_mapped m a n \<longleftrightarrow> list_all (\<lambda>i. m (a + i) \<noteq> None) [0..<n]"

definition copy_from_user_bytes :: "user_mem \<Rightarrow> nat \<Rightarrow> nat \<Rightarrow> u8 list \<times> bool" where
  "copy_from_user_bytes m a n =
     (let got = map (\<lambda>i. the (m (a + i))) (takeWhile (\<lambda>i. m (a + i) \<noteq> None) [0..<n])
      in (got @ replicate (n - length got) 0, user_mapped m a n))"

section \<open>Reading\<close>

text \<open>The bytes that \<open>do_read_log_to_user\<close> stores at the user address \<open>buf\<close>, and the log afterwards.\<close>

definition do_read_log_to_user :: "user_mem \<Rightarrow> nat \<Rightarrow> nat \<Rightarrow> nat \<Rightarrow> nat \<Rightarrow> logger_log \<Rightarrow> u8 list kres \<times> logger_log" where
  "do_read_log_to_user m rd off buf cnt log =
     (let len = min cnt (log_size log - off)
      in if \<not> user_mapped m buf len then (Inl EFAULT, log)
         else if cnt \<noteq> len \<and> \<not> user_mapped m (buf + len) (cnt - len) then (Inl EFAULT, log)
         else (Inr (take len (drop off (log_buffer log)) @ take (cnt - len) (log_buffer log)),
               set_r_off rd (logger_offset log (off + cnt)) log))"

text \<open>
  \<open>logger_read\<close>: the first critical section decides whether to go on, the second takes the entry, or
  finds that the log has become empty and starts again.
\<close>

datatype read_step = Proceed | Sleep | Fail errno
datatype read_result = Restart | Return "u8 list kres"

definition logger_read_wait :: "bool \<Rightarrow> bool \<Rightarrow> nat \<Rightarrow> logger_log \<Rightarrow> read_step" where
  "logger_read_wait nonblock signal off log =
     (if w_off log \<noteq> off then Proceed else if nonblock then Fail EAGAIN else if signal then Fail EINTR else Sleep)"

definition logger_read_locked :: "user_mem \<Rightarrow> nat \<Rightarrow> nat \<Rightarrow> nat \<Rightarrow> nat \<Rightarrow> logger_log \<Rightarrow> read_result \<times> logger_log" where
  "logger_read_locked m rd off buf cnt log =
     (if w_off log = off then (Restart, log)
      else let n = get_entry_len log off
           in if cnt < n then (Return (Inl EINVAL), log)
              else case do_read_log_to_user m rd off buf n log of (r, log') \<Rightarrow> (Return r, log'))"

section \<open>Writing\<close>

text \<open>\<open>get_next_entry\<close>; the loop runs at least once.\<close>

function get_next_entry_loop :: "logger_log \<Rightarrow> nat \<Rightarrow> nat \<Rightarrow> nat \<Rightarrow> nat" where
  "get_next_entry_loop log off cnt len =
     (let nr = get_entry_len log off;
          off' = logger_offset log (off + nr)
      in if cnt + nr < len then get_next_entry_loop log off' (cnt + nr) len else off')"
  by pat_completeness auto
termination
  by (relation "measure (\<lambda>(log, off, cnt, len). len - cnt)")
    (auto simp: get_entry_len_def sizeof_logger_entry_def Let_def)

declare get_next_entry_loop.simps [simp del]

definition get_next_entry :: "logger_log \<Rightarrow> nat \<Rightarrow> nat \<Rightarrow> nat" where
  "get_next_entry log off len = get_next_entry_loop log off 0 len"

definition clock_interval :: "nat \<Rightarrow> nat \<Rightarrow> nat \<Rightarrow> bool" where
  "clock_interval a b c = (if b < a then a < c \<or> b \<ge> c else a < c \<and> b \<ge> c)"

definition fix_up_readers :: "nat \<Rightarrow> logger_log \<Rightarrow> logger_log" where
  "fix_up_readers len log =
     (let old = w_off log; new = logger_offset log (old + len);
          pull = (\<lambda>off. if clock_interval old new off then get_next_entry log off len else off)
      in log\<lparr>log_head := pull (log_head log), readers := map (\<lambda>(rd, off). (rd, pull off)) (readers log)\<rparr>)"

definition do_write_log :: "u8 list \<Rightarrow> logger_log \<Rightarrow> logger_log" where
  "do_write_log buf log =
     (let cnt = length buf;
          len = min cnt (log_size log - w_off log);
          b1 = memcpy (log_buffer log) (w_off log) (take len buf);
          b2 = (if cnt \<noteq> len then memcpy b1 0 (drop len buf) else b1)
      in log\<lparr>log_buffer := b2, w_off := logger_offset log (w_off log + cnt)\<rparr>)"

text \<open>
  A byte at an index from the start of the buffer; past its end it is whatever memory follows,
  which is the parameter \<open>behind\<close>. \<open>klog_copy\<close> is the block marked \<open>[LINUSYS]\<close> in the code.
\<close>

definition byte_at :: "(nat \<Rightarrow> u8) \<Rightarrow> logger_log \<Rightarrow> nat \<Rightarrow> u8" where
  "byte_at behind log i = (if i < log_size log then log_buffer log ! i else behind (i - log_size log))"

definition klog_mark :: "u8 list" where "klog_mark = [0x21, 0x40]"

definition klog_copy :: "(nat \<Rightarrow> u8) \<Rightarrow> nat \<Rightarrow> logger_log \<Rightarrow> u8 list \<Rightarrow> u8 list" where
  "klog_copy behind cnt log klog =
     (let k0 = replicate 255 0 @ drop 255 klog
      in if [byte_at behind log (w_off log), byte_at behind log (w_off log + 1)] = klog_mark
         then (memcpy k0 0 (map (\<lambda>i. byte_at behind log (w_off log + i)) [0..<if cnt < 255 then cnt else 255]))[255 := 0]
         else k0)"

definition do_write_log_from_user ::
  "(nat \<Rightarrow> u8) \<Rightarrow> user_mem \<Rightarrow> nat \<Rightarrow> nat \<Rightarrow> logger_log \<times> u8 list \<Rightarrow> nat kres \<times> logger_log \<times> u8 list" where
  "do_write_log_from_user behind m buf cnt st =
     (let (log, klog) = st;
          len = min cnt (log_size log - w_off log);
          (d1, ok1) = copy_from_user_bytes m buf len;
          log1 = log\<lparr>log_buffer := memcpy (log_buffer log) (w_off log) d1\<rparr>
      in if len \<noteq> 0 \<and> \<not> ok1 then (Inl EFAULT, log1, klog)
         else let (d2, ok2) = copy_from_user_bytes m (buf + len) (cnt - len);
                  log2 = (if cnt \<noteq> len then log1\<lparr>log_buffer := memcpy (log_buffer log1) 0 d2\<rparr> else log1)
              in if cnt \<noteq> len \<and> \<not> ok2 then (Inl EFAULT, log2, klog)
                 else (Inr cnt, log2\<lparr>w_off := logger_offset log2 (w_off log2 + cnt)\<rparr>, klog_copy behind cnt log2 klog))"

fun write_segments ::
  "(nat \<Rightarrow> u8) \<Rightarrow> user_mem \<Rightarrow> nat \<Rightarrow> nat \<Rightarrow> (nat \<times> nat) list \<Rightarrow> nat \<Rightarrow> logger_log \<times> u8 list \<Rightarrow>
   nat kres \<times> logger_log \<times> u8 list" where
  "write_segments behind m orig hlen [] ret st = (Inr ret, st)"
| "write_segments behind m orig hlen ((base, iov_len) # iov) ret st =
     (case do_write_log_from_user behind m base (min iov_len (hlen - ret)) st of
        (Inl e, log, klog) \<Rightarrow> (Inl e, log\<lparr>w_off := orig\<rparr>, klog)
      | (Inr nr, st') \<Rightarrow> write_segments behind m orig hlen iov (ret + nr) st')"

text \<open>The part of \<open>logger_aio_write\<close> under the mutex; \<open>orig\<close> was read before it was taken.\<close>

definition logger_write_locked ::
  "(nat \<Rightarrow> u8) \<Rightarrow> user_mem \<Rightarrow> nat \<Rightarrow> logger_entry \<Rightarrow> (nat \<times> nat) list \<Rightarrow> logger_log \<times> u8 list \<Rightarrow>
   nat kres \<times> logger_log \<times> u8 list" where
  "logger_write_locked behind m orig h iov st =
     (let (log, klog) = st;
          log1 = fix_up_readers (sizeof_logger_entry + unat (entry_len h)) log;
          log2 = do_write_log (header_bytes h) log1
      in write_segments behind m orig (unat (entry_len h)) iov 0 (log2, klog))"

section \<open>The device\<close>

text \<open>
  The three logs, their minor numbers, the buffer \<open>klog_buf\<close> they share, and what \<open>printk\<close> was given.
  \<open>private_data\<close> of a file is a reader of a log if it was opened for reading and the log itself if not.
\<close>

datatype log_name = Log_main | Log_events | Log_radio
datatype private_data = Reader log_name nat | Log log_name

record lfile =
  f_read :: bool
  f_write :: bool
  f_private :: private_data

record logger =
  logs :: "log_name \<Rightarrow> logger_log"
  minor :: "log_name \<Rightarrow> nat"
  klog_buf :: "u8 list"
  console :: "u8 list list"

definition file_get_log :: "lfile \<Rightarrow> log_name" where
  "file_get_log f = (case f_private f of Reader l rd \<Rightarrow> l | Log l \<Rightarrow> l)"

definition r_off :: "logger_log \<Rightarrow> nat \<Rightarrow> nat" where
  "r_off log rd = the (map_of (readers log) rd)"

definition upd_log :: "log_name \<Rightarrow> logger_log \<Rightarrow> logger \<Rightarrow> logger" where
  "upd_log l log dev = dev\<lparr>logs := (logs dev)(l := log)\<rparr>"

definition get_log_from_minor :: "nat \<Rightarrow> logger \<Rightarrow> log_name option" where
  "get_log_from_minor n dev =
     (if minor dev Log_main = n then Some Log_main
      else if minor dev Log_events = n then Some Log_events
      else if minor dev Log_radio = n then Some Log_radio else None)"

text \<open>
  \<open>kmalloc\<close> is the address of a new reader, or nothing. The time, the ids of the caller and the two bytes
  of padding, which the code does not initialise, come with the call.
\<close>

definition logger_open :: "nat option \<Rightarrow> nat \<Rightarrow> bool \<Rightarrow> bool \<Rightarrow> logger \<Rightarrow> lfile kres \<times> logger" where
  "logger_open kmalloc n rmode wmode dev =
     (case get_log_from_minor n dev of
        None \<Rightarrow> (Inl ENODEV, dev)
      | Some l \<Rightarrow>
          if rmode
          then (case kmalloc of
                  None \<Rightarrow> (Inl ENOMEM, dev)
                | Some rd \<Rightarrow>
                    let log = logs dev l
                    in (Inr \<lparr>f_read = rmode, f_write = wmode, f_private = Reader l rd\<rparr>,
                        upd_log l (log\<lparr>readers := readers log @ [(rd, log_head log)]\<rparr>) dev))
          else (Inr \<lparr>f_read = rmode, f_write = wmode, f_private = Log l\<rparr>, dev))"

definition logger_release :: "lfile \<Rightarrow> logger \<Rightarrow> logger" where
  "logger_release f dev =
     (case f_private f of
        Reader l rd \<Rightarrow> let log = logs dev l in upd_log l (log\<lparr>readers := filter (\<lambda>(i, _). i \<noteq> rd) (readers log)\<rparr>) dev
      | Log l \<Rightarrow> dev)"

definition POLLIN :: u32 where "POLLIN = 0x0001"
definition POLLOUT :: u32 where "POLLOUT = 0x0004"
definition POLLRDNORM :: u32 where "POLLRDNORM = 0x0040"
definition POLLWRNORM :: u32 where "POLLWRNORM = 0x0100"

definition logger_poll :: "lfile \<Rightarrow> logger \<Rightarrow> u32" where
  "logger_poll f dev =
     (let ret = POLLOUT OR POLLWRNORM
      in case f_private f of
           Log l \<Rightarrow> ret
         | Reader l rd \<Rightarrow> let log = logs dev l
                         in if w_off log \<noteq> r_off log rd then ret OR POLLIN OR POLLRDNORM else ret)"

datatype logger_cmd = LOGGER_GET_LOG_BUF_SIZE | LOGGER_GET_LOG_LEN | LOGGER_GET_NEXT_ENTRY_LEN | LOGGER_FLUSH_LOG | Other_cmd

definition logger_ioctl :: "lfile \<Rightarrow> logger_cmd \<Rightarrow> logger \<Rightarrow> nat kres \<times> logger" where
  "logger_ioctl f cmd dev =
     (let l = file_get_log f; log = logs dev l
      in case cmd of
           LOGGER_GET_LOG_BUF_SIZE \<Rightarrow> (Inr (log_size log), dev)
         | LOGGER_GET_LOG_LEN \<Rightarrow>
             (case f_private f of
                Log _ \<Rightarrow> (Inl EBADF, dev)
              | Reader _ rd \<Rightarrow>
                  (Inr (if w_off log \<ge> r_off log rd then w_off log - r_off log rd
                        else log_size log - r_off log rd + w_off log), dev))
         | LOGGER_GET_NEXT_ENTRY_LEN \<Rightarrow>
             (case f_private f of
                Log _ \<Rightarrow> (Inl EBADF, dev)
              | Reader _ rd \<Rightarrow>
                  (Inr (if w_off log \<noteq> r_off log rd then get_entry_len log (r_off log rd) else 0), dev))
         | LOGGER_FLUSH_LOG \<Rightarrow>
             if \<not> f_write f then (Inl EBADF, dev)
             else (Inr 0, upd_log l (log\<lparr>readers := map (\<lambda>(rd, _). (rd, w_off log)) (readers log),
                                         log_head := w_off log\<rparr>) dev)
         | Other_cmd \<Rightarrow> (Inl ENOTTY, dev))"

text \<open>\<open>logger_read\<close>, for a caller that finds the log as it was when it looked the first time.\<close>

definition logger_read :: "user_mem \<Rightarrow> bool \<Rightarrow> bool \<Rightarrow> log_name \<Rightarrow> nat \<Rightarrow> nat \<Rightarrow> nat \<Rightarrow> logger \<Rightarrow> u8 list kres option \<times> logger" where
  "logger_read m nonblock signal l rd buf cnt dev =
     (let log = logs dev l
      in case logger_read_wait nonblock signal (r_off log rd) log of
           Sleep \<Rightarrow> (None, dev)
         | Fail e \<Rightarrow> (Some (Inl e), dev)
         | Proceed \<Rightarrow> (case logger_read_locked m rd (r_off log rd) buf cnt log of
                        (Restart, log') \<Rightarrow> (None, upd_log l log' dev)
                      | (Return r, log') \<Rightarrow> (Some r, upd_log l log' dev)))"

text \<open>What \<open>printk\<close> writes of a buffer: the bytes before the first zero.\<close>

definition c_string :: "u8 list \<Rightarrow> u8 list" where
  "c_string bs = takeWhile (\<lambda>b. b \<noteq> 0) bs"

definition header_len :: "nat \<Rightarrow> u16" where
  "header_len ki_left = of_nat (min ki_left LOGGER_ENTRY_MAX_PAYLOAD)"

definition logger_aio_write ::
  "(nat \<Rightarrow> u8) \<Rightarrow> user_mem \<Rightarrow> nat \<Rightarrow> nat \<Rightarrow> logger_entry \<Rightarrow> (nat \<times> nat) list \<Rightarrow> lfile \<Rightarrow> logger \<Rightarrow> nat kres \<times> logger" where
  "logger_aio_write behind m orig ki_left h0 iov f dev =
     (let l = file_get_log f; h = h0\<lparr>entry_len := header_len ki_left\<rparr>
      in if entry_len h = 0 then (Inr 0, dev)
         else case logger_write_locked behind m orig h iov (logs dev l, klog_buf dev) of
                (Inl e, log, klog) \<Rightarrow> (Inl e, (upd_log l log dev)\<lparr>klog_buf := klog\<rparr>)
              | (Inr n, log, klog) \<Rightarrow>
                  (Inr n, (upd_log l log dev)\<lparr>klog_buf := klog,
                     console := (if take 2 klog = klog_mark then console dev @ [c_string klog] else console dev)\<rparr>))"

end
