(* ===== verification/LoggerOk.thy ===== *)
theory LoggerOk
  imports Logger
begin

text \<open>
  Correctness of the logger. The abstract state of a log is, for the start of new readers and for each
  reader, the list of whole entries that are still to be read; \<open>make_room\<close> says which of them a write
  drops. The lemmas show that the bytes in the ring always split into those entries.
\<close>

section \<open>Entries in the ring\<close>

definition is_entry :: "u8 list \<Rightarrow> bool" where
  "is_entry e \<longleftrightarrow> sizeof_logger_entry < length e \<and> length e \<le> LOGGER_ENTRY_MAX_LEN \<and>
     length e = sizeof_logger_entry + unat (e ! 0) + 256 * unat (e ! 1)"

definition size_ok :: "logger_log \<Rightarrow> bool" where
  "size_ok log \<longleftrightarrow> (\<exists>k. log_size log = 2 ^ k) \<and> 2 * LOGGER_ENTRY_MAX_LEN \<le> log_size log \<and>
     length (log_buffer log) = log_size log \<and> w_off log < log_size log"

definition unread :: "logger_log \<Rightarrow> nat \<Rightarrow> u8 list" where
  "unread log off = ring_read (log_buffer log) off (dist (log_size log) off (w_off log))"

text \<open>The entries \<open>es\<close> are what is stored from \<open>off\<close> to the write head.\<close>

definition holds :: "logger_log \<Rightarrow> nat \<Rightarrow> u8 list list \<Rightarrow> bool" where
  "holds log off es \<longleftrightarrow> off < log_size log \<and> (\<forall>e\<in>set es. is_entry e) \<and> unread log off = concat es"

lemma size_okD:
  assumes "size_ok log"
  shows "0 < log_size log" "2 \<le> log_size log" "length (log_buffer log) = log_size log" "w_off log < log_size log"
    "logger_offset log n = n mod log_size log" "2 * LOGGER_ENTRY_MAX_LEN \<le> log_size log"
  using assms by (auto simp: size_ok_def logger_offset_def mask_mod LOGGER_ENTRY_MAX_LEN_def)

lemma dist_eq_0: "p < n \<Longrightarrow> q < n \<Longrightarrow> dist n p q = 0 \<longleftrightarrow> p = q"
  by (auto simp: dist_if)

lemma dist_advance:
  assumes "p < n" "q < n" "k \<le> dist n p q"
  shows "dist n ((p + k) mod n) q = dist n p q - k"
proof (cases "p \<le> q")
  case True
  then show ?thesis using assms by (simp add: dist_if)
next
  case False
  then have k: "k \<le> q + n - p" using assms by (simp add: dist_if)
  show ?thesis
  proof (cases "p + k < n")
    case True
    then show ?thesis using assms False by (simp add: dist_if)
  next
    case F2: False
    then have "(p + k) mod n = p + k - n" using assms False k by (simp add: le_mod_geq)
    then show ?thesis using assms False F2 k by (simp add: dist_if)
  qed
qed

lemma length_unread [simp]: "length (unread log off) = dist (log_size log) off (w_off log)"
  by (simp add: unread_def)

lemma unread_drop:
  assumes "size_ok log" "off < log_size log" "k \<le> dist (log_size log) off (w_off log)"
  shows "unread log ((off + k) mod log_size log) = drop k (unread log off)"
proof -
  have "ring_read (log_buffer log) ((off + k) mod log_size log) n = ring_read (log_buffer log) (off + k) n" for n
    using size_okD(3) [OF assms(1)] by (metis ring_read_mod)
  then show ?thesis using assms size_okD(4) [OF assms(1)] by (simp add: unread_def drop_ring_read dist_advance)
qed

lemma holds_Nil:
  assumes "size_ok log"
  shows "holds log off [] \<longleftrightarrow> off = w_off log"
proof
  assume "holds log off []"
  then have "off < log_size log" "length (unread log off) = 0" by (auto simp: holds_def)
  then show "off = w_off log" using dist_eq_0 size_okD(4) [OF assms] by simp
next
  assume "off = w_off log"
  then show "holds log off []" using size_okD(1,4) [OF assms] by (simp add: holds_def unread_def)
qed

lemma holds_total: "holds log off es \<Longrightarrow> length (concat es) = dist (log_size log) off (w_off log)"
  by (metis holds_def length_unread)

lemma holds_Cons:
  assumes l: "size_ok log" and h: "holds log off (e # es)"
  shows "get_entry_len log off = length e" "off \<noteq> w_off log" "holds log (logger_offset log (off + length e)) es"
proof -
  let ?n = "log_size log" and ?d = "dist (log_size log) off (w_off log)"
  have o: "off < ?n" "is_entry e" "unread log off = e @ concat es" using h by (auto simp: holds_def)
  have d: "?d = length e + length (concat es)" using holds_total [OF h] by simp
  have e2: "2 < length e" using o(2) by (auto simp: is_entry_def sizeof_logger_entry_def)
  have at: "log_buffer log ! ((off + i) mod ?n) = e ! i" if "i < length e" for i
  proof -
    have "unread log off ! i = log_buffer log ! ((off + i) mod ?n)"
      using that d size_okD(3) [OF l] by (simp add: unread_def)
    then show ?thesis using o(3) that by (simp add: nth_append)
  qed
  have "log_buffer log ! off = e ! 0" using at [of 0] e2 o(1) by (cases e) auto
  moreover have "(if ?n - off = 1 then log_buffer log ! 0 else log_buffer log ! (off + 1)) = e ! 1"
  proof (cases "?n - off = 1")
    case True
    then have "off + 1 = ?n" using o(1) by linarith
    then show ?thesis using at [of 1] e2 True by simp
  next
    case False
    then have "off + 1 < ?n" using o(1) by linarith
    then show ?thesis using at [of 1] e2 False by simp
  qed
  ultimately show "get_entry_len log off = length e"
    using o(2) unfolding get_entry_len_def Let_def by (simp add: is_entry_def)
  show "off \<noteq> w_off log" using d e2 size_okD(1) [OF l] by auto
  have "unread log ((off + length e) mod ?n) = drop (length e) (unread log off)" using l o(1) d by (intro unread_drop) auto
  then show "holds log (logger_offset log (off + length e)) es"
    using h o size_okD [OF l] by (simp add: holds_def)
qed

section \<open>Splitting bytes into entries\<close>

function split_entries :: "u8 list \<Rightarrow> u8 list list" where
  "split_entries bs =
     (if length bs < sizeof_logger_entry then []
      else let n = sizeof_logger_entry + unat (bs ! 0) + 256 * unat (bs ! 1)
           in take n bs # split_entries (drop n bs))"
  by pat_completeness auto
termination
  by (relation "measure length") (auto simp: sizeof_logger_entry_def)

declare split_entries.simps [simp del]

lemma split_concat: "\<forall>e\<in>set es. is_entry e \<Longrightarrow> split_entries (concat es) = es"
proof (induction es)
  case Nil
  show ?case by (simp add: split_entries.simps sizeof_logger_entry_def)
next
  case (Cons e es)
  then have IH: "split_entries (concat es) = es" and e: "is_entry e" by simp_all
  have "(e @ concat es) ! 0 = e ! 0" "(e @ concat es) ! 1 = e ! 1"
    using e by (auto simp: is_entry_def sizeof_logger_entry_def nth_append)
  then have "sizeof_logger_entry + unat ((e @ concat es) ! 0) + 256 * unat ((e @ concat es) ! 1) = length e"
    using e by (simp add: is_entry_def)
  then have "split_entries (e @ concat es) = take (length e) (e @ concat es) # split_entries (drop (length e) (e @ concat es))"
    using e by (subst split_entries.simps) (simp add: Let_def is_entry_def)
  then show ?case using IH by simp
qed

definition pending :: "logger_log \<Rightarrow> nat \<Rightarrow> u8 list list" where
  "pending log off = split_entries (unread log off)"

lemma holds_pending: "holds log off es \<Longrightarrow> pending log off = es"
  by (simp add: holds_def pending_def split_concat)

section \<open>Making room\<close>

text \<open>Dropping entries from the front until at least \<open>n\<close> bytes are gone.\<close>

fun drop_bytes :: "nat \<Rightarrow> u8 list list \<Rightarrow> u8 list list" where
  "drop_bytes n [] = []"
| "drop_bytes n (e # es) = (if length e < n then drop_bytes (n - length e) es else es)"

definition make_room :: "nat \<Rightarrow> nat \<Rightarrow> u8 list list \<Rightarrow> u8 list list" where
  "make_room cap n es = (if es \<noteq> [] \<and> cap \<le> length (concat es) + n then drop_bytes n es else es)"

lemma drop_bytes_length: "length (concat (drop_bytes n es)) \<le> length (concat es) - n"
  by (induction n es rule: drop_bytes.induct) auto

lemma make_room_fits:
  assumes "length (concat es) < cap" "0 < n" "n < cap"
  shows "length (concat (make_room cap n es)) + n < cap"
  using assms drop_bytes_length [of n es] by (auto simp: make_room_def)

lemma suffix_drop_bytes: "\<exists>k. drop_bytes n es = drop k es"
proof (induction n es rule: drop_bytes.induct)
  case (2 n e es)
  then show ?case by (metis drop0 drop_Suc_Cons drop_bytes.simps(2))
qed auto

lemma next_entry_loop:
  assumes "size_ok log" "holds log off es" "cnt < len" "len - cnt \<le> length (concat es)"
  shows "holds log (get_next_entry_loop log off cnt len) (drop_bytes (len - cnt) es)"
  using assms(2-4)
proof (induction es arbitrary: off cnt)
  case (Cons e es)
  note step = holds_Cons [OF assms(1) Cons.prems(1)]
  show ?case
  proof (cases "cnt + length e < len")
    case True
    have "holds log (get_next_entry_loop log (logger_offset log (off + length e)) (cnt + length e) len)
        (drop_bytes (len - (cnt + length e)) es)"
      using True Cons.prems step by (intro Cons.IH) auto
    moreover have "length e < len - cnt" using True by linarith
    ultimately show ?thesis using True step
      by (subst get_next_entry_loop.simps) (simp add: Let_def diff_diff_add)
  next
    case False
    then have "\<not> length e < len - cnt" by linarith
    then show ?thesis using step False by (subst get_next_entry_loop.simps) (simp add: Let_def)
  qed
qed simp

lemma clock_interval_dist:
  assumes "a < n" "c < n" "0 < len" "len < n"
  shows "clock_interval a ((a + len) mod n) c \<longleftrightarrow> c \<noteq> a \<and> dist n a c \<le> len"
proof (cases "a + len < n")
  case True
  then show ?thesis using assms by (auto simp: clock_interval_def dist_if)
next
  case False
  then have "(a + len) mod n = a + len - n" using assms by (simp add: le_mod_geq)
  then show ?thesis using assms False by (auto simp: clock_interval_def dist_if)
qed

lemma dist_swap: "p < n \<Longrightarrow> q < n \<Longrightarrow> p \<noteq> q \<Longrightarrow> dist n p q + dist n q p = n"
  by (auto simp: dist_if)

definition pull :: "nat \<Rightarrow> logger_log \<Rightarrow> nat \<Rightarrow> nat" where
  "pull len log off =
     (if clock_interval (w_off log) (logger_offset log (w_off log + len)) off then get_next_entry log off len else off)"

lemma fix_up_readers_pull:
  "fix_up_readers len log =
     log\<lparr>log_head := pull len log (log_head log), readers := map (\<lambda>(rd, off). (rd, pull len log off)) (readers log)\<rparr>"
  by (simp add: fix_up_readers_def pull_def Let_def)

lemma pull_holds:
  assumes l: "size_ok log" and h: "holds log off es" and n: "0 < n" "n \<le> LOGGER_ENTRY_MAX_LEN"
  shows "holds log (pull n log off) (make_room (log_size log) n es)"
proof -
  let ?s = "log_size log" and ?w = "w_off log"
  have o: "off < ?s" using h by (simp add: holds_def)
  have s: "2 * n \<le> ?s" "?w < ?s" "n < ?s" using n size_okD [OF l] by auto
  have t: "length (concat es) = dist ?s off ?w" by (rule holds_total [OF h])
  have c: "clock_interval ?w (logger_offset log (?w + n)) off \<longleftrightarrow> off \<noteq> ?w \<and> ?s \<le> length (concat es) + n"
    using clock_interval_dist [OF s(2) o n(1) s(3)] dist_swap [OF o s(2)] size_okD(5) [OF l] t by auto
  have ne: "es = [] \<longleftrightarrow> off = ?w"
  proof
    show "es = [] \<Longrightarrow> off = ?w" using h holds_Nil [OF l] by simp
    assume "off = ?w"
    then have "length (concat es) = 0" using t s(2) by simp
    moreover have "e \<in> set es \<Longrightarrow> 0 < length e" for e using h by (auto simp: holds_def is_entry_def)
    ultimately show "es = []" by (cases es) auto
  qed
  show ?thesis
  proof (cases "es \<noteq> [] \<and> ?s \<le> length (concat es) + n")
    case True
    then have "holds log (get_next_entry log off n) (drop_bytes n es)"
      using next_entry_loop [OF l h n(1)] s by (simp add: get_next_entry_def)
    then show ?thesis using True c ne unfolding pull_def make_room_def by simp
  next
    case False
    then show ?thesis using h c ne unfolding pull_def make_room_def by auto
  qed
qed

section \<open>Writing bytes\<close>

lemma do_write_log_eq:
  assumes "size_ok log" "length bs \<le> log_size log"
  shows "do_write_log bs log = log\<lparr>log_buffer := ring_write (log_buffer log) (w_off log) bs,
    w_off := (w_off log + length bs) mod log_size log\<rparr>"
proof -
  have e: "memcpy b 0 [] = b" for b :: "u8 list" by (simp add: memcpy_def)
  show ?thesis using size_okD [OF assms(1)]
    by (auto simp: do_write_log_def ring_write_def Let_def e)
qed

definition user_bytes :: "user_mem \<Rightarrow> nat \<Rightarrow> nat \<Rightarrow> u8 list" where
  "user_bytes m a n = map (\<lambda>i. the (m (a + i))) [0..<n]"

lemma length_user_bytes [simp]: "length (user_bytes m a n) = n"
  by (simp add: user_bytes_def)

lemma copy_mapped: "user_mapped m a n \<Longrightarrow> copy_from_user_bytes m a n = (user_bytes m a n, True)"
  by (simp add: copy_from_user_bytes_def user_mapped_def user_bytes_def Let_def list_all_iff takeWhile_eq_all_conv [THEN iffD2])

lemma copy_length: "length (fst (copy_from_user_bytes m a n)) = n"
proof -
  have "length (takeWhile P [0..<n]) \<le> n" for P using length_takeWhile_le [of P "[0..<n]"] by simp
  then show ?thesis by (simp add: copy_from_user_bytes_def Let_def)
qed

lemma user_mapped_iff: "user_mapped m a n \<longleftrightarrow> (\<forall>i<n. m (a + i) \<noteq> None)"
  by (auto simp: user_mapped_def list_all_iff)

lemma user_mapped_add: "user_mapped m a (n + k) \<longleftrightarrow> user_mapped m a n \<and> user_mapped m (a + n) k"
proof -
  have "(\<forall>i<n + k. P i) \<longleftrightarrow> (\<forall>i<n. P i) \<and> (\<forall>i<k. P (n + i))" for P
    by (metis add_diff_inverse_nat nat_add_left_cancel_less trans_less_add1)
  from this [of "\<lambda>i. m (a + i) \<noteq> None"] show ?thesis by (simp add: user_mapped_iff add.assoc)
qed

lemma user_bytes_add: "user_bytes m a (n + k) = user_bytes m a n @ user_bytes m (a + n) k"
  by (rule nth_equalityI) (auto simp: user_bytes_def nth_append add.assoc)

lemma write_from_user_cases:
  assumes "len = min cnt (log_size log - w_off log)" "copy_from_user_bytes m buf len = (d1, ok1)"
    "copy_from_user_bytes m (buf + len) (cnt - len) = (d2, ok2)"
    "b1 = memcpy (log_buffer log) (w_off log) d1" "b2 = (if cnt \<noteq> len then memcpy b1 0 d2 else b1)"
  shows "do_write_log_from_user behind m buf cnt (log, klog) =
    (if len \<noteq> 0 \<and> \<not> ok1 then (Inl EFAULT, log\<lparr>log_buffer := b1\<rparr>, klog)
     else if cnt \<noteq> len \<and> \<not> ok2 then (Inl EFAULT, log\<lparr>log_buffer := b2\<rparr>, klog)
     else (Inr cnt, log\<lparr>log_buffer := b2, w_off := logger_offset log (w_off log + cnt)\<rparr>,
           klog_copy behind cnt (log\<lparr>log_buffer := b2\<rparr>) klog))"
  using assms by (simp add: do_write_log_from_user_def logger_offset_def Let_def)

lemma write_from_user_mapped:
  assumes l: "size_ok log" and n: "cnt \<le> log_size log" and m: "user_mapped m buf cnt"
  shows "\<exists>klog'. do_write_log_from_user behind m buf cnt (log, klog) =
    (Inr cnt, log\<lparr>log_buffer := ring_write (log_buffer log) (w_off log) (user_bytes m buf cnt),
       w_off := (w_off log + cnt) mod log_size log\<rparr>, klog')"
proof -
  define len where "len = min cnt (log_size log - w_off log)"
  have len: "len \<le> cnt" by (simp add: len_def)
  then have u: "user_mapped m buf len" "user_mapped m (buf + len) (cnt - len)"
    "user_bytes m buf cnt = user_bytes m buf len @ user_bytes m (buf + len) (cnt - len)"
    using m user_mapped_add [of m buf len "cnt - len"] user_bytes_add [of m buf len "cnt - len"] by simp_all
  let ?d1 = "user_bytes m buf len" and ?d2 = "user_bytes m (buf + len) (cnt - len)"
  have r: "ring_write (log_buffer log) (w_off log) (user_bytes m buf cnt) =
      memcpy (memcpy (log_buffer log) (w_off log) ?d1) 0 ?d2"
    unfolding u(3) using len size_okD(3) [OF l] by (intro memcpy_pieces [symmetric]) (simp add: len_def)
  have z: "user_bytes m (buf + len) 0 = []" by (simp add: user_bytes_def)
  show ?thesis unfolding r using size_okD(5) [OF l] z
    by (simp add: write_from_user_cases [OF len_def copy_mapped [OF u(1)] copy_mapped [OF u(2)] refl refl])
qed

lemma write_from_user_fault:
  assumes l: "size_ok log" and n: "cnt \<le> log_size log" and m: "\<not> user_mapped m buf cnt"
  shows "\<exists>b'. do_write_log_from_user behind m buf cnt (log, klog) = (Inl EFAULT, log\<lparr>log_buffer := b'\<rparr>, klog) \<and>
    same_outside (w_off log) cnt (log_buffer log) b'"
proof -
  define len where "len = min cnt (log_size log - w_off log)"
  define d1 where "d1 = fst (copy_from_user_bytes m buf len)"
  define d2 where "d2 = fst (copy_from_user_bytes m (buf + len) (cnt - len))"
  have ok: "copy_from_user_bytes m buf len = (d1, user_mapped m buf len)"
    "copy_from_user_bytes m (buf + len) (cnt - len) = (d2, user_mapped m (buf + len) (cnt - len))"
    by (simp_all add: d1_def d2_def copy_from_user_bytes_def Let_def)
  have d: "length d1 = len" "length d2 = cnt - len" by (simp_all add: d1_def d2_def copy_length)
  have len: "len \<le> cnt" by (simp add: len_def)
  then have f: "\<not> user_mapped m buf len \<or> \<not> user_mapped m (buf + len) (cnt - len)"
    using m user_mapped_add [of m buf len "cnt - len"] by auto
  have L: "length (log_buffer log) = log_size log" "w_off log < log_size log" using size_okD [OF l] by auto
  have w: "memcpy (memcpy (log_buffer log) (w_off log) d1) 0 d2 = ring_write (log_buffer log) (w_off log) (d1 @ d2)"
    using L d len by (intro memcpy_pieces) (simp add: len_def)
  have "memcpy (memcpy (log_buffer log) (w_off log) d1) 0 [] = ring_write (log_buffer log) (w_off log) (d1 @ [])"
    using L d by (intro memcpy_pieces) (auto simp: len_def)
  then have w1: "memcpy (log_buffer log) (w_off log) d1 = ring_write (log_buffer log) (w_off log) d1" by simp
  have s: "same_outside (w_off log) cnt (log_buffer log) (memcpy (log_buffer log) (w_off log) d1)"
    unfolding w1 using same_outside_write [of "w_off log" "log_buffer log" d1] L d len n by (auto simp: same_outside_def)
  have s2: "same_outside (w_off log) cnt (log_buffer log) (memcpy (memcpy (log_buffer log) (w_off log) d1) 0 d2)"
    unfolding w using same_outside_write [of "w_off log" "log_buffer log" "d1 @ d2"] L d len n by simp
  have z: "user_mapped m buf 0" "user_mapped m (buf + len) 0" by (simp_all add: user_mapped_def)
  show ?thesis
  proof (cases "user_mapped m buf len")
    case True
    with f have "\<not> user_mapped m (buf + len) (cnt - len)" by blast
    moreover from this z(2) have "cnt \<noteq> len" by (metis diff_self_eq_0)
    ultimately show ?thesis using True s2 by (auto simp: write_from_user_cases [OF len_def ok refl refl])
  next
    case False
    with z(1) have "len \<noteq> 0" by metis
    then show ?thesis using False s by (auto simp: write_from_user_cases [OF len_def ok refl refl])
  qed
qed

section \<open>Writing an entry\<close>

text \<open>The payload: the bytes of the segments, cut after \<open>n\<close> bytes; and whether all of them can be read.\<close>

fun seg_data :: "user_mem \<Rightarrow> nat \<Rightarrow> (nat \<times> nat) list \<Rightarrow> u8 list" where
  "seg_data m n [] = []"
| "seg_data m n ((base, len) # iov) = user_bytes m base (min len n) @ seg_data m (n - min len n) iov"

fun segs_mapped :: "user_mem \<Rightarrow> nat \<Rightarrow> (nat \<times> nat) list \<Rightarrow> bool" where
  "segs_mapped m n [] \<longleftrightarrow> True"
| "segs_mapped m n ((base, len) # iov) \<longleftrightarrow> user_mapped m base (min len n) \<and> segs_mapped m (n - min len n) iov"

lemma seg_data_length: "length (seg_data m n iov) = min n (sum_list (map snd iov))"
  by (induction m n iov rule: seg_data.induct) (auto simp: min_def)

definition written :: "logger_log \<Rightarrow> u8 list \<Rightarrow> logger_log" where
  "written log bs = log\<lparr>log_buffer := ring_write (log_buffer log) (w_off log) bs,
     w_off := (w_off log + length bs) mod log_size log\<rparr>"

lemma written_ok:
  assumes "size_ok log" "length bs \<le> log_size log"
  shows "size_ok (written log bs)"
  using assms size_okD(1,3,4) [OF assms(1)] by (simp add: written_def size_ok_def)

lemma written_append:
  assumes "size_ok log" "length xs + length ys \<le> log_size log"
  shows "written (written log xs) ys = written log (xs @ ys)"
proof -
  have "ring_write (ring_write (log_buffer log) (w_off log) xs) ((w_off log + length xs) mod log_size log) ys =
      ring_write (log_buffer log) (w_off log) (xs @ ys)"
    using ring_write_append [of "w_off log" "log_buffer log" xs ys] assms size_okD(3,4) [OF assms(1)] by simp
  then show ?thesis by (simp add: written_def mod_simps add.assoc)
qed

lemma written_Nil:
  assumes "size_ok log"
  shows "written log [] = log"
  using size_okD(4) [OF assms] by (simp add: written_def ring_write_def)

lemma write_segments_mapped:
  assumes "size_ok log" "hlen - ret \<le> log_size log" "ret \<le> hlen" "segs_mapped m (hlen - ret) iov"
  shows "\<exists>klog'. write_segments behind m orig hlen iov ret (log, klog) =
    (Inr (ret + length (seg_data m (hlen - ret) iov)), written log (seg_data m (hlen - ret) iov), klog')"
  using assms
proof (induction iov arbitrary: log ret klog)
  case Nil
  then show ?case by (simp add: written_Nil)
next
  case (Cons seg iov)
  obtain base len where seg: "seg = (base, len)" by fastforce
  define k where "k = min len (hlen - ret)"
  have k: "k \<le> hlen - ret" "user_mapped m base k" "segs_mapped m (hlen - ret - k) iov"
    using Cons.prems(4) by (simp_all add: k_def seg)
  let ?log = "written log (user_bytes m base k)" and ?d = "seg_data m (hlen - ret - k) iov"
  have "k \<le> log_size log" using k Cons.prems by linarith
  from write_from_user_mapped [OF Cons.prems(1) this k(2)] obtain klog1 where
    r: "do_write_log_from_user behind m base k (log, klog) = (Inr k, ?log, klog1)" by (auto simp: written_def)
  have sz: "log_size ?log = log_size log" "hlen - (ret + k) = hlen - ret - k" by (simp_all add: written_def)
  have "size_ok ?log" using Cons.prems k by (intro written_ok) auto
  moreover have "hlen - (ret + k) \<le> log_size log" "ret + k \<le> hlen" using Cons.prems k(1) by linarith+
  ultimately obtain klog' where
    "write_segments behind m orig hlen iov (ret + k) (?log, klog1) = (Inr (ret + k + length ?d), written ?log ?d, klog')"
    using Cons.IH [of ?log "ret + k" klog1] k(3) unfolding sz by blast
  moreover have "written ?log ?d = written log (user_bytes m base k @ ?d)"
    using Cons.prems k by (intro written_append) (auto simp: seg_data_length)
  ultimately show ?case using r by (simp add: seg k_def [symmetric] add.assoc)
qed

lemma write_segments_fault:
  assumes "size_ok log" "hlen - ret \<le> log_size log" "ret \<le> hlen" "\<not> segs_mapped m (hlen - ret) iov"
  shows "\<exists>b' klog'. write_segments behind m orig hlen iov ret (log, klog) =
    (Inl EFAULT, log\<lparr>log_buffer := b', w_off := orig\<rparr>, klog') \<and>
    same_outside (w_off log) (hlen - ret) (log_buffer log) b'"
  using assms
proof (induction iov arbitrary: log ret klog)
  case (Cons seg iov)
  obtain base len where seg: "seg = (base, len)" by fastforce
  define k where "k = min len (hlen - ret)"
  have k: "k \<le> hlen - ret" "k \<le> log_size log" using Cons.prems by (auto simp: k_def)
  have L: "length (log_buffer log) = log_size log" "w_off log < log_size log" using size_okD [OF Cons.prems(1)] by auto
  show ?case
  proof (cases "user_mapped m base k")
    case False
    from write_from_user_fault [OF Cons.prems(1) k(2) False] obtain b' where
      r: "do_write_log_from_user behind m base k (log, klog) = (Inl EFAULT, log\<lparr>log_buffer := b'\<rparr>, klog)"
      "same_outside (w_off log) k (log_buffer log) b'" by blast
    have "write_segments behind m orig hlen (seg # iov) ret (log, klog) = (Inl EFAULT, log\<lparr>log_buffer := b', w_off := orig\<rparr>, klog)"
      using r(1) by (simp add: seg k_def [symmetric])
    then show ?thesis using same_outside_mono [OF r(2) k(1)] by blast
  next
    case True
    let ?log = "written log (user_bytes m base k)"
    from write_from_user_mapped [OF Cons.prems(1) k(2) True] obtain klog1 where
      r: "do_write_log_from_user behind m base k (log, klog) = (Inr k, ?log, klog1)" by (auto simp: written_def)
    have sz: "log_size ?log = log_size log" "hlen - (ret + k) = hlen - ret - k" by (simp_all add: written_def)
    have nm: "\<not> segs_mapped m (hlen - (ret + k)) iov" using Cons.prems(4) True by (simp add: seg k_def)
    have "size_ok ?log" using Cons.prems k by (intro written_ok) auto
    moreover have "hlen - (ret + k) \<le> log_size log" "ret + k \<le> hlen" using Cons.prems k(1) by linarith+
    ultimately obtain b' klog' where
      w: "write_segments behind m orig hlen iov (ret + k) (?log, klog1) =
        (Inl EFAULT, ?log\<lparr>log_buffer := b', w_off := orig\<rparr>, klog')"
      "same_outside (w_off ?log) (hlen - ret - k) (log_buffer ?log) b'"
      using Cons.IH [of ?log "ret + k" klog1] nm unfolding sz by blast
    have "same_outside (w_off log) k (log_buffer log) (log_buffer ?log)"
      using same_outside_write [of "w_off log" "log_buffer log" "user_bytes m base k"] L k(2) by (simp add: written_def)
    then have b1: "same_outside (w_off log) (hlen - ret) (log_buffer log) (log_buffer ?log)"
      using k(1) by (rule same_outside_mono)
    have len: "length (log_buffer ?log) = log_size log" using L k(2) by (simp add: written_def)
    have wo: "w_off ?log = (w_off log + k) mod length (log_buffer ?log)" unfolding len by (simp add: written_def)
    have "same_outside (w_off log) (hlen - ret) (log_buffer ?log) b'"
      by (rule same_outside_sub [OF w(2) [unfolded wo]]) (use k(1) L Cons.prems(2) len in linarith)+
    with b1 have "same_outside (w_off log) (hlen - ret) (log_buffer log) b'" by (rule same_outside_trans)
    moreover have "?log\<lparr>log_buffer := b', w_off := orig\<rparr> = log\<lparr>log_buffer := b', w_off := orig\<rparr>" by (simp add: written_def)
    moreover have "write_segments behind m orig hlen (seg # iov) ret (log, klog) = write_segments behind m orig hlen iov (ret + k) (?log, klog1)"
      using r by (simp add: seg k_def [symmetric])
    moreover note w(1)
    ultimately show ?thesis by auto
  qed
qed simp

lemma holds_upd [simp]:
  "holds (log\<lparr>log_head := h\<rparr>) off es = holds log off es" "holds (log\<lparr>readers := r\<rparr>) off es = holds log off es"
  by (simp_all add: holds_def unread_def)

lemma written_upd [simp]:
  "written (log\<lparr>log_head := h\<rparr>) bs = (written log bs)\<lparr>log_head := h\<rparr>"
  "written (log\<lparr>readers := r\<rparr>) bs = (written log bs)\<lparr>readers := r\<rparr>"
  by (simp_all add: written_def)

lemma holds_written:
  assumes l: "size_ok log" and h: "holds log off es" and e: "is_entry e" "length (concat es) + length e < log_size log"
  shows "holds (written log e) off (es @ [e])"
proof -
  let ?n = "log_size log" and ?t = "length (concat es)" and ?b = "ring_write (log_buffer log) (w_off log) e"
  have o: "off < ?n" and t: "dist ?n off (w_off log) = ?t" using h holds_total [OF h] by (auto simp: holds_def)
  have L: "length (log_buffer log) = ?n" "w_off log < ?n" using size_okD [OF l] by auto
  have w: "w_off log = (off + ?t) mod ?n" using add_dist [OF o L(2)] t by simp
  have w2: "(w_off log + length e) mod ?n = (off + (?t + length e)) mod ?n" unfolding w by (simp add: mod_simps add.assoc)
  have d: "dist ?n off ((w_off log + length e) mod ?n) = ?t + length e" unfolding w2 using o e(2) by (intro dist_add)
  have "ring_read ?b off ?t = concat es"
    using ring_read_write_other [of "w_off log" "log_buffer log" off ?t e] o t e(2) L h by (simp add: holds_def unread_def)
  moreover have "ring_read ?b (off + ?t) (length e) = e"
    using ring_read_write [of "w_off log" "log_buffer log" e] ring_read_mod [of ?b "off + ?t" "length e"] w e(2) L by simp
  ultimately have "unread (written log e) off = concat es @ e"
    by (simp add: unread_def written_def d ring_read_add)
  then show ?thesis using h e(1) by (auto simp: holds_def written_def)
qed

lemma holds_outside:
  assumes l: "size_ok log" and h: "holds log off es" and s: "same_outside (w_off log) n (log_buffer log) b'"
    and n: "length (concat es) + n \<le> log_size log"
  shows "holds (log\<lparr>log_buffer := b', w_off := w_off log\<rparr>) off es"
proof -
  have L: "length (log_buffer log) = log_size log" "w_off log < log_size log" using size_okD [OF l] by auto
  have "ring_read b' off (dist (log_size log) off (w_off log)) = ring_read (log_buffer log) off (dist (log_size log) off (w_off log))"
    using ring_read_outside [OF s, of off "dist (log_size log) off (w_off log)"] L h n holds_total [OF h] by (simp add: holds_def)
  then show ?thesis using h by (simp add: holds_def unread_def)
qed

section \<open>Logs and their readers\<close>

definition log_ok :: "logger_log \<Rightarrow> bool" where
  "log_ok log \<longleftrightarrow> size_ok log \<and> distinct (map fst (readers log)) \<and>
     (\<forall>off\<in>insert (log_head log) (snd ` set (readers log)). \<exists>es. holds log off es)"

type_synonym abs_log = "u8 list list \<times> (nat \<times> u8 list list) list"

definition abs_log :: "logger_log \<Rightarrow> abs_log" where
  "abs_log log = (pending log (log_head log), map (\<lambda>(rd, off). (rd, pending log off)) (readers log))"

definition for_all_readers :: "(u8 list list \<Rightarrow> u8 list list) \<Rightarrow> abs_log \<Rightarrow> abs_log" where
  "for_all_readers f a = (f (fst a), map (\<lambda>(rd, es). (rd, f es)) (snd a))"

definition spec_write :: "nat \<Rightarrow> u8 list \<Rightarrow> abs_log \<Rightarrow> abs_log" where
  "spec_write cap e = for_all_readers (\<lambda>es. make_room cap (length e) es @ [e])"

lemma log_mapped:
  assumes l: "log_ok log" and s: "size_ok log'"
    and h: "log_head log' = g (log_head log)" and r: "readers log' = map (\<lambda>(rd, off). (rd, g off)) (readers log)"
    and f: "\<forall>off es. holds log off es \<longrightarrow> holds log' (g off) (f es)"
  shows "log_ok log'" "abs_log log' = for_all_readers f (abs_log log)"
proof -
  have ex: "\<exists>es. holds log off es" if "off \<in> insert (log_head log) (snd ` set (readers log))" for off
    using l that unfolding log_ok_def by blast
  have p: "pending log' (g off) = f (pending log off)" if "off \<in> insert (log_head log) (snd ` set (readers log))" for off
    using ex [OF that] f holds_pending by metis
  have "map fst (readers log') = map fst (readers log)" unfolding r by (auto simp: comp_def split_def)
  moreover have "\<exists>es. holds log' off es" if off: "off \<in> insert (log_head log') (snd ` set (readers log'))" for off
  proof -
    from off obtain off0 where "off = g off0" "off0 \<in> insert (log_head log) (snd ` set (readers log))"
      unfolding h r by force
    then show ?thesis using ex f by blast
  qed
  ultimately show "log_ok log'" using l s unfolding log_ok_def by metis
  have "map (\<lambda>x. (fst x, pending log' (g (snd x)))) (readers log) = map (\<lambda>x. (fst x, f (pending log (snd x)))) (readers log)"
    by (rule map_cong [OF refl]) (simp add: p)
  then show "abs_log log' = for_all_readers f (abs_log log)"
    using p [of "log_head log"] unfolding abs_log_def for_all_readers_def h r by (simp add: split_def comp_def)
qed

lemma length_header [simp]: "length (header_bytes h) = sizeof_logger_entry"
  by (simp add: header_bytes_def le16_def le32_def sizeof_logger_entry_def)

lemma le16_value:
  fixes w :: u16
  shows "unat (ucast w :: u8) + 256 * unat (ucast (drop_bit 8 w) :: u8) = unat w"
proof -
  have lo: "unat (ucast w :: u8) = unat w mod 256" by (simp add: unsigned_ucast_eq take_bit_eq_mod)
  have "unat w < 65536" using unsigned_less [of w] by simp
  then have "unat w div 256 < 256" by simp
  moreover have "unat (drop_bit 8 w) = unat w div 256" by (simp add: drop_bit_eq_div unat_div)
  ultimately have "unat (ucast (drop_bit 8 w) :: u8) = unat w div 256" by (simp add: unsigned_ucast_eq take_bit_eq_mod)
  with lo show ?thesis by simp
qed

lemma entry_is_entry:
  assumes "length d = unat (entry_len h)" "0 < length d" "length d \<le> LOGGER_ENTRY_MAX_PAYLOAD"
  shows "is_entry (header_bytes h @ d)"
proof -
  have "(header_bytes h @ d) ! 0 = ucast (entry_len h)" "(header_bytes h @ d) ! 1 = ucast (drop_bit 8 (entry_len h))"
    by (simp_all add: header_bytes_def le16_def)
  then show ?thesis using assms le16_value [of "entry_len h"]
    by (simp add: is_entry_def LOGGER_ENTRY_MAX_PAYLOAD_def sizeof_logger_entry_def LOGGER_ENTRY_MAX_LEN_def)
qed

lemma fix_up_size_ok: "size_ok log \<Longrightarrow> size_ok (fix_up_readers n log)"
  by (simp add: fix_up_readers_pull size_ok_def)

lemma fix_up_holds:
  assumes "size_ok log" "holds log off es" "0 < n" "n \<le> LOGGER_ENTRY_MAX_LEN"
  shows "holds (fix_up_readers n log) (pull n log off) (make_room (log_size log) n es)"
    "length (concat (make_room (log_size log) n es)) + n < log_size log"
proof -
  show "holds (fix_up_readers n log) (pull n log off) (make_room (log_size log) n es)"
    using pull_holds [OF assms] by (simp add: fix_up_readers_pull)
  have "length (concat es) < log_size log" using holds_total [OF assms(2)] size_okD(1) [OF assms(1)] by simp
  then show "length (concat (make_room (log_size log) n es)) + n < log_size log"
    using assms(3,4) size_okD(6) [OF assms(1)] by (intro make_room_fits) auto
qed

lemma logger_write_ok:
  assumes l: "log_ok log" and n: "n = unat (entry_len h)" "0 < n" "n \<le> LOGGER_ENTRY_MAX_PAYLOAD"
    and iov: "segs_mapped m n iov" "n \<le> sum_list (map snd iov)"
  shows "\<exists>log' klog'. logger_write_locked behind m orig h iov (log, klog) = (Inr n, log', klog') \<and> log_ok log' \<and>
    log_size log' = log_size log \<and> abs_log log' = spec_write (log_size log) (header_bytes h @ seg_data m n iov) (abs_log log) \<and>
    w_off log' = (w_off log + (sizeof_logger_entry + n)) mod log_size log \<and>
    readers log' = map (\<lambda>(rd, off). (rd, pull (sizeof_logger_entry + n) log off)) (readers log)"
proof -
  define d where "d = seg_data m n iov"
  define N where "N = sizeof_logger_entry + n"
  let ?f = "fix_up_readers N log" and ?e = "header_bytes h @ d"
  have so: "size_ok log" using l by (simp add: log_ok_def)
  have N: "0 < N" "N \<le> LOGGER_ENTRY_MAX_LEN" "2 * N \<le> log_size log"
    using n size_okD(6) [OF so] by (simp_all add: N_def LOGGER_ENTRY_MAX_PAYLOAD_def LOGGER_ENTRY_MAX_LEN_def sizeof_logger_entry_def)
  have d: "length d = n" "length ?e = N" using iov(2) by (simp_all add: d_def seg_data_length N_def)
  have fo: "size_ok ?f" "log_size ?f = log_size log" using so by (simp_all add: fix_up_size_ok) (simp add: fix_up_readers_pull)
  have hd: "do_write_log (header_bytes h) ?f = written ?f (header_bytes h)"
    using do_write_log_eq [OF fo(1), of "header_bytes h"] N fo(2) by (simp add: written_def N_def)
  have so1: "size_ok (written ?f (header_bytes h))" using fo N by (intro written_ok) (simp_all add: N_def)
  have sz: "log_size (written ?f (header_bytes h)) = log_size log" using fo by (simp add: written_def)
  have "\<exists>klog'. write_segments behind m orig n iov 0 (written ?f (header_bytes h), klog) =
      (Inr (0 + length (seg_data m (n - 0) iov)), written (written ?f (header_bytes h)) (seg_data m (n - 0) iov), klog')"
    using N so1 sz iov(1) by (intro write_segments_mapped) (auto simp: N_def)
  then obtain klog' where "write_segments behind m orig n iov 0 (written ?f (header_bytes h), klog) = (Inr n, written (written ?f (header_bytes h)) d, klog')"
    using d(1) by (auto simp: d_def)
  moreover have "written (written ?f (header_bytes h)) d = written ?f ?e"
    using fo N d by (intro written_append) (auto simp: N_def)
  ultimately have r: "logger_write_locked behind m orig h iov (log, klog) = (Inr n, written ?f ?e, klog')"
    by (simp add: logger_write_locked_def n(1) [symmetric] N_def [symmetric] hd)
  have e: "is_entry ?e" using n d(1) by (intro entry_is_entry) auto
  have h: "holds (written ?f ?e) (pull N log off) (make_room (log_size log) N es @ [?e])" if "holds log off es" for off es
    using fix_up_holds [OF so that N(1,2)] fo d(2) e by (intro holds_written) auto
  have wo1: "size_ok (written ?f ?e)" by (rule written_ok [OF fo(1)]) (use fo N d in linarith)
  have wo2: "log_size (written ?f ?e) = log_size log" using fo by (simp add: written_def)
  have hr: "log_head (written ?f ?e) = pull N log (log_head log)"
    "readers (written ?f ?e) = map (\<lambda>(rd, off). (rd, pull N log off)) (readers log)"
    by (simp_all add: fix_up_readers_pull written_def)
  note m = log_mapped [OF l wo1 hr, where f = "\<lambda>es. make_room (log_size log) N es @ [?e]"]
  have "log_ok (written ?f ?e)" using h by (intro m(1)) blast
  moreover have "abs_log (written ?f ?e) = spec_write (log_size log) ?e (abs_log log)"
    unfolding spec_write_def d(2) using h by (intro m(2)) blast
  moreover have "w_off (written ?f ?e) = (w_off log + N) mod log_size log"
    using d(2) unfolding written_def fix_up_readers_pull by simp
  ultimately show ?thesis using r wo2 hr(2) unfolding d_def N_def by blast
qed

lemma logger_write_fault:
  assumes l: "log_ok log" and n: "n = unat (entry_len h)" "0 < n" "n \<le> LOGGER_ENTRY_MAX_PAYLOAD"
    and iov: "\<not> segs_mapped m n iov"
  shows "\<exists>log' klog'. logger_write_locked behind m (w_off log) h iov (log, klog) = (Inl EFAULT, log', klog') \<and> log_ok log' \<and>
    log_size log' = log_size log \<and>
    abs_log log' = for_all_readers (make_room (log_size log) (sizeof_logger_entry + n)) (abs_log log)"
proof -
  define N where "N = sizeof_logger_entry + n"
  let ?f = "fix_up_readers N log" and ?h = "header_bytes h"
  have so: "size_ok log" using l by (simp add: log_ok_def)
  have N: "0 < N" "N \<le> LOGGER_ENTRY_MAX_LEN" "2 * N \<le> log_size log"
    using n size_okD(6) [OF so] by (simp_all add: N_def LOGGER_ENTRY_MAX_PAYLOAD_def LOGGER_ENTRY_MAX_LEN_def sizeof_logger_entry_def)
  have fo: "size_ok ?f" "log_size ?f = log_size log" "w_off ?f = w_off log" "log_buffer ?f = log_buffer log"
    using so by (simp_all add: fix_up_size_ok) (simp_all add: fix_up_readers_pull)
  have L: "length (log_buffer log) = log_size log" "w_off log < log_size log" using size_okD [OF so] by auto
  have hd: "do_write_log ?h ?f = written ?f ?h"
    using do_write_log_eq [OF fo(1), of ?h] N fo(2) by (simp add: written_def N_def)
  have so1: "size_ok (written ?f ?h)" using fo N by (intro written_ok) (simp_all add: N_def)
  have sz: "log_size (written ?f ?h) = log_size log" using fo by (simp add: written_def)
  have "\<exists>b' klog'. write_segments behind m (w_off log) n iov 0 (written ?f ?h, klog) =
      (Inl EFAULT, (written ?f ?h)\<lparr>log_buffer := b', w_off := w_off log\<rparr>, klog') \<and>
      same_outside (w_off (written ?f ?h)) (n - 0) (log_buffer (written ?f ?h)) b'"
    using N so1 sz iov by (intro write_segments_fault) (auto simp: N_def)
  then obtain b' klog' where r: "write_segments behind m (w_off log) n iov 0 (written ?f ?h, klog) =
      (Inl EFAULT, (written ?f ?h)\<lparr>log_buffer := b', w_off := w_off log\<rparr>, klog')"
    "same_outside (w_off (written ?f ?h)) n (log_buffer (written ?f ?h)) b'" unfolding diff_zero by blast
  let ?l = "?f\<lparr>log_buffer := b', w_off := w_off ?f\<rparr>"
  have "(written ?f ?h)\<lparr>log_buffer := b', w_off := w_off log\<rparr> = ?l" using fo by (simp add: written_def)
  then have w: "logger_write_locked behind m (w_off log) h iov (log, klog) = (Inl EFAULT, ?l, klog')"
    using r(1) by (simp add: logger_write_locked_def n(1) [symmetric] N_def [symmetric] hd)
  have wb: "log_buffer (written ?f ?h) = ring_write (log_buffer log) (w_off log) ?h"
    "w_off (written ?f ?h) = (w_off log + sizeof_logger_entry) mod log_size log"
    unfolding written_def using fo by simp_all
  have "same_outside (w_off log) (length ?h) (log_buffer log) (ring_write (log_buffer log) (w_off log) ?h)"
    using L N by (intro same_outside_write) (simp_all add: N_def)
  then have s1: "same_outside (w_off log) N (log_buffer log) (log_buffer (written ?f ?h))"
    unfolding wb(1) by (rule same_outside_mono) (simp add: N_def)
  then have len: "length (log_buffer (written ?f ?h)) = log_size log" using L by (simp add: same_outside_def)
  have wo: "w_off (written ?f ?h) = (w_off log + sizeof_logger_entry) mod length (log_buffer (written ?f ?h))"
    unfolding len by (rule wb(2))
  have "same_outside (w_off log) N (log_buffer (written ?f ?h)) b'"
    by (rule same_outside_sub [OF r(2) [unfolded wo]]) (use N L len N_def in linarith)+
  with s1 have s: "same_outside (w_off ?f) N (log_buffer ?f) b'" unfolding fo by (rule same_outside_trans)
  have h: "holds ?l (pull N log off) (make_room (log_size log) N es)" if "holds log off es" for off es
    by (rule holds_outside [OF fo(1) fix_up_holds(1) [OF so that N(1,2)] s])
      (use fix_up_holds(2) [OF so that N(1,2)] fo(2) in simp)
  have so2: "size_ok ?l" using fo(1) s by (simp add: size_ok_def same_outside_def)
  have hr: "log_head ?l = pull N log (log_head log)" "readers ?l = map (\<lambda>(rd, off). (rd, pull N log off)) (readers log)"
    by (simp_all add: fix_up_readers_pull)
  note m = log_mapped [OF l so2 hr, where f = "make_room (log_size log) N"]
  have "log_ok ?l" using h by (intro m(1)) blast
  moreover have "abs_log ?l = for_all_readers (make_room (log_size log) N) (abs_log log)" using h by (intro m(2)) blast
  moreover have "log_size ?l = log_size log" using fo by simp
  ultimately show ?thesis using w unfolding N_def by blast
qed

text \<open>A faulting write of which the offset to go back to was read earlier.\<close>

lemma logger_write_fault_orig:
  assumes l: "size_ok log" and n: "n = unat (entry_len h)" "0 < n" "n \<le> LOGGER_ENTRY_MAX_PAYLOAD"
    and iov: "\<not> segs_mapped m n iov"
  shows "\<exists>log' klog'. logger_write_locked behind m orig h iov (log, klog) = (Inl EFAULT, log', klog') \<and>
    w_off log' = orig \<and> log_size log' = log_size log \<and>
    readers log' = map (\<lambda>(rd, off). (rd, pull (sizeof_logger_entry + n) log off)) (readers log)"
proof -
  define N where "N = sizeof_logger_entry + n"
  let ?f = "fix_up_readers N log" and ?h = "header_bytes h"
  have N: "N \<le> LOGGER_ENTRY_MAX_LEN" "2 * N \<le> log_size log"
    using n size_okD(6) [OF l] by (simp_all add: N_def LOGGER_ENTRY_MAX_PAYLOAD_def LOGGER_ENTRY_MAX_LEN_def sizeof_logger_entry_def)
  have fo: "size_ok ?f" "log_size ?f = log_size log" using l by (simp_all add: fix_up_size_ok) (simp add: fix_up_readers_pull)
  have hd: "do_write_log ?h ?f = written ?f ?h"
    using do_write_log_eq [OF fo(1), of ?h] N fo(2) by (simp add: written_def N_def)
  have so1: "size_ok (written ?f ?h)" using fo N by (intro written_ok) (simp_all add: N_def)
  have sz: "log_size (written ?f ?h) = log_size log" using fo by (simp add: written_def)
  have "\<exists>b' klog'. write_segments behind m orig n iov 0 (written ?f ?h, klog) =
      (Inl EFAULT, (written ?f ?h)\<lparr>log_buffer := b', w_off := orig\<rparr>, klog') \<and>
      same_outside (w_off (written ?f ?h)) (n - 0) (log_buffer (written ?f ?h)) b'"
    using N so1 sz iov by (intro write_segments_fault) (auto simp: N_def)
  then obtain b' klog' where "write_segments behind m orig n iov 0 (written ?f ?h, klog) =
      (Inl EFAULT, (written ?f ?h)\<lparr>log_buffer := b', w_off := orig\<rparr>, klog')" by blast
  then have "logger_write_locked behind m orig h iov (log, klog) =
      (Inl EFAULT, (written ?f ?h)\<lparr>log_buffer := b', w_off := orig\<rparr>, klog')"
    by (simp add: logger_write_locked_def n(1) [symmetric] N_def [symmetric] hd)
  then show ?thesis using fo(2) unfolding N_def by (simp add: written_def fix_up_readers_pull)
qed

end
