(* ===== verification/LoggerSafety.thy ===== *)
theory LoggerSafety
  imports LoggerOk "HOL-Library.Sublist"
begin

text \<open>
  The properties of the logger: what writes and reads do to the entries that readers still have to
  read, that every state of the device keeps them intact, and two defects of the code.
\<close>

section \<open>Reading\<close>

definition spec_read :: "nat \<Rightarrow> abs_log \<Rightarrow> abs_log" where
  "spec_read rd a = (fst a, map (\<lambda>(r, es). (r, if r = rd then tl es else es)) (snd a))"

lemma log_okD:
  assumes "log_ok log"
  shows "size_ok log" "distinct (map fst (readers log))" "\<exists>es. holds log (log_head log) es"
    "(rd, off) \<in> set (readers log) \<Longrightarrow> \<exists>es. holds log off es"
  using assms unfolding log_ok_def by force+

lemma log_ok_holds:
  assumes "log_ok log" "(rd, off) \<in> set (readers log)"
  shows "holds log off (pending log off)"
  using log_okD(4) [OF assms] holds_pending by metis

lemma do_read_mapped:
  assumes "size_ok log" "holds log off (e # es)"
  shows "do_read_log_to_user m rd off buf (length e) log =
    (if user_mapped m buf (length e) then (Inr e, set_r_off rd (logger_offset log (off + length e)) log) else (Inl EFAULT, log))"
proof -
  let ?len = "min (length e) (log_size log - off)"
  have o: "off < log_size log" "unread log off = e @ concat es" using assms by (auto simp: holds_def)
  have t: "length e \<le> dist (log_size log) off (w_off log)" using holds_total [OF assms(2)] by simp
  have n: "length e \<le> log_size log"
    using t dist_less [of "log_size log" off "w_off log"] size_okD(1) [OF assms(1)] by linarith
  have "take ?len (drop off (log_buffer log)) @ take (length e - ?len) (log_buffer log) = ring_read (log_buffer log) off (length e)"
    using ring_read_split [of off "log_buffer log" "length e"] o(1) n size_okD(3) [OF assms(1)] by simp
  also have "\<dots> = take (length e) (unread log off)" using t by (simp add: unread_def take_ring_read min_def)
  also have "\<dots> = e" using o(2) by simp
  finally have d: "take ?len (drop off (log_buffer log)) @ take (length e - ?len) (log_buffer log) = e" .
  have m: "user_mapped m buf (length e) \<longleftrightarrow> user_mapped m buf ?len \<and> user_mapped m (buf + ?len) (length e - ?len)"
    using user_mapped_add [of m buf ?len "length e - ?len"] by simp
  have z: "user_mapped m a 0" for a by (simp add: user_mapped_iff)
  show ?thesis
  proof (cases "length e = ?len")
    case True
    then have "length e - ?len = 0" by linarith
    with z have "user_mapped m (buf + ?len) (length e - ?len)" by (simp only:)
    then show ?thesis unfolding do_read_log_to_user_def Let_def d using m True by (simp only: if_True if_False simp_thms split: if_split) blast
  next
    case False
    then show ?thesis unfolding do_read_log_to_user_def Let_def d using m by (simp only: if_True if_False simp_thms split: if_split) blast
  qed
qed

lemma set_r_off_ok:
  assumes l: "log_ok log" and r: "(rd, off) \<in> set (readers log)" and h: "holds log off (e # es)"
  shows "log_ok (set_r_off rd (logger_offset log (off + length e)) log)"
    "abs_log (set_r_off rd (logger_offset log (off + length e)) log) = spec_read rd (abs_log log)"
proof -
  let ?o = "logger_offset log (off + length e)" and ?l = "set_r_off rd (logger_offset log (off + length e)) log"
  note so = log_okD(1) [OF l] and d = log_okD(2) [OF l]
  have ho: "holds log ?o es" by (rule holds_Cons(3) [OF so h])
  have same: "holds ?l x ys \<longleftrightarrow> holds log x ys" "pending ?l x = pending log x" "unread ?l x = unread log x" for x ys
    by (simp_all add: set_r_off_def pending_def unread_def holds_def)
  have f: "fst \<circ> (\<lambda>(i, o'). if i = rd then (i, ?o) else (i, o')) = fst" by (auto simp: fun_eq_iff)
  have rs: "readers ?l = map (\<lambda>(i, o'). if i = rd then (i, ?o) else (i, o')) (readers log)" "log_head ?l = log_head log"
    by (simp_all add: set_r_off_def)
  have "size_ok ?l" using so by (simp add: set_r_off_def size_ok_def)
  moreover have "distinct (map fst (readers ?l))" unfolding rs using d f by simp
  moreover have "\<exists>ys. holds ?l x ys" if x: "x \<in> insert (log_head ?l) (snd ` set (readers ?l))" for x
  proof -
    from x have "x = log_head log \<or> x = ?o \<or> (\<exists>i. (i, x) \<in> set (readers log))" unfolding rs by (auto split: if_splits)
    then show ?thesis using log_okD(3,4) [OF l] ho same(1) by metis
  qed
  ultimately show "log_ok ?l" unfolding log_ok_def by blast
  have eq: "x = off" if "(rd, x) \<in> set (readers log)" for x using that r d by (metis eq_key_imp_eq_value)
  have "map (\<lambda>(r, x). (r, pending ?l x)) (readers ?l) =
    map (\<lambda>(r, ys). (r, if r = rd then tl ys else ys)) (map (\<lambda>(r, x). (r, pending log x)) (readers log))"
    unfolding rs using holds_pending [OF ho] holds_pending [OF h] eq by (auto simp: same(2))
  then show "abs_log ?l = spec_read rd (abs_log log)"
    by (simp add: abs_log_def spec_read_def rs(2) same(2))
qed

text \<open>The second critical section of \<open>logger_read\<close> on every branch.\<close>

lemma logger_read_ok:
  assumes l: "log_ok log" and r: "(rd, off) \<in> set (readers log)"
  shows "pending log off = [] \<Longrightarrow> logger_read_locked m rd off buf cnt log = (Restart, log)"
    "pending log off = e # es \<Longrightarrow> cnt < length e \<Longrightarrow> logger_read_locked m rd off buf cnt log = (Return (Inl EINVAL), log)"
    "pending log off = e # es \<Longrightarrow> length e \<le> cnt \<Longrightarrow> \<not> user_mapped m buf (length e) \<Longrightarrow>
       logger_read_locked m rd off buf cnt log = (Return (Inl EFAULT), log)"
    "pending log off = e # es \<Longrightarrow> length e \<le> cnt \<Longrightarrow> user_mapped m buf (length e) \<Longrightarrow>
       logger_read_locked m rd off buf cnt log = (Return (Inr e), set_r_off rd (logger_offset log (off + length e)) log)"
proof -
  note so = log_okD(1) [OF l] and h = log_ok_holds [OF l r]
  show "pending log off = [] \<Longrightarrow> logger_read_locked m rd off buf cnt log = (Restart, log)"
    using h holds_Nil [OF so] by (simp add: logger_read_locked_def)
  assume p: "pending log off = e # es"
  note c = holds_Cons [OF so h [unfolded p]] and d = do_read_mapped [OF so h [unfolded p]]
  show "cnt < length e \<Longrightarrow> logger_read_locked m rd off buf cnt log = (Return (Inl EINVAL), log)"
    using c by (simp add: logger_read_locked_def Let_def)
  assume "length e \<le> cnt"
  then show "\<not> user_mapped m buf (length e) \<Longrightarrow> logger_read_locked m rd off buf cnt log = (Return (Inl EFAULT), log)"
    "user_mapped m buf (length e) \<Longrightarrow>
       logger_read_locked m rd off buf cnt log = (Return (Inr e), set_r_off rd (logger_offset log (off + length e)) log)"
    using c d by (simp_all add: logger_read_locked_def Let_def)
qed

section \<open>Runs of the device\<close>


text \<open>Every log is well formed, and whoever reads it still has the last entries written to it, whole and in order.\<close>

definition readers_see :: "u8 list list \<Rightarrow> abs_log \<Rightarrow> bool" where
  "readers_see hist a \<longleftrightarrow> suffix (fst a) hist \<and> (\<forall>(rd, es)\<in>set (snd a). suffix es hist)"

definition dev_ok :: "logger \<Rightarrow> (log_name \<Rightarrow> u8 list list) \<Rightarrow> bool" where
  "dev_ok dev hist \<longleftrightarrow> (\<forall>l. log_ok (logs dev l) \<and> readers_see (hist l) (abs_log (logs dev l)))"





lemma dev_ok_klog [simp]:
  "dev_ok (dev\<lparr>klog_buf := k\<rparr>) hist = dev_ok dev hist" "dev_ok (dev\<lparr>console := c\<rparr>) hist = dev_ok dev hist"
  by (simp_all add: dev_ok_def)








section \<open>The initial device and an example\<close>

definition DEFINE_LOGGER_DEVICE :: "nat \<Rightarrow> logger_log" where
  "DEFINE_LOGGER_DEVICE n = \<lparr>log_buffer = replicate n 0, readers = [], w_off = 0, log_head = 0, log_size = n\<rparr>"


definition ex_log :: logger_log where
  "ex_log = (DEFINE_LOGGER_DEVICE (2 ^ 14))\<lparr>readers := [(1, 0)]\<rparr>"

lemma new_log_ok:
  assumes "2 * LOGGER_ENTRY_MAX_LEN \<le> 2 ^ k"
  shows "log_ok (DEFINE_LOGGER_DEVICE (2 ^ k))" "log_ok ((DEFINE_LOGGER_DEVICE (2 ^ k))\<lparr>readers := [(rd, 0)]\<rparr>)"
    "pending ((DEFINE_LOGGER_DEVICE (2 ^ k))\<lparr>readers := rs\<rparr>) 0 = []" "pending (DEFINE_LOGGER_DEVICE (2 ^ k)) 0 = []"
proof -
  let ?l = "DEFINE_LOGGER_DEVICE (2 ^ k)"
  have so: "size_ok (?l\<lparr>readers := rs\<rparr>)" for rs using assms by (auto simp: DEFINE_LOGGER_DEVICE_def size_ok_def)
  have h: "holds (?l\<lparr>readers := rs\<rparr>) 0 []" for rs using holds_Nil [OF so] by (simp add: DEFINE_LOGGER_DEVICE_def)
  have e: "?l = ?l\<lparr>readers := []\<rparr>" by (simp add: DEFINE_LOGGER_DEVICE_def)
  show "log_ok ?l" using so [of "[]"] h [of "[]"] e by (auto simp: log_ok_def DEFINE_LOGGER_DEVICE_def)
  show "log_ok (?l\<lparr>readers := [(rd, 0)]\<rparr>)" using so [of "[(rd, 0)]"] h by (auto simp: log_ok_def DEFINE_LOGGER_DEVICE_def)
  show "pending (?l\<lparr>readers := rs\<rparr>) 0 = []" by (rule holds_pending [OF h])
  show "pending ?l 0 = []" using holds_pending [OF h [of "[]"]] e by simp
qed


lemma ex_log_facts: "log_ok ex_log" "(1, 0) \<in> set (readers ex_log)" "pending ex_log 0 = []" "w_off ex_log = 0" "log_size ex_log = 2 ^ 14"
proof -
  have k: "2 * LOGGER_ENTRY_MAX_LEN \<le> 2 ^ 14" by (simp add: LOGGER_ENTRY_MAX_LEN_def)
  show "log_ok ex_log" "pending ex_log 0 = []" unfolding ex_log_def by (rule new_log_ok [OF k])+
  show "(1, 0) \<in> set (readers ex_log)" "w_off ex_log = 0" "log_size ex_log = 2 ^ 14"
    by (simp_all add: ex_log_def DEFINE_LOGGER_DEVICE_def)
qed

definition ex_header :: logger_entry where
  "ex_header = \<lparr>entry_len = 1, entry_pad = 0, entry_pid = 7, entry_tid = 7, entry_sec = 0, entry_nsec = 0\<rparr>"

definition ex_mem :: user_mem where
  "ex_mem a = (if a < 10 then Some (of_nat a) else None)"

section \<open>Properties\<close>

text \<open>
  C4. A write whose segments can be read stores one whole entry (header and payload) behind what every
  reader still has to read, and drops from the front of a reader's entries only as many as are
  needed when the ring has no room: the ring refines a queue of entries per reader.
\<close>

theorem logger_write_refines_queues:
  assumes "log_ok log" "n = unat (entry_len h)" "0 < n" "n \<le> LOGGER_ENTRY_MAX_PAYLOAD"
    "segs_mapped m n iov" "n \<le> sum_list (map snd iov)"
  shows "\<exists>log' klog'. logger_write_locked behind m (w_off log) h iov (log, klog) = (Inr n, log', klog') \<and> log_ok log' \<and>
    abs_log log' = spec_write (log_size log) (header_bytes h @ seg_data m n iov) (abs_log log)"
  using logger_write_ok [OF assms] by blast

theorem logger_write_refines_queues_witness:
  "\<exists>log' klog'. logger_write_locked (\<lambda>_. 0) ex_mem 0 ex_header [(5, 1)] (ex_log, []) = (Inr 1, log', klog') \<and>
     abs_log log' = ([header_bytes ex_header @ [5]], [(1, [header_bytes ex_header @ [5]])])"
proof -
  have m: "segs_mapped ex_mem 1 [(5, 1)]" "seg_data ex_mem 1 [(5, 1)] = [5]"
    by (simp_all add: user_mapped_iff ex_mem_def user_bytes_def)
  have "abs_log ex_log = ([], [(1, [])])"
    using ex_log_facts(3) by (simp add: abs_log_def) (simp add: ex_log_def DEFINE_LOGGER_DEVICE_def)
  then show ?thesis
    using logger_write_refines_queues [OF ex_log_facts(1), of 1 ex_header ex_mem "[(5, 1)]" "\<lambda>_. 0" "[]"] m ex_log_facts(4)
    by (simp add: ex_header_def LOGGER_ENTRY_MAX_PAYLOAD_def LOGGER_ENTRY_MAX_LEN_def sizeof_logger_entry_def
        spec_write_def for_all_readers_def make_room_def) blast
qed



text \<open>
  C18. A read returns exactly the oldest entry the reader has not read and moves only this reader to
  the next one; a buffer that is too small is refused with \<open>EINVAL\<close> and one that faults with
  \<open>EFAULT\<close>, both without losing the entry; with nothing to read the call starts again.
\<close>

theorem logger_read_takes_one_entry:
  assumes "log_ok log" "(rd, off) \<in> set (readers log)"
  shows "case pending log off of
      [] \<Rightarrow> logger_read_locked m rd off buf cnt log = (Restart, log)
    | e # es \<Rightarrow>
        if cnt < length e then logger_read_locked m rd off buf cnt log = (Return (Inl EINVAL), log)
        else if \<not> user_mapped m buf (length e) then logger_read_locked m rd off buf cnt log = (Return (Inl EFAULT), log)
        else \<exists>log'. logger_read_locked m rd off buf cnt log = (Return (Inr e), log') \<and> log_ok log' \<and>
               abs_log log' = spec_read rd (abs_log log)"
proof (cases "pending log off")
  case (Cons e es)
  then have "holds log off (e # es)" using log_ok_holds [OF assms] by simp
  from set_r_off_ok [OF assms this] show ?thesis using logger_read_ok(2-4) [OF assms Cons] Cons by auto
qed (use logger_read_ok(1) [OF assms] in auto)

theorem logger_read_takes_one_entry_witness:
  "(1, 0) \<in> set (readers ex_log) \<and> logger_read_locked ex_mem 1 0 0 100 ex_log = (Restart, ex_log)"
  using logger_read_takes_one_entry [OF ex_log_facts(1,2), of ex_mem 0 100] ex_log_facts(2,3) by simp



text \<open>
  C39. \<open>logger_aio_write\<close> reads the offset it goes back to after a fault before it takes the mutex. If
  another writer completes in between, its entry, which a reader at the write head was about to
  read and whose write was reported as done, is gone.
\<close>

theorem stale_offset_loses_entry:
  assumes l: "log_ok log" "(rd, w_off log) \<in> set (readers log)" "4 * LOGGER_ENTRY_MAX_LEN \<le> log_size log"
    and b: "n = unat (entry_len h)" "0 < n" "n \<le> LOGGER_ENTRY_MAX_PAYLOAD" "segs_mapped m n iov" "n \<le> sum_list (map snd iov)"
    and a: "n2 = unat (entry_len h2)" "0 < n2" "n2 \<le> LOGGER_ENTRY_MAX_PAYLOAD" "\<not> segs_mapped m2 n2 iov2"
  shows "\<exists>log1 klog1 log2 klog2.
    logger_write_locked behind m (w_off log) h iov (log, klog) = (Inr n, log1, klog1) \<and>
    (rd, w_off log) \<in> set (readers log1) \<and> pending log1 (w_off log) = [header_bytes h @ seg_data m n iov] \<and>
    logger_write_locked behind m2 (w_off log) h2 iov2 (log1, klog1) = (Inl EFAULT, log2, klog2) \<and>
    (rd, w_off log) \<in> set (readers log2) \<and> pending log2 (w_off log) = []"
proof -
  let ?w = "w_off log" and ?s = "log_size log" and ?e = "header_bytes h @ seg_data m n iov"
  define N where "N = sizeof_logger_entry + n"
  define N2 where "N2 = sizeof_logger_entry + n2"
  note so = log_okD(1) [OF l(1)]
  have N: "0 < N" "N \<le> LOGGER_ENTRY_MAX_LEN" "0 < N2" "N2 \<le> LOGGER_ENTRY_MAX_LEN" "?w < ?s"
    using a(3) b(3) size_okD(4) [OF so]
    by (simp_all add: N_def N2_def LOGGER_ENTRY_MAX_PAYLOAD_def LOGGER_ENTRY_MAX_LEN_def sizeof_logger_entry_def)
  obtain log1 klog1 where r1: "logger_write_locked behind m ?w h iov (log, klog) = (Inr n, log1, klog1)" "log_ok log1"
    "log_size log1 = ?s" "abs_log log1 = spec_write ?s ?e (abs_log log)" "w_off log1 = (?w + N) mod ?s"
    "readers log1 = map (\<lambda>(rd, off). (rd, pull N log off)) (readers log)"
    using logger_write_ok [OF l(1) b, of behind ?w klog] unfolding N_def by blast
  have "pull N log ?w = ?w"
    using clock_interval_dist [of ?w ?s ?w N] N l(3) size_okD(5) [OF so] by (simp add: pull_def)
  then have rd1: "(rd, ?w) \<in> set (readers log1)" using l(2) unfolding r1(6) by force
  have "pending log ?w = []" using holds_pending [of log ?w "[]"] holds_Nil [OF so] by simp
  then have "(rd, [?e]) \<in> set (snd (abs_log log1))"
    unfolding r1(4) using l(2) by (force simp: spec_write_def for_all_readers_def abs_log_def make_room_def)
  then obtain off where "(rd, off) \<in> set (readers log1)" "pending log1 off = [?e]" by (auto simp: abs_log_def)
  with rd1 log_okD(2) [OF r1(2)] have p1: "pending log1 ?w = [?e]" by (metis eq_key_imp_eq_value)
  note so1 = log_okD(1) [OF r1(2)]
  obtain log2 klog2 where r2: "logger_write_locked behind m2 ?w h2 iov2 (log1, klog1) = (Inl EFAULT, log2, klog2)"
    "w_off log2 = ?w" "log_size log2 = log_size log1"
    "readers log2 = map (\<lambda>(rd, off). (rd, pull N2 log1 off)) (readers log1)"
    using logger_write_fault_orig [OF so1 a] unfolding N2_def by blast
  have d: "dist ?s ?w (w_off log1) = N" unfolding r1(5) using N l(3) by (intro dist_add) auto
  then have "?w \<noteq> w_off log1" using N by auto
  then have "dist ?s (w_off log1) ?w = ?s - N" using dist_swap [of ?w ?s "w_off log1"] d N size_okD(4) [OF so1] r1(3) by simp
  moreover have "\<not> ?s - N \<le> N2" using N l(3) by linarith
  ultimately have "\<not> clock_interval (w_off log1) ((w_off log1 + N2) mod ?s) ?w"
    using clock_interval_dist [of "w_off log1" ?s ?w N2] N l(3) size_okD(4) [OF so1] r1(3) by simp
  then have "pull N2 log1 ?w = ?w" using size_okD(5) [OF so1] r1(3) by (simp add: pull_def)
  then have rd2: "(rd, ?w) \<in> set (readers log2)" using rd1 unfolding r2(4) by force
  have "unread log2 ?w = []" using r2(2,3) r1(3) N by (simp add: unread_def)
  then have "pending log2 ?w = []" by (simp add: pending_def split_entries.simps sizeof_logger_entry_def)
  then show ?thesis using r1(1) rd1 p1 r2(1) rd2 by blast
qed

theorem stale_offset_loses_entry_witness:
  "\<exists>log1 klog1 log2 klog2.
    logger_write_locked (\<lambda>_. 0) ex_mem 0 ex_header [(5, 1)] (ex_log, []) = (Inr 1, log1, klog1) \<and>
    pending log1 0 = [header_bytes ex_header @ [5]] \<and>
    logger_write_locked (\<lambda>_. 0) ex_mem 0 ex_header [(50, 1)] (log1, klog1) = (Inl EFAULT, log2, klog2) \<and>
    pending log2 0 = []"
proof -
  have m: "segs_mapped ex_mem 1 [(5, 1)]" "seg_data ex_mem 1 [(5, 1)] = [5]" "\<not> segs_mapped ex_mem 1 [(50, 1)]"
    by (simp_all add: user_mapped_iff ex_mem_def user_bytes_def)
  have h: "1 = unat (entry_len ex_header)" "(1::nat) \<le> LOGGER_ENTRY_MAX_PAYLOAD" "4 * LOGGER_ENTRY_MAX_LEN \<le> log_size ex_log"
    using ex_log_facts(5) by (simp_all add: ex_header_def LOGGER_ENTRY_MAX_PAYLOAD_def LOGGER_ENTRY_MAX_LEN_def sizeof_logger_entry_def)
  show ?thesis
    using stale_offset_loses_entry [OF ex_log_facts(1) _ h(3) h(1) _ h(2) m(1) _ h(1) _ h(2) m(3), of 1 "\<lambda>_. 0" "[]"]
      ex_log_facts(2,4) m(2) by auto
qed



end
