(* ===== verification/PosixAcl.thy ===== *)
theory PosixAcl
  imports Cred
begin

text \<open>
  POSIX access control lists: \<open>fs/posix_acl.c\<close> with \<open>include/linux/posix_acl.h\<close>, and their
  extended-attribute format, \<open>fs/xattr_acl.c\<close> with \<open>include/linux/posix_acl_xattr.h\<close>.

  The functions here are those that work on the entries of one ACL, a list of
  \<open>posix_acl_entry\<close> of \<open>a_count\<close> elements; where the C code runs over the entries with
  \<open>FOREACH_ACL_ENTRY\<close> the model recurses over the list. Tags and permissions keep their 16 bits, so
  an entry may have a tag that is none of the six. A function that writes through its \<open>acl\<close> argument
  returns the new entries, also when it fails half way. The reference count of an ACL and the
  functions that allocate and share ACLs are in \<open>AclStore\<close>.

  \<open>mode_t\<close> and \<open>umode_t\<close> are \<open>unsigned short\<close> on this target. The C expressions are computed in
  \<open>int\<close> and cut to 16 bits when they are stored; only \<open>AND\<close>, \<open>OR\<close>, \<open>NOT\<close> and shifts occur, and a
  right shift is always of a value that has 16 bits, so computing in 16 bits gives the same result.
\<close>

type_synonym mode_t = u16

section \<open>Mode bits\<close>

definition S_IFMT :: mode_t where "S_IFMT = 0xF000"
definition S_IFLNK :: mode_t where "S_IFLNK = 0xA000"
definition S_IFREG :: mode_t where "S_IFREG = 0x8000"
definition S_IFDIR :: mode_t where "S_IFDIR = 0x4000"
definition S_ISUID :: mode_t where "S_ISUID = 0x800"
definition S_ISGID :: mode_t where "S_ISGID = 0x400"
definition S_ISVTX :: mode_t where "S_ISVTX = 0x200"
definition S_IRWXU :: mode_t where "S_IRWXU = 0x1C0"
definition S_IRWXG :: mode_t where "S_IRWXG = 0x38"
definition S_IXGRP :: mode_t where "S_IXGRP = 0x8"
definition S_IRWXO :: mode_t where "S_IRWXO = 7"
definition S_IRWXUGO :: mode_t where "S_IRWXUGO = S_IRWXU OR S_IRWXG OR S_IRWXO"
definition S_IALLUGO :: mode_t where "S_IALLUGO = S_ISUID OR S_ISGID OR S_ISVTX OR S_IRWXUGO"
definition S_IXUGO :: mode_t where "S_IXUGO = 0x49"

lemmas mode_defs = S_IFMT_def S_IFLNK_def S_IFREG_def S_IFDIR_def S_ISUID_def S_ISGID_def
  S_ISVTX_def S_IRWXU_def S_IRWXG_def S_IXGRP_def S_IRWXO_def S_IRWXUGO_def S_IALLUGO_def
  S_IXUGO_def

definition S_ISLNK :: "mode_t \<Rightarrow> bool" where "S_ISLNK m = (m AND S_IFMT = S_IFLNK)"
definition S_ISREG :: "mode_t \<Rightarrow> bool" where "S_ISREG m = (m AND S_IFMT = S_IFREG)"
definition S_ISDIR :: "mode_t \<Rightarrow> bool" where "S_ISDIR m = (m AND S_IFMT = S_IFDIR)"

section \<open>Entries\<close>

definition ACL_UNDEFINED_ID :: u32 where "ACL_UNDEFINED_ID = - 1"

definition ACL_USER_OBJ :: u16 where "ACL_USER_OBJ = 0x01"
definition ACL_USER :: u16 where "ACL_USER = 0x02"
definition ACL_GROUP_OBJ :: u16 where "ACL_GROUP_OBJ = 0x04"
definition ACL_GROUP :: u16 where "ACL_GROUP = 0x08"
definition ACL_MASK :: u16 where "ACL_MASK = 0x10"
definition ACL_OTHER :: u16 where "ACL_OTHER = 0x20"

definition ACL_READ :: u16 where "ACL_READ = 0x04"
definition ACL_WRITE :: u16 where "ACL_WRITE = 0x02"
definition ACL_EXECUTE :: u16 where "ACL_EXECUTE = 0x01"

lemmas tag_defs = ACL_USER_OBJ_def ACL_USER_def ACL_GROUP_OBJ_def ACL_GROUP_def ACL_MASK_def
  ACL_OTHER_def

record posix_acl_entry =
  e_tag :: u16
  e_perm :: u16
  e_id :: u32

section \<open>Validity\<close>

text \<open>
  The loop of \<open>posix_acl_valid\<close>; \<open>state\<close> is the tag that may come next, or 0 after the entry
  \<open>ACL_OTHER\<close>.
\<close>

fun posix_acl_valid_loop :: "u16 \<Rightarrow> u32 \<Rightarrow> bool \<Rightarrow> posix_acl_entry list \<Rightarrow> unit kres" where
  "posix_acl_valid_loop state nid needs_mask [] = (if state = 0 then Inr () else Inl EINVAL)"
| "posix_acl_valid_loop state nid needs_mask (pa # pe) =
     (if e_perm pa AND NOT (ACL_READ OR ACL_WRITE OR ACL_EXECUTE) \<noteq> 0 then Inl EINVAL
      else if e_tag pa = ACL_USER_OBJ then
        (if state = ACL_USER_OBJ then posix_acl_valid_loop ACL_USER 0 needs_mask pe else Inl EINVAL)
      else if e_tag pa = ACL_USER then
        (if state \<noteq> ACL_USER then Inl EINVAL
         else if e_id pa = ACL_UNDEFINED_ID \<or> e_id pa < nid then Inl EINVAL
         else posix_acl_valid_loop state (e_id pa + 1) True pe)
      else if e_tag pa = ACL_GROUP_OBJ then
        (if state = ACL_USER then posix_acl_valid_loop ACL_GROUP 0 needs_mask pe else Inl EINVAL)
      else if e_tag pa = ACL_GROUP then
        (if state \<noteq> ACL_GROUP then Inl EINVAL
         else if e_id pa = ACL_UNDEFINED_ID \<or> e_id pa < nid then Inl EINVAL
         else posix_acl_valid_loop state (e_id pa + 1) True pe)
      else if e_tag pa = ACL_MASK then
        (if state \<noteq> ACL_GROUP then Inl EINVAL else posix_acl_valid_loop ACL_OTHER nid needs_mask pe)
      else if e_tag pa = ACL_OTHER then
        (if state = ACL_OTHER \<or> state = ACL_GROUP \<and> \<not> needs_mask
         then posix_acl_valid_loop 0 nid needs_mask pe else Inl EINVAL)
      else Inl EINVAL)"

definition posix_acl_valid :: "posix_acl_entry list \<Rightarrow> unit kres" where
  "posix_acl_valid acl = posix_acl_valid_loop ACL_USER_OBJ 0 False acl"

section \<open>ACLs and mode bits\<close>

fun equiv_mode_loop :: "mode_t \<Rightarrow> bool \<Rightarrow> posix_acl_entry list \<Rightarrow> (bool \<times> mode_t) kres" where
  "equiv_mode_loop mode not_equiv [] = Inr (not_equiv, mode)"
| "equiv_mode_loop mode not_equiv (pa # pe) =
     (if e_tag pa = ACL_USER_OBJ then
        equiv_mode_loop (mode OR push_bit 6 (e_perm pa AND S_IRWXO)) not_equiv pe
      else if e_tag pa = ACL_GROUP_OBJ then
        equiv_mode_loop (mode OR push_bit 3 (e_perm pa AND S_IRWXO)) not_equiv pe
      else if e_tag pa = ACL_OTHER then
        equiv_mode_loop (mode OR (e_perm pa AND S_IRWXO)) not_equiv pe
      else if e_tag pa = ACL_MASK then
        equiv_mode_loop ((mode AND NOT S_IRWXG) OR push_bit 3 (e_perm pa AND S_IRWXO)) True pe
      else if e_tag pa = ACL_USER \<or> e_tag pa = ACL_GROUP then equiv_mode_loop mode True pe
      else Inl EINVAL)"

text \<open>The result is the return value (\<open>not_equiv\<close>) with the new \<open>*mode_p\<close>.\<close>

definition posix_acl_equiv_mode :: "posix_acl_entry list \<Rightarrow> mode_t \<Rightarrow> (bool \<times> mode_t) kres" where
  "posix_acl_equiv_mode acl mode_p =
     (case equiv_mode_loop 0 False acl of
        Inl e \<Rightarrow> Inl e
      | Inr (not_equiv, mode) \<Rightarrow> Inr (not_equiv, (mode_p AND NOT S_IRWXUGO) OR mode))"

definition posix_acl_from_mode :: "mode_t \<Rightarrow> posix_acl_entry list" where
  "posix_acl_from_mode mode =
     [\<lparr>e_tag = ACL_USER_OBJ, e_perm = drop_bit 6 (mode AND S_IRWXU), e_id = ACL_UNDEFINED_ID\<rparr>,
      \<lparr>e_tag = ACL_GROUP_OBJ, e_perm = drop_bit 3 (mode AND S_IRWXG), e_id = ACL_UNDEFINED_ID\<rparr>,
      \<lparr>e_tag = ACL_OTHER, e_perm = mode AND S_IRWXO, e_id = ACL_UNDEFINED_ID\<rparr>]"

section \<open>The access decision\<close>

text \<open>
  \<open>check_perm\<close> and \<open>mask\<close> are the two labels of \<open>posix_acl_permission\<close>. The owner and the group of
  the inode are arguments; \<open>s\<close> is the current task.
\<close>

definition acl_check_perm :: "posix_acl_entry \<Rightarrow> u32 \<Rightarrow> unit kres" where
  "acl_check_perm pa want = (if ucast (e_perm pa) AND want = want then Inr () else Inl EACCES)"

fun acl_mask :: "posix_acl_entry \<Rightarrow> posix_acl_entry list \<Rightarrow> u32 \<Rightarrow> unit kres" where
  "acl_mask pa [] want = acl_check_perm pa want"
| "acl_mask pa (mask_obj # pe) want =
     (if e_tag mask_obj = ACL_MASK then
        (if ucast (e_perm pa) AND ucast (e_perm mask_obj) AND want = want
         then Inr () else Inl EACCES)
      else acl_mask pa pe want)"

fun acl_permission_loop ::
  "kstate \<Rightarrow> uid_t \<Rightarrow> gid_t \<Rightarrow> bool \<Rightarrow> posix_acl_entry list \<Rightarrow> u32 \<Rightarrow> unit kres" where
  "acl_permission_loop s iuid igid found [] want = Inl EIO"
| "acl_permission_loop s iuid igid found (pa # pe) want =
     (if e_tag pa = ACL_USER_OBJ then
        (if iuid = fsuid (current_cred s) then acl_check_perm pa want
         else acl_permission_loop s iuid igid found pe want)
      else if e_tag pa = ACL_USER then
        (if e_id pa = fsuid (current_cred s) then acl_mask pa pe want
         else acl_permission_loop s iuid igid found pe want)
      else if e_tag pa = ACL_GROUP_OBJ then
        (if in_group_p s igid then
           (if ucast (e_perm pa) AND want = want then acl_mask pa pe want
            else acl_permission_loop s iuid igid True pe want)
         else acl_permission_loop s iuid igid found pe want)
      else if e_tag pa = ACL_GROUP then
        (if in_group_p s (e_id pa) then
           (if ucast (e_perm pa) AND want = want then acl_mask pa pe want
            else acl_permission_loop s iuid igid True pe want)
         else acl_permission_loop s iuid igid found pe want)
      else if e_tag pa = ACL_MASK then acl_permission_loop s iuid igid found pe want
      else if e_tag pa = ACL_OTHER then
        (if found then Inl EACCES else acl_check_perm pa want)
      else Inl EIO)"

definition posix_acl_permission ::
  "kstate \<Rightarrow> uid_t \<Rightarrow> gid_t \<Rightarrow> posix_acl_entry list \<Rightarrow> u32 \<Rightarrow> unit kres" where
  "posix_acl_permission s iuid igid acl want = acl_permission_loop s iuid igid False acl want"

section \<open>Creating a file and changing its mode\<close>

text \<open>
  The loop of \<open>posix_acl_create_masq\<close> from entry number \<open>i\<close>; \<open>group_obj\<close> and \<open>mask_obj\<close> are the
  numbers of the entries these pointers point to. It returns the entries from \<open>i\<close> on as changed so far.
\<close>

fun create_masq_loop ::
  "nat \<Rightarrow> mode_t \<Rightarrow> nat option \<Rightarrow> nat option \<Rightarrow> bool \<Rightarrow> posix_acl_entry list
    \<Rightarrow> (mode_t \<times> nat option \<times> nat option \<times> bool) kres \<times> posix_acl_entry list" where
  "create_masq_loop i mode group_obj mask_obj not_equiv [] =
     (Inr (mode, group_obj, mask_obj, not_equiv), [])"
| "create_masq_loop i mode group_obj mask_obj not_equiv (pa # pe) =
     (if e_tag pa = ACL_USER_OBJ then
        let p = e_perm pa AND (drop_bit 6 mode OR NOT S_IRWXO);
            (r, rest) = create_masq_loop (i + 1) (mode AND (push_bit 6 p OR NOT S_IRWXU))
                          group_obj mask_obj not_equiv pe
        in (r, pa\<lparr>e_perm := p\<rparr> # rest)
      else if e_tag pa = ACL_USER \<or> e_tag pa = ACL_GROUP then
        let (r, rest) = create_masq_loop (i + 1) mode group_obj mask_obj True pe
        in (r, pa # rest)
      else if e_tag pa = ACL_GROUP_OBJ then
        let (r, rest) = create_masq_loop (i + 1) mode (Some i) mask_obj not_equiv pe
        in (r, pa # rest)
      else if e_tag pa = ACL_OTHER then
        let p = e_perm pa AND (mode OR NOT S_IRWXO);
            (r, rest) = create_masq_loop (i + 1) (mode AND (p OR NOT S_IRWXO))
                          group_obj mask_obj not_equiv pe
        in (r, pa\<lparr>e_perm := p\<rparr> # rest)
      else if e_tag pa = ACL_MASK then
        let (r, rest) = create_masq_loop (i + 1) mode group_obj (Some i) True pe
        in (r, pa # rest)
      else (Inl EIO, pa # pe))"

definition set_perm :: "posix_acl_entry list \<Rightarrow> nat \<Rightarrow> u16 \<Rightarrow> posix_acl_entry list" where
  "set_perm acl i p = acl[i := (acl ! i)\<lparr>e_perm := p\<rparr>]"

definition posix_acl_create_masq ::
  "posix_acl_entry list \<Rightarrow> mode_t \<Rightarrow> (bool \<times> mode_t) kres \<times> posix_acl_entry list" where
  "posix_acl_create_masq acl mode_p =
     (case create_masq_loop 0 mode_p None None False acl of
        (Inl e, acl') \<Rightarrow> (Inl e, acl')
      | (Inr (mode, group_obj, mask_obj, not_equiv), acl') \<Rightarrow>
          (case (case mask_obj of Some m \<Rightarrow> Some m | None \<Rightarrow> group_obj) of
             None \<Rightarrow> (Inl EIO, acl')
           | Some obj \<Rightarrow>
               let p = e_perm (acl' ! obj) AND (drop_bit 3 mode OR NOT S_IRWXO);
                   mode' = mode AND (push_bit 3 p OR NOT S_IRWXG)
               in (Inr (not_equiv, (mode_p AND NOT S_IRWXUGO) OR mode'), set_perm acl' obj p)))"

fun chmod_masq_loop ::
  "nat \<Rightarrow> mode_t \<Rightarrow> nat option \<Rightarrow> nat option \<Rightarrow> posix_acl_entry list
    \<Rightarrow> (nat option \<times> nat option) kres \<times> posix_acl_entry list" where
  "chmod_masq_loop i mode group_obj mask_obj [] = (Inr (group_obj, mask_obj), [])"
| "chmod_masq_loop i mode group_obj mask_obj (pa # pe) =
     (if e_tag pa = ACL_USER_OBJ then
        let (r, rest) = chmod_masq_loop (i + 1) mode group_obj mask_obj pe
        in (r, pa\<lparr>e_perm := drop_bit 6 (mode AND S_IRWXU)\<rparr> # rest)
      else if e_tag pa = ACL_USER \<or> e_tag pa = ACL_GROUP then
        let (r, rest) = chmod_masq_loop (i + 1) mode group_obj mask_obj pe
        in (r, pa # rest)
      else if e_tag pa = ACL_GROUP_OBJ then
        let (r, rest) = chmod_masq_loop (i + 1) mode (Some i) mask_obj pe
        in (r, pa # rest)
      else if e_tag pa = ACL_MASK then
        let (r, rest) = chmod_masq_loop (i + 1) mode group_obj (Some i) pe
        in (r, pa # rest)
      else if e_tag pa = ACL_OTHER then
        let (r, rest) = chmod_masq_loop (i + 1) mode group_obj mask_obj pe
        in (r, pa\<lparr>e_perm := mode AND S_IRWXO\<rparr> # rest)
      else (Inl EIO, pa # pe))"

definition posix_acl_chmod_masq ::
  "posix_acl_entry list \<Rightarrow> mode_t \<Rightarrow> unit kres \<times> posix_acl_entry list" where
  "posix_acl_chmod_masq acl mode =
     (case chmod_masq_loop 0 mode None None acl of
        (Inl e, acl') \<Rightarrow> (Inl e, acl')
      | (Inr (group_obj, mask_obj), acl') \<Rightarrow>
          (case mask_obj of
             Some m \<Rightarrow> (Inr (), set_perm acl' m (drop_bit 3 (mode AND S_IRWXG)))
           | None \<Rightarrow>
               (case group_obj of
                  None \<Rightarrow> (Inl EIO, acl')
                | Some g \<Rightarrow> (Inr (), set_perm acl' g (drop_bit 3 (mode AND S_IRWXG))))))"

section \<open>The extended-attribute format\<close>

text \<open>
  A header with the version, 4 bytes, then 8 bytes for each entry, all little-endian. Sizes are
  natural numbers: \<open>setxattr\<close> lets no value of more than 65536 bytes (\<open>XATTR_SIZE_MAX\<close>) through.
\<close>

definition POSIX_ACL_XATTR_VERSION :: u32 where "POSIX_ACL_XATTR_VERSION = 2"

definition cpu_to_le16 :: "u16 \<Rightarrow> u8 list" where
  "cpu_to_le16 w = [ucast w, ucast (drop_bit 8 w)]"

definition cpu_to_le32 :: "u32 \<Rightarrow> u8 list" where
  "cpu_to_le32 w = [ucast w, ucast (drop_bit 8 w), ucast (drop_bit 16 w), ucast (drop_bit 24 w)]"

definition le16_to_cpu :: "u8 list \<Rightarrow> u16" where
  "le16_to_cpu bs = ucast (bs ! 0) OR push_bit 8 (ucast (bs ! 1))"

definition le32_to_cpu :: "u8 list \<Rightarrow> u32" where
  "le32_to_cpu bs = ucast (bs ! 0) OR push_bit 8 (ucast (bs ! 1)) OR push_bit 16 (ucast (bs ! 2))
     OR push_bit 24 (ucast (bs ! 3))"

definition posix_acl_xattr_size :: "nat \<Rightarrow> nat" where
  "posix_acl_xattr_size n = 4 + n * 8"

definition posix_acl_xattr_count :: "nat \<Rightarrow> int" where
  "posix_acl_xattr_count sz =
     (if sz < 4 then -1 else if (sz - 4) mod 8 \<noteq> 0 then -1 else int ((sz - 4) div 8))"

text \<open>The loop of \<open>posix_acl_from_xattr\<close> over \<open>n\<close> entries of 8 bytes.\<close>

fun from_xattr_loop :: "nat \<Rightarrow> u8 list \<Rightarrow> posix_acl_entry list kres" where
  "from_xattr_loop 0 bs = Inr []"
| "from_xattr_loop (Suc n) bs =
     (let tag = le16_to_cpu bs; perm = le16_to_cpu (drop 2 bs)
      in if tag = ACL_USER_OBJ \<or> tag = ACL_GROUP_OBJ \<or> tag = ACL_MASK \<or> tag = ACL_OTHER then
           map_sum (\<lambda>e. e) ((#) \<lparr>e_tag = tag, e_perm = perm, e_id = ACL_UNDEFINED_ID\<rparr>)
             (from_xattr_loop n (drop 8 bs))
         else if tag = ACL_USER \<or> tag = ACL_GROUP then
           map_sum (\<lambda>e. e) ((#) \<lparr>e_tag = tag, e_perm = perm, e_id = le32_to_cpu (drop 4 bs)\<rparr>)
             (from_xattr_loop n (drop 8 bs))
         else Inl EINVAL)"

text \<open>
  \<open>mem\<close> says whether \<open>posix_acl_alloc\<close> gets memory. The result \<open>Inr None\<close> is the null pointer.
\<close>

definition posix_acl_from_xattr :: "bool \<Rightarrow> u8 list option \<Rightarrow> posix_acl_entry list option kres" where
  "posix_acl_from_xattr mem v =
     (case v of
        None \<Rightarrow> Inr None
      | Some bs \<Rightarrow>
          if length bs < 4 then Inl EINVAL
          else if le32_to_cpu bs \<noteq> POSIX_ACL_XATTR_VERSION then Inl EOPNOTSUPP
          else let n = posix_acl_xattr_count (length bs)
               in if n < 0 then Inl EINVAL
                  else if n = 0 then Inr None
                  else if \<not> mem then Inl ENOMEM
                  else map_sum (\<lambda>e. e) Some (from_xattr_loop (nat n) (drop 4 bs)))"

definition entry_to_xattr :: "posix_acl_entry \<Rightarrow> u8 list" where
  "entry_to_xattr pa = cpu_to_le16 (e_tag pa) @ cpu_to_le16 (e_perm pa) @ cpu_to_le32 (e_id pa)"

text \<open>
  \<open>buffer\<close> is the size of the caller's buffer, or \<open>None\<close> for a null pointer. The result is the return
  value with the bytes written.
\<close>

definition posix_acl_to_xattr :: "posix_acl_entry list \<Rightarrow> nat option \<Rightarrow> (nat \<times> u8 list) kres" where
  "posix_acl_to_xattr acl buffer =
     (let real_size = posix_acl_xattr_size (length acl)
      in case buffer of
           None \<Rightarrow> Inr (real_size, [])
         | Some sz \<Rightarrow>
             if real_size > sz then Inl ERANGE
             else Inr (real_size,
                       cpu_to_le32 POSIX_ACL_XATTR_VERSION @ concat (map entry_to_xattr acl)))"

end
