(* ===== verification/AclStore.thy ===== *)
theory AclStore
  imports PosixAcl "HOL-Library.Monad_Syntax"
begin

text \<open>
  ACLs of inodes in memory: the reference counts of \<open>include/linux/posix_acl.h\<close>, the operations
  of \<open>fs/generic_acl.c\<close>, and their use by tmpfs in \<open>mm/shmem_acl.c\<close>.

  \<open>vfs\<close> is the state: the current task with its umask, the inodes of one mounted tmpfs, and the
  ACLs that were allocated. A pointer to an inode or to an ACL is its number. An ACL that has been
  freed leaves \<open>None\<close> in its place, and no number is used twice; so an access to a freed ACL always
  shows: the operation then has the value \<open>None\<close>, which is also the value of a call that ends in
  \<open>BUG()\<close>. The arguments \<open>mem\<close> say which allocations of the call succeed.

  \<open>i_lock\<close> is held around each access to the two pointers of an inode, and the callers that change
  them hold \<open>i_mutex\<close>; each operation is one step of the model.
\<close>

section \<open>Inodes and ACLs\<close>

type_synonym acl_ptr = nat

record posix_acl =
  a_refcount :: nat
  a_entries :: "posix_acl_entry list"

text \<open>
  The fields of \<open>struct inode\<close> that are used here, with the two of \<open>struct shmem_inode_info\<close> and the
  flags of the superblock. The type of the references to ACLs is a parameter: it is \<open>acl_ptr\<close> in the
  state of the kernel, and a list of entries in the abstract view.
\<close>

record 'p inode =
  i_mode :: mode_t
  i_uid :: uid_t
  i_gid :: gid_t
  i_flags :: u32
  s_flags :: u32
  i_acl :: "'p option"
  i_default_acl :: "'p option"

record vfs =
  task :: kstate
  umask :: u32
  inodes :: "acl_ptr inode list"
  acls :: "posix_acl option list"

abbreviation get_inode :: "vfs \<Rightarrow> nat \<Rightarrow> acl_ptr inode" where
  "get_inode v ino \<equiv> inodes v ! ino"

definition put_inode :: "nat \<Rightarrow> acl_ptr inode \<Rightarrow> vfs \<Rightarrow> vfs" where
  "put_inode ino i v = v\<lparr>inodes := (inodes v)[ino := i]\<rparr>"

definition set_i_mode :: "nat \<Rightarrow> mode_t \<Rightarrow> vfs \<Rightarrow> vfs" where
  "set_i_mode ino m v = put_inode ino ((get_inode v ino)\<lparr>i_mode := m\<rparr>) v"

definition acl_at :: "vfs \<Rightarrow> acl_ptr \<Rightarrow> posix_acl option" where
  "acl_at v p = (if p < length (acls v) then acls v ! p else None)"

definition acl_put :: "acl_ptr \<Rightarrow> posix_acl option \<Rightarrow> vfs \<Rightarrow> vfs" where
  "acl_put p a v = v\<lparr>acls := (acls v)[p := a]\<rparr>"

section \<open>Reference counts\<close>

text \<open>
  \<open>posix_acl_alloc\<close> when memory is available, with the entries that its caller then fills in.
  A count never overflows: an inode holds two references and a running call two more.
\<close>

definition posix_acl_alloc :: "posix_acl_entry list \<Rightarrow> vfs \<Rightarrow> acl_ptr \<times> vfs" where
  "posix_acl_alloc es v =
     (length (acls v), v\<lparr>acls := acls v @ [Some \<lparr>a_refcount = 1, a_entries = es\<rparr>]\<rparr>)"

definition posix_acl_clone :: "bool \<Rightarrow> acl_ptr \<Rightarrow> vfs \<Rightarrow> (acl_ptr option \<times> vfs) option" where
  "posix_acl_clone mem p v =
     do { a \<leftarrow> acl_at v p;
          if mem then let (q, v) = posix_acl_alloc (a_entries a) v in Some (Some q, v)
          else Some (None, v) }"

definition posix_acl_dup :: "acl_ptr option \<Rightarrow> vfs \<Rightarrow> vfs option" where
  "posix_acl_dup acl v =
     (case acl of
        None \<Rightarrow> Some v
      | Some p \<Rightarrow> do { a \<leftarrow> acl_at v p;
                       Some (acl_put p (Some (a\<lparr>a_refcount := a_refcount a + 1\<rparr>)) v) })"

definition posix_acl_release :: "acl_ptr option \<Rightarrow> vfs \<Rightarrow> vfs option" where
  "posix_acl_release acl v =
     (case acl of
        None \<Rightarrow> Some v
      | Some p \<Rightarrow> do { a \<leftarrow> acl_at v p;
                       Some (acl_put p (if a_refcount a - 1 = 0 then None
                                        else Some (a\<lparr>a_refcount := a_refcount a - 1\<rparr>)) v) })"

section \<open>Generic operations on the ACLs of an inode\<close>

definition ACL_TYPE_ACCESS :: int where "ACL_TYPE_ACCESS = 0x8000"
definition ACL_TYPE_DEFAULT :: int where "ACL_TYPE_DEFAULT = 0x4000"

record generic_acl_operations =
  getacl :: "nat \<Rightarrow> int \<Rightarrow> vfs \<Rightarrow> (acl_ptr option \<times> vfs) option"
  setacl :: "nat \<Rightarrow> int \<Rightarrow> acl_ptr option \<Rightarrow> vfs \<Rightarrow> vfs option"

definition is_owner_or_cap :: "kenv \<Rightarrow> 'p inode \<Rightarrow> kstate \<Rightarrow> bool \<times> kstate" where
  "is_owner_or_cap env i s = or_capable env (fsuid (current_cred s) = i_uid i) CAP_FOWNER s"

definition POSIX_ACL_XATTR_ACCESS :: string where "POSIX_ACL_XATTR_ACCESS = ''system.posix_acl_access''"
definition POSIX_ACL_XATTR_DEFAULT :: string where "POSIX_ACL_XATTR_DEFAULT = ''system.posix_acl_default''"

text \<open>
  \<open>generic_acl_list\<close>: \<open>list\<close> is the size of the caller's buffer, or \<open>None\<close> for a null pointer. The
  result is the return value with what is written to the buffer, the name and the final zero byte.
\<close>

definition generic_acl_list ::
  "generic_acl_operations \<Rightarrow> nat \<Rightarrow> int \<Rightarrow> nat option \<Rightarrow> vfs \<Rightarrow> ((nat \<times> string) \<times> vfs) option" where
  "generic_acl_list ops ino type list v =
     do { (acl, v) \<leftarrow> getacl ops ino type v;
          case acl of
            None \<Rightarrow> Some ((0, []), v)
          | Some p \<Rightarrow>
              do { v \<leftarrow> posix_acl_release (Some p) v;
                   if type = ACL_TYPE_ACCESS \<or> type = ACL_TYPE_DEFAULT then
                     let name = (if type = ACL_TYPE_ACCESS then POSIX_ACL_XATTR_ACCESS
                                 else POSIX_ACL_XATTR_DEFAULT);
                         sz = length name + 1
                     in Some ((sz, case list of
                                       Some list_size \<Rightarrow> if sz \<le> list_size then name @ [CHR 0x00] else []
                                     | None \<Rightarrow> []), v)
                   else Some ((0, []), v) } }"

definition generic_acl_get ::
  "generic_acl_operations \<Rightarrow> nat \<Rightarrow> int \<Rightarrow> nat option \<Rightarrow> vfs \<Rightarrow> ((nat \<times> u8 list) kres \<times> vfs) option" where
  "generic_acl_get ops ino type buffer v =
     do { (acl, v) \<leftarrow> getacl ops ino type v;
          case acl of
            None \<Rightarrow> Some (Inl ENODATA, v)
          | Some p \<Rightarrow>
              do { a \<leftarrow> acl_at v p;
                   v \<leftarrow> posix_acl_release (Some p) v;
                   Some (posix_acl_to_xattr (a_entries a) buffer, v) } }"

text \<open>The label \<open>failed\<close> of \<open>generic_acl_set\<close>.\<close>

definition acl_set_failed :: "'a kres \<Rightarrow> acl_ptr \<Rightarrow> vfs \<Rightarrow> ('a kres \<times> vfs) option" where
  "acl_set_failed r p v = do { v \<leftarrow> posix_acl_release (Some p) v; Some (r, v) }"

text \<open>The part of \<open>generic_acl_set\<close> for an ACL that \<open>posix_acl_from_xattr\<close> has built with entries \<open>es\<close>.\<close>

definition acl_set_new ::
  "generic_acl_operations \<Rightarrow> nat \<Rightarrow> int \<Rightarrow> posix_acl_entry list \<Rightarrow> vfs \<Rightarrow> (unit kres \<times> vfs) option" where
  "acl_set_new ops ino type es v =
     (let (p, v) = posix_acl_alloc es v
      in case posix_acl_valid es of
           Inl e \<Rightarrow> acl_set_failed (Inl e) p v
         | Inr _ \<Rightarrow>
             if type = ACL_TYPE_ACCESS then
               (case posix_acl_equiv_mode es (i_mode (get_inode v ino)) of
                  Inl e \<Rightarrow> acl_set_failed (Inl e) p v
                | Inr (not_equiv, mode) \<Rightarrow>
                    let v = set_i_mode ino mode v
                    in if \<not> not_equiv then
                         do { v \<leftarrow> posix_acl_release (Some p) v;
                              v \<leftarrow> setacl ops ino type None v;
                              Some (Inr (), v) }
                       else
                         do { v \<leftarrow> setacl ops ino type (Some p) v;
                              acl_set_failed (Inr ()) p v })
             else if type = ACL_TYPE_DEFAULT \<and> \<not> S_ISDIR (i_mode (get_inode v ino)) then
               acl_set_failed (Inl EINVAL) p v
             else
               do { v \<leftarrow> setacl ops ino type (Some p) v;
                    acl_set_failed (Inr ()) p v })"

definition generic_acl_set ::
  "kenv \<Rightarrow> generic_acl_operations \<Rightarrow> bool \<Rightarrow> nat \<Rightarrow> int \<Rightarrow> u8 list option \<Rightarrow> vfs
    \<Rightarrow> (unit kres \<times> vfs) option" where
  "generic_acl_set env ops mem ino type val v =
     (if S_ISLNK (i_mode (get_inode v ino)) then Some (Inl EOPNOTSUPP, v)
      else
       let (ok, s) = is_owner_or_cap env (get_inode v ino) (task v); v = v\<lparr>task := s\<rparr>
       in if \<not> ok then Some (Inl EPERM, v)
          else case posix_acl_from_xattr mem val of
            Inl e \<Rightarrow> Some (Inl e, v)
          | Inr None \<Rightarrow> do { v \<leftarrow> setacl ops ino type None v; Some (Inr (), v) }
          | Inr (Some es) \<Rightarrow> acl_set_new ops ino type es v)"

text \<open>
  \<open>generic_acl_init\<close> for the new inode \<open>ino\<close> in the directory \<open>dir\<close>, in two parts: the default ACL
  of a new directory, and the access ACL. A function that changes an ACL in place (\<open>acl_modify\<close>) reads
  it from the store and writes it back.
\<close>

definition acl_modify ::
  "acl_ptr \<Rightarrow> (posix_acl_entry list \<Rightarrow> 'r \<times> posix_acl_entry list) \<Rightarrow> vfs \<Rightarrow> ('r \<times> vfs) option" where
  "acl_modify p f v =
     do { a \<leftarrow> acl_at v p;
          let (r, es) = f (a_entries a)
          in Some (r, acl_put p (Some (a\<lparr>a_entries := es\<rparr>)) v) }"

definition acl_init_default ::
  "generic_acl_operations \<Rightarrow> bool \<Rightarrow> nat \<Rightarrow> acl_ptr \<Rightarrow> vfs \<Rightarrow> (bool \<times> vfs) option" where
  "acl_init_default ops mem ino p v =
     (if S_ISDIR (i_mode (get_inode v ino)) then
        do { (clone, v) \<leftarrow> posix_acl_clone mem p v;
             case clone of
               None \<Rightarrow> Some (False, v)
             | Some c \<Rightarrow>
                 do { v \<leftarrow> setacl ops ino ACL_TYPE_DEFAULT (Some c) v;
                      v \<leftarrow> posix_acl_release (Some c) v;
                      Some (True, v) } }
      else Some (True, v))"

definition acl_init_access ::
  "generic_acl_operations \<Rightarrow> bool \<Rightarrow> nat \<Rightarrow> acl_ptr \<Rightarrow> mode_t \<Rightarrow> vfs \<Rightarrow> (bool \<times> vfs) option" where
  "acl_init_access ops mem ino p mode v =
     do { (clone, v) \<leftarrow> posix_acl_clone mem p v;
          case clone of
            None \<Rightarrow> Some (False, v)
          | Some c \<Rightarrow>
              do { (r, v) \<leftarrow> acl_modify c (\<lambda>es. posix_acl_create_masq es mode) v;
                   v \<leftarrow> (case r of
                            Inl _ \<Rightarrow> Some v
                          | Inr (not_equiv, mode') \<Rightarrow>
                              let v = set_i_mode ino mode' v
                              in if not_equiv then setacl ops ino ACL_TYPE_ACCESS (Some c) v
                                 else Some v);
                   v \<leftarrow> posix_acl_release (Some c) v;
                   Some (True, v) } }"

definition generic_acl_init ::
  "generic_acl_operations \<Rightarrow> (nat \<Rightarrow> bool) \<Rightarrow> nat \<Rightarrow> nat \<Rightarrow> vfs \<Rightarrow> (unit kres \<times> vfs) option" where
  "generic_acl_init ops mem ino dir v =
     (let mode = i_mode (get_inode v ino);
          v = set_i_mode ino (mode AND NOT (ucast (umask v))) v
      in do { (acl, v) \<leftarrow> (if \<not> S_ISLNK (i_mode (get_inode v ino))
                            then getacl ops dir ACL_TYPE_DEFAULT v else Some (None, v));
              case acl of
                None \<Rightarrow> Some (Inr (), v)
              | Some p \<Rightarrow>
                  do { (ok, v) \<leftarrow> acl_init_default ops (mem 0) ino p v;
                       (ok, v) \<leftarrow> (if ok then acl_init_access ops (mem 1) ino p mode v
                                    else Some (False, v));
                       v \<leftarrow> posix_acl_release (Some p) v;
                       Some (if ok then Inr () else Inl ENOMEM, v) } })"

definition generic_acl_chmod ::
  "generic_acl_operations \<Rightarrow> bool \<Rightarrow> nat \<Rightarrow> vfs \<Rightarrow> (unit kres \<times> vfs) option" where
  "generic_acl_chmod ops mem ino v =
     (if S_ISLNK (i_mode (get_inode v ino)) then Some (Inl EOPNOTSUPP, v)
      else
       do { (acl, v) \<leftarrow> getacl ops ino ACL_TYPE_ACCESS v;
            case acl of
              None \<Rightarrow> Some (Inr (), v)
            | Some p \<Rightarrow>
                do { (clone, v) \<leftarrow> posix_acl_clone mem p v;
                     v \<leftarrow> posix_acl_release (Some p) v;
                     case clone of
                       None \<Rightarrow> Some (Inl ENOMEM, v)
                     | Some c \<Rightarrow>
                         do { (r, v) \<leftarrow> acl_modify c
                                 (\<lambda>es. posix_acl_chmod_masq es (i_mode (get_inode v ino))) v;
                              v \<leftarrow> (if is_ok r then setacl ops ino ACL_TYPE_ACCESS (Some c) v else Some v);
                              v \<leftarrow> posix_acl_release (Some c) v;
                              Some (r, v) } } })"

section \<open>tmpfs\<close>

definition shmem_get_acl :: "nat \<Rightarrow> int \<Rightarrow> vfs \<Rightarrow> (acl_ptr option \<times> vfs) option" where
  "shmem_get_acl ino type v =
     (let acl = (if type = ACL_TYPE_ACCESS then i_acl (get_inode v ino)
                 else if type = ACL_TYPE_DEFAULT then i_default_acl (get_inode v ino)
                 else None)
      in do { v \<leftarrow> posix_acl_dup acl v; Some (acl, v) })"

definition shmem_set_acl :: "nat \<Rightarrow> int \<Rightarrow> acl_ptr option \<Rightarrow> vfs \<Rightarrow> vfs option" where
  "shmem_set_acl ino type acl v =
     (if type = ACL_TYPE_ACCESS then
        do { let free = i_acl (get_inode v ino);
             v \<leftarrow> posix_acl_dup acl v;
             posix_acl_release free (put_inode ino ((get_inode v ino)\<lparr>i_acl := acl\<rparr>) v) }
      else if type = ACL_TYPE_DEFAULT then
        do { let free = i_default_acl (get_inode v ino);
             v \<leftarrow> posix_acl_dup acl v;
             posix_acl_release free (put_inode ino ((get_inode v ino)\<lparr>i_default_acl := acl\<rparr>) v) }
      else Some v)"

definition shmem_acl_ops :: generic_acl_operations where
  "shmem_acl_ops = \<lparr>getacl = shmem_get_acl, setacl = shmem_set_acl\<rparr>"

definition shmem_list_acl_access :: "nat \<Rightarrow> nat option \<Rightarrow> vfs \<Rightarrow> ((nat \<times> string) \<times> vfs) option" where
  "shmem_list_acl_access ino list v = generic_acl_list shmem_acl_ops ino ACL_TYPE_ACCESS list v"

definition shmem_get_acl_access ::
  "nat \<Rightarrow> string \<Rightarrow> nat option \<Rightarrow> vfs \<Rightarrow> ((nat \<times> u8 list) kres \<times> vfs) option" where
  "shmem_get_acl_access ino name buffer v =
     (if name \<noteq> '''' then Some (Inl EINVAL, v)
      else generic_acl_get shmem_acl_ops ino ACL_TYPE_ACCESS buffer v)"

definition shmem_set_acl_access ::
  "kenv \<Rightarrow> bool \<Rightarrow> nat \<Rightarrow> string \<Rightarrow> u8 list option \<Rightarrow> vfs \<Rightarrow> (unit kres \<times> vfs) option" where
  "shmem_set_acl_access env mem ino name val v =
     (if name \<noteq> '''' then Some (Inl EINVAL, v)
      else generic_acl_set env shmem_acl_ops mem ino ACL_TYPE_ACCESS val v)"

definition shmem_list_acl_default :: "nat \<Rightarrow> nat option \<Rightarrow> vfs \<Rightarrow> ((nat \<times> string) \<times> vfs) option" where
  "shmem_list_acl_default ino list v = generic_acl_list shmem_acl_ops ino ACL_TYPE_DEFAULT list v"

definition shmem_get_acl_default ::
  "nat \<Rightarrow> string \<Rightarrow> nat option \<Rightarrow> vfs \<Rightarrow> ((nat \<times> u8 list) kres \<times> vfs) option" where
  "shmem_get_acl_default ino name buffer v =
     (if name \<noteq> '''' then Some (Inl EINVAL, v)
      else generic_acl_get shmem_acl_ops ino ACL_TYPE_DEFAULT buffer v)"

definition shmem_set_acl_default ::
  "kenv \<Rightarrow> bool \<Rightarrow> nat \<Rightarrow> string \<Rightarrow> u8 list option \<Rightarrow> vfs \<Rightarrow> (unit kres \<times> vfs) option" where
  "shmem_set_acl_default env mem ino name val v =
     (if name \<noteq> '''' then Some (Inl EINVAL, v)
      else generic_acl_set env shmem_acl_ops mem ino ACL_TYPE_DEFAULT val v)"

definition shmem_acl_init :: "(nat \<Rightarrow> bool) \<Rightarrow> nat \<Rightarrow> nat \<Rightarrow> vfs \<Rightarrow> (unit kres \<times> vfs) option" where
  "shmem_acl_init mem ino dir v = generic_acl_init shmem_acl_ops mem ino dir v"

definition shmem_acl_destroy_inode :: "nat \<Rightarrow> vfs \<Rightarrow> vfs option" where
  "shmem_acl_destroy_inode ino v =
     do { v \<leftarrow> posix_acl_release (i_acl (get_inode v ino)) v;
          let v = put_inode ino ((get_inode v ino)\<lparr>i_acl := None\<rparr>) v;
          v \<leftarrow> posix_acl_release (i_default_acl (get_inode v ino)) v;
          Some (put_inode ino ((get_inode v ino)\<lparr>i_default_acl := None\<rparr>) v) }"

definition shmem_check_acl :: "nat \<Rightarrow> u32 \<Rightarrow> vfs \<Rightarrow> (unit kres \<times> vfs) option" where
  "shmem_check_acl ino want v =
     do { (acl, v) \<leftarrow> shmem_get_acl ino ACL_TYPE_ACCESS v;
          case acl of
            None \<Rightarrow> Some (Inl EAGAIN, v)
          | Some p \<Rightarrow>
              do { a \<leftarrow> acl_at v p;
                   let error = posix_acl_permission (task v) (i_uid (get_inode v ino))
                                 (i_gid (get_inode v ino)) (a_entries a) want;
                   v \<leftarrow> posix_acl_release (Some p) v;
                   Some (error, v) } }"

end
