(* ===== verification/VfsPerm.thy ===== *)
theory VfsPerm
  imports AclStore Commoncap
begin

text \<open>
  Permission checks and changes of attributes in the VFS, as they run on a tmpfs:
  \<open>generic_permission\<close>, \<open>inode_permission\<close>, \<open>check_sticky\<close>, \<open>may_delete\<close> and \<open>may_create\<close> of
  \<open>fs/namei.c\<close>; \<open>fs/attr.c\<close>; \<open>sys_fchmod\<close> and \<open>chown_common\<close> of \<open>fs/open.c\<close>; \<open>shmem_permission\<close> of
  \<open>mm/shmem_acl.c\<close> and \<open>shmem_notify_change\<close> of \<open>mm/shmem.c\<close>.

  An operation pointer of \<open>inode->i_op\<close> is an argument of type \<open>option\<close>, \<open>None\<close> for a null pointer.
  With this configuration the hooks \<open>security_*\<close> are those of \<open>Commoncap\<close> or do nothing, and device
  cgroups and quotas are off. Sizes of files, times, dentries and the notification of watchers are not
  part of the model; so \<open>notify_change\<close> is modelled for requests without \<open>ATTR_SIZE\<close>.
\<close>

section \<open>Flags\<close>

definition MAY_EXEC :: u32 where "MAY_EXEC = 1"
definition MAY_WRITE :: u32 where "MAY_WRITE = 2"
definition MAY_READ :: u32 where "MAY_READ = 4"

definition MS_RDONLY :: u32 where "MS_RDONLY = 1"
definition MS_POSIXACL :: u32 where "MS_POSIXACL = 0x10000"

definition S_APPEND :: u32 where "S_APPEND = 4"
definition S_IMMUTABLE :: u32 where "S_IMMUTABLE = 8"
definition S_DEAD :: u32 where "S_DEAD = 16"
definition S_SWAPFILE :: u32 where "S_SWAPFILE = 256"

definition IS_RDONLY :: "'p inode \<Rightarrow> bool" where "IS_RDONLY i = (s_flags i AND MS_RDONLY \<noteq> 0)"
definition IS_POSIXACL :: "'p inode \<Rightarrow> bool" where "IS_POSIXACL i = (s_flags i AND MS_POSIXACL \<noteq> 0)"
definition IS_APPEND :: "'p inode \<Rightarrow> bool" where "IS_APPEND i = (i_flags i AND S_APPEND \<noteq> 0)"
definition IS_IMMUTABLE :: "'p inode \<Rightarrow> bool" where "IS_IMMUTABLE i = (i_flags i AND S_IMMUTABLE \<noteq> 0)"
definition IS_DEADDIR :: "'p inode \<Rightarrow> bool" where "IS_DEADDIR i = (i_flags i AND S_DEAD \<noteq> 0)"
definition IS_SWAPFILE :: "'p inode \<Rightarrow> bool" where "IS_SWAPFILE i = (i_flags i AND S_SWAPFILE \<noteq> 0)"

section \<open>Permission to access an inode\<close>

definition execute_ok :: "'p inode \<Rightarrow> bool" where
  "execute_ok i = (i_mode i AND S_IXUGO \<noteq> 0 \<or> S_ISDIR (i_mode i))"

text \<open>The label \<open>check_capabilities\<close> of \<open>generic_permission\<close>.\<close>

definition check_capabilities :: "kenv \<Rightarrow> 'p inode \<Rightarrow> u32 \<Rightarrow> kstate \<Rightarrow> unit kres \<times> kstate" where
  "check_capabilities env i want s =
     (let (ok, s) = (if want AND MAY_EXEC = 0 \<or> execute_ok i then capable env CAP_DAC_OVERRIDE s
                     else (False, s))
      in if ok then (Inr (), s)
         else let (ok, s) = (if want = MAY_READ \<or> S_ISDIR (i_mode i) \<and> want AND MAY_WRITE = 0
                             then capable env CAP_DAC_READ_SEARCH s else (False, s))
              in (if ok then Inr () else Inl EACCES, s))"

text \<open>The rest of \<open>generic_permission\<close> once \<open>mode\<close> has been shifted to the bits that apply.\<close>

definition check_mode :: "kenv \<Rightarrow> 'p inode \<Rightarrow> mode_t \<Rightarrow> u32 \<Rightarrow> kstate \<Rightarrow> unit kres \<times> kstate" where
  "check_mode env i mode want s =
     (if want AND NOT (ucast mode) = 0 then (Inr (), s) else check_capabilities env i want s)"

definition with_task :: "vfs \<Rightarrow> (kstate \<Rightarrow> 'a \<times> kstate) \<Rightarrow> 'a \<times> vfs" where
  "with_task v f = (let (r, s) = f (task v) in (r, v\<lparr>task := s\<rparr>))"

type_synonym check_op = "nat \<Rightarrow> u32 \<Rightarrow> vfs \<Rightarrow> (unit kres \<times> vfs) option"

definition generic_permission :: "kenv \<Rightarrow> check_op option \<Rightarrow> check_op" where
  "generic_permission env check_acl ino want v =
     (let want = want AND (MAY_READ OR MAY_WRITE OR MAY_EXEC);
          i = get_inode v ino; mode = i_mode i;
          group_or_other = (\<lambda>v. with_task v (check_mode env i
             (if in_group_p (task v) (i_gid i) then drop_bit 3 mode else mode) want))
      in if fsuid (current_cred (task v)) = i_uid i
         then Some (with_task v (check_mode env i (drop_bit 6 mode) want))
         else if IS_POSIXACL i \<and> mode AND S_IRWXG \<noteq> 0 \<and> check_acl \<noteq> None then
           do { (error, v) \<leftarrow> the check_acl ino want v;
                if error = Inl EACCES then Some (with_task v (check_capabilities env i want))
                else if error \<noteq> Inl EAGAIN then Some (error, v)
                else Some (group_or_other v) }
         else Some (group_or_other v))"

definition inode_permission :: "kenv \<Rightarrow> check_op option \<Rightarrow> check_op" where
  "inode_permission env permission ino want v =
     (let i = get_inode v ino; mode = i_mode i
      in if want AND MAY_WRITE \<noteq> 0 \<and> IS_RDONLY i \<and> (S_ISREG mode \<or> S_ISDIR mode \<or> S_ISLNK mode)
         then Some (Inl EROFS, v)
         else if want AND MAY_WRITE \<noteq> 0 \<and> IS_IMMUTABLE i then Some (Inl EACCES, v)
         else case permission of
                Some op \<Rightarrow> op ino want v
              | None \<Rightarrow> generic_permission env None ino want v)"

definition shmem_permission :: "kenv \<Rightarrow> check_op" where
  "shmem_permission env ino want v = generic_permission env (Some shmem_check_acl) ino want v"

text \<open>
  \<open>permission\<close> of the \<open>inode_operations\<close> of tmpfs: those of symbolic links have none.
\<close>

definition shmem_permission_op :: "kenv \<Rightarrow> 'p inode \<Rightarrow> check_op option" where
  "shmem_permission_op env i = (if S_ISLNK (i_mode i) then None else Some (shmem_permission env))"

definition tmpfs_permission :: "kenv \<Rightarrow> check_op" where
  "tmpfs_permission env ino want v =
     inode_permission env (shmem_permission_op env (get_inode v ino)) ino want v"

section \<open>Permission to change a directory\<close>

definition check_sticky :: "kenv \<Rightarrow> 'p inode \<Rightarrow> 'p inode \<Rightarrow> kstate \<Rightarrow> bool \<times> kstate" where
  "check_sticky env dir i s =
     (let fsu = fsuid (current_cred s)
      in if i_mode dir AND S_ISVTX = 0 then (False, s)
         else if i_uid i = fsu then (False, s)
         else if i_uid dir = fsu then (False, s)
         else let (ok, s) = capable env CAP_FOWNER s in (\<not> ok, s))"

text \<open>
  \<open>may_delete\<close> of the entry \<open>victim\<close> of the directory \<open>dir\<close>; \<open>victim\<close> is the inode of the dentry, if it
  has one. \<open>IS_ROOT\<close> (a dentry that is its own parent) is an argument; the flag for NFS is never set
  on a tmpfs.
\<close>

definition may_delete ::
  "kenv \<Rightarrow> nat \<Rightarrow> nat option \<Rightarrow> bool \<Rightarrow> bool \<Rightarrow> vfs \<Rightarrow> (unit kres \<times> vfs) option" where
  "may_delete env dir victim is_root isdir v =
     (case victim of
        None \<Rightarrow> Some (Inl ENOENT, v)
      | Some ino \<Rightarrow>
          do { (error, v) \<leftarrow> tmpfs_permission env dir (MAY_WRITE OR MAY_EXEC) v;
               let d = get_inode v dir; i = get_inode v ino
               in if \<not> is_ok error then Some (error, v)
                  else if IS_APPEND d then Some (Inl EPERM, v)
                  else let (sticky, v) = with_task v (check_sticky env d i)
                       in if sticky \<or> IS_APPEND i \<or> IS_IMMUTABLE i \<or> IS_SWAPFILE i then Some (Inl EPERM, v)
                          else if isdir \<and> \<not> S_ISDIR (i_mode i) then Some (Inl ENOTDIR, v)
                          else if isdir \<and> is_root then Some (Inl EBUSY, v)
                          else if \<not> isdir \<and> S_ISDIR (i_mode i) then Some (Inl EISDIR, v)
                          else if IS_DEADDIR d then Some (Inl ENOENT, v)
                          else Some (Inr (), v) })"

definition may_create :: "kenv \<Rightarrow> nat \<Rightarrow> nat option \<Rightarrow> vfs \<Rightarrow> (unit kres \<times> vfs) option" where
  "may_create env dir child v =
     (if child \<noteq> None then Some (Inl EEXIST, v)
      else if IS_DEADDIR (get_inode v dir) then Some (Inl ENOENT, v)
      else tmpfs_permission env dir (MAY_WRITE OR MAY_EXEC) v)"

section \<open>Changing attributes\<close>

definition ATTR_MODE :: u32 where "ATTR_MODE = 0x1"
definition ATTR_UID :: u32 where "ATTR_UID = 0x2"
definition ATTR_GID :: u32 where "ATTR_GID = 0x4"
definition ATTR_CTIME :: u32 where "ATTR_CTIME = 0x40"
definition ATTR_ATIME_SET :: u32 where "ATTR_ATIME_SET = 0x80"
definition ATTR_MTIME_SET :: u32 where "ATTR_MTIME_SET = 0x100"
definition ATTR_FORCE :: u32 where "ATTR_FORCE = 0x200"
definition ATTR_KILL_SUID :: u32 where "ATTR_KILL_SUID = 0x800"
definition ATTR_KILL_SGID :: u32 where "ATTR_KILL_SGID = 0x1000"
definition ATTR_KILL_PRIV :: u32 where "ATTR_KILL_PRIV = 0x4000"
definition ATTR_TIMES_SET :: u32 where "ATTR_TIMES_SET = 0x10000"

lemmas attr_defs = ATTR_MODE_def ATTR_UID_def ATTR_GID_def ATTR_CTIME_def ATTR_ATIME_SET_def
  ATTR_MTIME_SET_def ATTR_FORCE_def ATTR_KILL_SUID_def ATTR_KILL_SGID_def ATTR_KILL_PRIV_def
  ATTR_TIMES_SET_def

record iattr =
  ia_valid :: u32
  ia_mode :: mode_t
  ia_uid :: uid_t
  ia_gid :: gid_t

abbreviation has_attr :: "iattr \<Rightarrow> u32 \<Rightarrow> bool" where
  "has_attr a f \<equiv> ia_valid a AND f \<noteq> 0"

text \<open>
  \<open>inode_change_ok\<close> returns its verdict and the attributes, whose \<open>ia_mode\<close> it may change. The C code
  evaluates \<open>capable\<close> last in each condition, so the task is marked only when the capability decides.
  \<open>chown_ok\<close>, \<open>chgrp_ok\<close>, \<open>chmod_ok\<close> and \<open>times_ok\<close> are its four checks, \<open>setattr_inode\<close> is the
  body of \<open>inode_setattr\<close>.
\<close>

definition chown_ok :: "kenv \<Rightarrow> 'p inode \<Rightarrow> iattr \<Rightarrow> kstate \<Rightarrow> bool \<times> kstate" where
  "chown_ok env i attr s =
     or_capable env (\<not> (has_attr attr ATTR_UID \<and>
       (fsuid (current_cred s) \<noteq> i_uid i \<or> ia_uid attr \<noteq> i_uid i))) CAP_CHOWN s"

definition chgrp_ok :: "kenv \<Rightarrow> 'p inode \<Rightarrow> iattr \<Rightarrow> kstate \<Rightarrow> bool \<times> kstate" where
  "chgrp_ok env i attr s =
     or_capable env (\<not> (has_attr attr ATTR_GID \<and>
       (fsuid (current_cred s) \<noteq> i_uid i \<or>
        \<not> in_group_p s (ia_gid attr) \<and> ia_gid attr \<noteq> i_gid i))) CAP_CHOWN s"

definition chmod_ok :: "kenv \<Rightarrow> 'p inode \<Rightarrow> iattr \<Rightarrow> kstate \<Rightarrow> bool \<times> iattr \<times> kstate" where
  "chmod_ok env i attr s =
     (if has_attr attr ATTR_MODE then
        let (ok, s) = is_owner_or_cap env i s
        in if \<not> ok then (False, attr, s)
           else let (keep, s) = or_capable env
                      (in_group_p s (if has_attr attr ATTR_GID then ia_gid attr else i_gid i)) CAP_FSETID s
                in (True, if keep then attr else attr\<lparr>ia_mode := ia_mode attr AND NOT S_ISGID\<rparr>, s)
      else (True, attr, s))"

definition times_ok :: "kenv \<Rightarrow> 'p inode \<Rightarrow> iattr \<Rightarrow> kstate \<Rightarrow> bool \<times> kstate" where
  "times_ok env i attr s =
     (if has_attr attr (ATTR_MTIME_SET OR ATTR_ATIME_SET OR ATTR_TIMES_SET)
      then is_owner_or_cap env i s else (True, s))"

definition inode_change_ok :: "kenv \<Rightarrow> 'p inode \<Rightarrow> iattr \<Rightarrow> kstate \<Rightarrow> unit kres \<times> iattr \<times> kstate" where
  "inode_change_ok env i attr s =
     (if has_attr attr ATTR_FORCE then (Inr (), attr, s)
      else let (ok, s) = chown_ok env i attr s in if \<not> ok then (Inl EPERM, attr, s)
      else let (ok, s) = chgrp_ok env i attr s in if \<not> ok then (Inl EPERM, attr, s)
      else let (ok, attr, s) = chmod_ok env i attr s in if \<not> ok then (Inl EPERM, attr, s)
      else let (ok, s) = times_ok env i attr s in if \<not> ok then (Inl EPERM, attr, s)
      else (Inr (), attr, s))"

definition setattr_inode :: "kenv \<Rightarrow> iattr \<Rightarrow> 'p inode \<Rightarrow> kstate \<Rightarrow> 'p inode \<times> kstate" where
  "setattr_inode env attr i s =
     (let i = (if has_attr attr ATTR_UID then i\<lparr>i_uid := ia_uid attr\<rparr> else i);
          i = (if has_attr attr ATTR_GID then i\<lparr>i_gid := ia_gid attr\<rparr> else i)
      in if has_attr attr ATTR_MODE then
           let (keep, s) = or_capable env (in_group_p s (i_gid i)) CAP_FSETID s
           in (i\<lparr>i_mode := if keep then ia_mode attr else ia_mode attr AND NOT S_ISGID\<rparr>, s)
         else (i, s))"

definition inode_setattr :: "kenv \<Rightarrow> nat \<Rightarrow> iattr \<Rightarrow> vfs \<Rightarrow> vfs" where
  "inode_setattr env ino attr v =
     (let (i, s) = setattr_inode env attr (get_inode v ino) (task v)
      in put_inode ino i (v\<lparr>task := s\<rparr>))"

definition shmem_notify_change :: "kenv \<Rightarrow> bool \<Rightarrow> nat \<Rightarrow> iattr \<Rightarrow> vfs \<Rightarrow> (unit kres \<times> vfs) option" where
  "shmem_notify_change env mem ino attr v =
     (let (error, attr, s) = inode_change_ok env (get_inode v ino) attr (task v);
          v = v\<lparr>task := s\<rparr>
      in if \<not> is_ok error then Some (error, v)
         else let v = inode_setattr env ino attr v
              in if has_attr attr ATTR_MODE then generic_acl_chmod shmem_acl_ops mem ino v
                 else Some (Inr (), v))"

text \<open>
  The two \<open>ATTR_KILL_S*ID\<close> steps of \<open>notify_change\<close>, on the attributes; \<open>mode\<close> is the mode of the inode.
\<close>

definition attr_kill :: "mode_t \<Rightarrow> iattr \<Rightarrow> iattr" where
  "attr_kill mode attr =
     (let attr = (if has_attr attr ATTR_KILL_SUID \<and> mode AND S_ISUID \<noteq> 0
                  then attr\<lparr>ia_valid := ia_valid attr OR ATTR_MODE, ia_mode := mode AND NOT S_ISUID\<rparr>
                  else attr)
      in if has_attr attr ATTR_KILL_SGID \<and> mode AND (S_ISGID OR S_IXGRP) = S_ISGID OR S_IXGRP
         then let attr = (if has_attr attr ATTR_MODE then attr
                          else attr\<lparr>ia_valid := ia_valid attr OR ATTR_MODE, ia_mode := mode\<rparr>)
              in attr\<lparr>ia_mode := ia_mode attr AND NOT S_ISGID\<rparr>
         else attr)"

text \<open>
  \<open>notify_change\<close> on a tmpfs. A symbolic link has no \<open>setattr\<close>. tmpfs has no attribute in \<open>security.*\<close>,
  so the hook for \<open>ATTR_KILL_PRIV\<close> sees its \<open>getxattr\<close> fail.
\<close>

definition notify_change :: "kenv \<Rightarrow> bool \<Rightarrow> nat \<Rightarrow> iattr \<Rightarrow> vfs \<Rightarrow> (unit kres \<times> vfs) option" where
  "notify_change env mem ino attr v =
     (let i = get_inode v ino
      in if has_attr attr (ATTR_MODE OR ATTR_UID OR ATTR_GID OR ATTR_TIMES_SET) \<and>
            (IS_IMMUTABLE i \<or> IS_APPEND i) then Some (Inl EPERM, v)
         else
          let kill = (if has_attr attr ATTR_KILL_PRIV \<and>
                         cap_inode_need_killpriv env (Some (Inl EOPNOTSUPP)) > 0
                      then cap_inode_killpriv env (Some (Inl EOPNOTSUPP)) else Inr ());
              attr = attr\<lparr>ia_valid := ia_valid attr AND NOT ATTR_KILL_PRIV\<rparr>
          in if \<not> is_ok kill then Some (kill, v)
             else if has_attr attr (ATTR_KILL_SUID OR ATTR_KILL_SGID) \<and> has_attr attr ATTR_MODE then None
             else
              let attr = attr_kill (i_mode i) attr
              in if \<not> has_attr attr (NOT (ATTR_KILL_SUID OR ATTR_KILL_SGID)) then Some (Inr (), v)
                 else if \<not> S_ISLNK (i_mode i) then shmem_notify_change env mem ino attr v
                 else let (error, attr, s) = inode_change_ok env i attr (task v); v = v\<lparr>task := s\<rparr>
                      in Some (error, if is_ok error then inode_setattr env ino attr v else v))"

text \<open>
  The part of \<open>sys_fchmod\<close> and \<open>sys_fchmodat\<close> after the inode has been found and write access to the
  mount obtained, and \<open>chown_common\<close>. Attributes that \<open>ia_valid\<close> does not name are not initialised
  in C and never read; here they are 0.
\<close>

definition sys_fchmod :: "kenv \<Rightarrow> bool \<Rightarrow> nat \<Rightarrow> mode_t \<Rightarrow> vfs \<Rightarrow> (unit kres \<times> vfs) option" where
  "sys_fchmod env mem ino mode v =
     (let old = i_mode (get_inode v ino); mode = (if mode = -1 then old else mode)
      in notify_change env mem ino
           \<lparr>ia_valid = ATTR_MODE OR ATTR_CTIME,
            ia_mode = (mode AND S_IALLUGO) OR (old AND NOT S_IALLUGO), ia_uid = 0, ia_gid = 0\<rparr> v)"

definition chown_common :: "kenv \<Rightarrow> bool \<Rightarrow> nat \<Rightarrow> uid_t \<Rightarrow> gid_t \<Rightarrow> vfs \<Rightarrow> (unit kres \<times> vfs) option" where
  "chown_common env mem ino usr grp v =
     notify_change env mem ino
       \<lparr>ia_valid = ATTR_CTIME OR (if usr \<noteq> -1 then ATTR_UID else 0)
           OR (if grp \<noteq> -1 then ATTR_GID else 0)
           OR (if \<not> S_ISDIR (i_mode (get_inode v ino))
               then ATTR_KILL_SUID OR ATTR_KILL_SGID OR ATTR_KILL_PRIV else 0),
        ia_mode = 0, ia_uid = usr, ia_gid = grp\<rparr> v"

end
