(* ===== verification/Tmpfs.thy ===== *)
theory Tmpfs
  imports VfsPerm
begin

text \<open>
  Extended attributes (\<open>fs/xattr.c\<close>) with the handlers of tmpfs, the creation of inodes on a tmpfs
  (\<open>mm/shmem.c\<close>, and \<open>vfs_create\<close>, \<open>vfs_mknod\<close> and \<open>vfs_mkdir\<close> of \<open>fs/namei.c\<close>), and mounting one.

  A name is a string without the final zero byte. The buffer of a caller is given by its size, or
  \<open>None\<close> for a null pointer; what is written to it is part of the result.
\<close>

section \<open>Dispatch by the prefix of the name\<close>

record xattr_handler =
  xh_prefix :: string
  xh_list :: "nat \<Rightarrow> nat option \<Rightarrow> vfs \<Rightarrow> ((nat \<times> string) \<times> vfs) option"
  xh_get :: "nat \<Rightarrow> string \<Rightarrow> nat option \<Rightarrow> vfs \<Rightarrow> ((nat \<times> u8 list) kres \<times> vfs) option"
  xh_set :: "kenv \<Rightarrow> bool \<Rightarrow> nat \<Rightarrow> string \<Rightarrow> u8 list option \<Rightarrow> vfs \<Rightarrow> (unit kres \<times> vfs) option"

text \<open>The rest of the name after the prefix.\<close>

fun strcmp_prefix :: "string \<Rightarrow> string \<Rightarrow> string option" where
  "strcmp_prefix a [] = Some a"
| "strcmp_prefix [] (p # ps) = None"
| "strcmp_prefix (c # cs) (p # ps) = (if c = p then strcmp_prefix cs ps else None)"

fun xattr_resolve_name :: "xattr_handler list \<Rightarrow> string \<Rightarrow> (xattr_handler \<times> string) option" where
  "xattr_resolve_name [] name = None"
| "xattr_resolve_name (h # hs) name =
     (case strcmp_prefix name (xh_prefix h) of
        Some n \<Rightarrow> Some (h, n)
      | None \<Rightarrow> xattr_resolve_name hs name)"

definition generic_getxattr ::
  "xattr_handler list \<Rightarrow> nat \<Rightarrow> string \<Rightarrow> nat option \<Rightarrow> vfs \<Rightarrow> ((nat \<times> u8 list) kres \<times> vfs) option" where
  "generic_getxattr hs ino name buffer v =
     (case xattr_resolve_name hs name of
        None \<Rightarrow> Some (Inl EOPNOTSUPP, v)
      | Some (h, n) \<Rightarrow> xh_get h ino n buffer v)"

text \<open>The two loops of \<open>generic_listxattr\<close>.\<close>

fun listxattr_size :: "xattr_handler list \<Rightarrow> nat \<Rightarrow> vfs \<Rightarrow> (nat \<times> vfs) option" where
  "listxattr_size [] ino v = Some (0, v)"
| "listxattr_size (h # hs) ino v =
     do { ((n, _), v) \<leftarrow> xh_list h ino None v;
          (m, v) \<leftarrow> listxattr_size hs ino v;
          Some (n + m, v) }"

fun listxattr_fill ::
  "xattr_handler list \<Rightarrow> nat \<Rightarrow> nat \<Rightarrow> vfs \<Rightarrow> ((nat \<times> string) kres \<times> vfs) option" where
  "listxattr_fill [] ino sz v = Some (Inr (0, []), v)"
| "listxattr_fill (h # hs) ino sz v =
     do { ((n, out), v) \<leftarrow> xh_list h ino (Some sz) v;
          if n > sz then Some (Inl ERANGE, v)
          else do { (r, v) \<leftarrow> listxattr_fill hs ino (sz - n) v;
                    Some (map_sum (\<lambda>e. e) (\<lambda>(m, rest). (n + m, out @ rest)) r, v) } }"

definition generic_listxattr ::
  "xattr_handler list \<Rightarrow> nat \<Rightarrow> nat option \<Rightarrow> vfs \<Rightarrow> ((nat \<times> string) kres \<times> vfs) option" where
  "generic_listxattr hs ino buffer v =
     (case buffer of
        None \<Rightarrow> do { (n, v) \<leftarrow> listxattr_size hs ino v; Some (Inr (n, []), v) }
      | Some sz \<Rightarrow> listxattr_fill hs ino sz v)"

definition generic_setxattr ::
  "kenv \<Rightarrow> bool \<Rightarrow> xattr_handler list \<Rightarrow> nat \<Rightarrow> string \<Rightarrow> u8 list option \<Rightarrow> vfs
    \<Rightarrow> (unit kres \<times> vfs) option" where
  "generic_setxattr env mem hs ino name val v =
     (let val = (case val of None \<Rightarrow> Some [] | Some bs \<Rightarrow> Some bs)
      in case xattr_resolve_name hs name of
           None \<Rightarrow> Some (Inl EOPNOTSUPP, v)
         | Some (h, n) \<Rightarrow> xh_set h env mem ino n val v)"

definition generic_removexattr ::
  "kenv \<Rightarrow> bool \<Rightarrow> xattr_handler list \<Rightarrow> nat \<Rightarrow> string \<Rightarrow> vfs \<Rightarrow> (unit kres \<times> vfs) option" where
  "generic_removexattr env mem hs ino name v =
     (case xattr_resolve_name hs name of
        None \<Rightarrow> Some (Inl EOPNOTSUPP, v)
      | Some (h, n) \<Rightarrow> xh_set h env mem ino n None v)"

section \<open>The handlers of tmpfs\<close>

text \<open>Without security modules there is nothing to list, get or set in \<open>security.*\<close>.\<close>

definition shmem_xattr_security_list :: "nat \<Rightarrow> nat option \<Rightarrow> vfs \<Rightarrow> ((nat \<times> string) \<times> vfs) option" where
  "shmem_xattr_security_list ino list v = Some ((0, []), v)"

definition shmem_xattr_security_get ::
  "nat \<Rightarrow> string \<Rightarrow> nat option \<Rightarrow> vfs \<Rightarrow> ((nat \<times> u8 list) kres \<times> vfs) option" where
  "shmem_xattr_security_get ino name buffer v =
     (if name = '''' then Some (Inl EINVAL, v) else Some (Inl EOPNOTSUPP, v))"

definition shmem_xattr_security_set ::
  "kenv \<Rightarrow> bool \<Rightarrow> nat \<Rightarrow> string \<Rightarrow> u8 list option \<Rightarrow> vfs \<Rightarrow> (unit kres \<times> vfs) option" where
  "shmem_xattr_security_set env mem ino name val v =
     (if name = '''' then Some (Inl EINVAL, v) else Some (Inl EOPNOTSUPP, v))"

definition shmem_xattr_handlers :: "xattr_handler list" where
  "shmem_xattr_handlers =
     [\<lparr>xh_prefix = POSIX_ACL_XATTR_ACCESS, xh_list = shmem_list_acl_access,
       xh_get = shmem_get_acl_access, xh_set = shmem_set_acl_access\<rparr>,
      \<lparr>xh_prefix = POSIX_ACL_XATTR_DEFAULT, xh_list = shmem_list_acl_default,
       xh_get = shmem_get_acl_default, xh_set = shmem_set_acl_default\<rparr>,
      \<lparr>xh_prefix = XATTR_SECURITY_PREFIX, xh_list = shmem_xattr_security_list,
       xh_get = shmem_xattr_security_get, xh_set = shmem_xattr_security_set\<rparr>]"

section \<open>Extended attributes in the VFS\<close>

definition XATTR_SYSTEM_PREFIX :: string where "XATTR_SYSTEM_PREFIX = ''system.''"
definition XATTR_TRUSTED_PREFIX :: string where "XATTR_TRUSTED_PREFIX = ''trusted.''"
definition XATTR_USER_PREFIX :: string where "XATTR_USER_PREFIX = ''user.''"

abbreviation has_prefix :: "string \<Rightarrow> string \<Rightarrow> bool" where
  "has_prefix p name \<equiv> take (length p) name = p"

definition xattr_permission ::
  "kenv \<Rightarrow> nat \<Rightarrow> string \<Rightarrow> u32 \<Rightarrow> vfs \<Rightarrow> (unit kres \<times> vfs) option" where
  "xattr_permission env ino name want v =
     (let i = get_inode v ino
      in if want AND MAY_WRITE \<noteq> 0 \<and> (IS_IMMUTABLE i \<or> IS_APPEND i) then Some (Inl EPERM, v)
         else if has_prefix XATTR_SECURITY_PREFIX name \<or> has_prefix XATTR_SYSTEM_PREFIX name
         then Some (Inr (), v)
         else if has_prefix XATTR_TRUSTED_PREFIX name then
           let (ok, v) = with_task v (capable env CAP_SYS_ADMIN)
           in Some (if ok then Inr () else Inl EPERM, v)
         else if has_prefix XATTR_USER_PREFIX name then
           if \<not> S_ISREG (i_mode i) \<and> \<not> S_ISDIR (i_mode i) then Some (Inl EPERM, v)
           else if S_ISDIR (i_mode i) \<and> i_mode i AND S_ISVTX \<noteq> 0 \<and> want AND MAY_WRITE \<noteq> 0 then
             let (ok, v) = with_task v (is_owner_or_cap env i)
             in if ok then tmpfs_permission env ino want v else Some (Inl EPERM, v)
           else tmpfs_permission env ino want v
         else tmpfs_permission env ino want v)"

text \<open>The operations on attributes of a symbolic link of tmpfs are null.\<close>

definition vfs_setxattr ::
  "kenv \<Rightarrow> bool \<Rightarrow> nat \<Rightarrow> string \<Rightarrow> u8 list option \<Rightarrow> vfs \<Rightarrow> (unit kres \<times> vfs) option" where
  "vfs_setxattr env mem ino name val v =
     do { (error, v) \<leftarrow> xattr_permission env ino name MAY_WRITE v;
          if \<not> is_ok error then Some (error, v)
          else let (error, v) = with_task v (cap_inode_setxattr env name)
               in if \<not> is_ok error then Some (error, v)
                  else if S_ISLNK (i_mode (get_inode v ino)) then Some (Inl EOPNOTSUPP, v)
                  else generic_setxattr env mem shmem_xattr_handlers ino name val v }"

definition vfs_getxattr ::
  "kenv \<Rightarrow> nat \<Rightarrow> string \<Rightarrow> nat option \<Rightarrow> vfs \<Rightarrow> ((nat \<times> u8 list) kres \<times> vfs) option" where
  "vfs_getxattr env ino name buffer v =
     do { (error, v) \<leftarrow> xattr_permission env ino name MAY_READ v;
          case error of
            Inl e \<Rightarrow> Some (Inl e, v)
          | Inr _ \<Rightarrow>
              if S_ISLNK (i_mode (get_inode v ino)) then Some (Inl EOPNOTSUPP, v)
              else generic_getxattr shmem_xattr_handlers ino name buffer v }"

definition vfs_listxattr :: "nat \<Rightarrow> nat option \<Rightarrow> vfs \<Rightarrow> ((nat \<times> string) kres \<times> vfs) option" where
  "vfs_listxattr ino buffer v =
     (if S_ISLNK (i_mode (get_inode v ino)) then Some (Inr (0, []), v)
      else generic_listxattr shmem_xattr_handlers ino buffer v)"

definition vfs_removexattr ::
  "kenv \<Rightarrow> bool \<Rightarrow> nat \<Rightarrow> string \<Rightarrow> vfs \<Rightarrow> (unit kres \<times> vfs) option" where
  "vfs_removexattr env mem ino name v =
     (if S_ISLNK (i_mode (get_inode v ino)) then Some (Inl EOPNOTSUPP, v)
      else do { (error, v) \<leftarrow> xattr_permission env ino name MAY_WRITE v;
                if \<not> is_ok error then Some (error, v)
                else let (error, v) = with_task v (cap_inode_removexattr env name)
                     in if \<not> is_ok error then Some (error, v)
                        else generic_removexattr env mem shmem_xattr_handlers ino name v })"

section \<open>Creating and destroying inodes\<close>

text \<open>
  \<open>shmem_get_inode\<close> when the limits of the mount and the memory allow a new inode: it gets the next
  number. Sizes, times and page-cache operations are not modelled. The int \<open>mode\<close> is cut to 16 bits.
\<close>

definition shmem_get_inode :: "u32 \<Rightarrow> u32 \<Rightarrow> vfs \<Rightarrow> nat \<times> vfs" where
  "shmem_get_inode sb_flags mode v =
     (length (inodes v),
      v\<lparr>inodes := inodes v @
         [\<lparr>i_mode = ucast mode, i_uid = fsuid (current_cred (task v)),
           i_gid = fsgid (current_cred (task v)), i_flags = 0, s_flags = sb_flags,
           i_acl = None, i_default_acl = None\<rparr>]\<rparr>)"

text \<open>\<open>iput\<close> of the inode with the highest number: its ACLs are released and it goes away.\<close>

definition iput_new :: "vfs \<Rightarrow> vfs option" where
  "iput_new v =
     do { v \<leftarrow> shmem_acl_destroy_inode (length (inodes v) - 1) v;
          Some (v\<lparr>inodes := butlast (inodes v)\<rparr>) }"

text \<open>
  \<open>inode_ok\<close> says whether \<open>shmem_get_inode\<close> succeeds. The result is the number of the inode that is
  attached to the dentry. \<open>security_inode_init_security\<close> is not supported in this configuration, which
  is not an error here.
\<close>

definition shmem_mknod ::
  "bool \<Rightarrow> (nat \<Rightarrow> bool) \<Rightarrow> nat \<Rightarrow> u32 \<Rightarrow> vfs \<Rightarrow> (nat kres \<times> vfs) option" where
  "shmem_mknod inode_ok mem dir mode v =
     (if \<not> inode_ok then Some (Inl ENOSPC, v)
      else
       let (ino, v) = shmem_get_inode (s_flags (get_inode v dir)) mode v
       in do { (error, v) \<leftarrow> shmem_acl_init mem ino dir v;
               case error of
                 Inl e \<Rightarrow> do { v \<leftarrow> iput_new v; Some (Inl e, v) }
               | Inr _ \<Rightarrow>
                   let d = get_inode v dir; i = get_inode v ino
                   in if i_mode d AND S_ISGID \<noteq> 0 then
                        Some (Inr ino, put_inode ino
                          (i\<lparr>i_gid := i_gid d,
                             i_mode := if S_ISDIR (ucast mode) then i_mode i OR S_ISGID else i_mode i\<rparr>) v)
                      else Some (Inr ino, v) })"

definition shmem_mkdir ::
  "bool \<Rightarrow> (nat \<Rightarrow> bool) \<Rightarrow> nat \<Rightarrow> u32 \<Rightarrow> vfs \<Rightarrow> (nat kres \<times> vfs) option" where
  "shmem_mkdir inode_ok mem dir mode v = shmem_mknod inode_ok mem dir (mode OR ucast S_IFDIR) v"

definition shmem_create ::
  "bool \<Rightarrow> (nat \<Rightarrow> bool) \<Rightarrow> nat \<Rightarrow> u32 \<Rightarrow> vfs \<Rightarrow> (nat kres \<times> vfs) option" where
  "shmem_create inode_ok mem dir mode v = shmem_mknod inode_ok mem dir (mode OR ucast S_IFREG) v"

section \<open>Creating files from the VFS\<close>

text \<open>
  \<open>child\<close> is the inode of the dentry, if it has one already. Only the inodes of directories have the
  operations \<open>create\<close>, \<open>mkdir\<close> and \<open>mknod\<close>.
\<close>

definition S_ISCHR :: "mode_t \<Rightarrow> bool" where "S_ISCHR m = (m AND S_IFMT = 0x2000)"
definition S_ISBLK :: "mode_t \<Rightarrow> bool" where "S_ISBLK m = (m AND S_IFMT = 0x6000)"

definition vfs_create ::
  "kenv \<Rightarrow> bool \<Rightarrow> (nat \<Rightarrow> bool) \<Rightarrow> nat \<Rightarrow> nat option \<Rightarrow> u32 \<Rightarrow> vfs \<Rightarrow> (nat kres \<times> vfs) option" where
  "vfs_create env inode_ok mem dir child mode v =
     do { (error, v) \<leftarrow> may_create env dir child v;
          case error of
            Inl e \<Rightarrow> Some (Inl e, v)
          | Inr _ \<Rightarrow>
              if \<not> S_ISDIR (i_mode (get_inode v dir)) then Some (Inl EACCES, v)
              else shmem_create inode_ok mem dir ((mode AND ucast S_IALLUGO) OR ucast S_IFREG) v }"

definition vfs_mknod ::
  "kenv \<Rightarrow> bool \<Rightarrow> (nat \<Rightarrow> bool) \<Rightarrow> nat \<Rightarrow> nat option \<Rightarrow> u32 \<Rightarrow> vfs \<Rightarrow> (nat kres \<times> vfs) option" where
  "vfs_mknod env inode_ok mem dir child mode v =
     do { (error, v) \<leftarrow> may_create env dir child v;
          case error of
            Inl e \<Rightarrow> Some (Inl e, v)
          | Inr _ \<Rightarrow>
              let (ok, v) = (if S_ISCHR (ucast mode) \<or> S_ISBLK (ucast mode)
                             then with_task v (capable env CAP_MKNOD) else (True, v))
              in if \<not> ok then Some (Inl EPERM, v)
                 else if \<not> S_ISDIR (i_mode (get_inode v dir)) then Some (Inl EPERM, v)
                 else shmem_mknod inode_ok mem dir mode v }"

definition vfs_mkdir ::
  "kenv \<Rightarrow> bool \<Rightarrow> (nat \<Rightarrow> bool) \<Rightarrow> nat \<Rightarrow> nat option \<Rightarrow> u32 \<Rightarrow> vfs \<Rightarrow> (nat kres \<times> vfs) option" where
  "vfs_mkdir env inode_ok mem dir child mode v =
     do { (error, v) \<leftarrow> may_create env dir child v;
          case error of
            Inl e \<Rightarrow> Some (Inl e, v)
          | Inr _ \<Rightarrow>
              if \<not> S_ISDIR (i_mode (get_inode v dir)) then Some (Inl EPERM, v)
              else shmem_mkdir inode_ok mem dir (mode AND ucast (S_IRWXUGO OR S_ISVTX)) v }"

section \<open>Mounting, and the umask\<close>

text \<open>
  The end of \<open>shmem_fill_super\<close>: a fresh mount with its root directory. \<open>mode\<close>, \<open>usr\<close> and \<open>grp\<close> are the
  mount options of these names.
\<close>

definition shmem_fill_super :: "u32 \<Rightarrow> mode_t \<Rightarrow> uid_t \<Rightarrow> gid_t \<Rightarrow> kstate \<Rightarrow> u32 \<Rightarrow> vfs" where
  "shmem_fill_super sb_flags mode usr grp s um =
     (let v = \<lparr>task = s, umask = um, inodes = [], acls = []\<rparr>;
          (ino, v) = shmem_get_inode (sb_flags OR MS_POSIXACL) (ucast (S_IFDIR OR mode)) v
      in put_inode ino ((get_inode v ino)\<lparr>i_uid := usr, i_gid := grp\<rparr>) v)"

text \<open>The system call \<open>umask\<close>.\<close>

definition sys_umask :: "u32 \<Rightarrow> vfs \<Rightarrow> u32 \<times> vfs" where
  "sys_umask m v = (umask v, v\<lparr>umask := m AND ucast S_IRWXUGO\<rparr>)"

end
