(* ===== verification/PosixAclOk.thy ===== *)
theory PosixAclOk
  imports PosixAcl
begin

text \<open>
  Facts on \<open>PosixAcl\<close>: the form of a valid ACL, what the access decision comes to on it, and what
  creation and \<open>chmod\<close> make of it.
\<close>

section \<open>The form of a valid ACL\<close>

lemma tag_distinct [simp]:
  "ACL_USER_OBJ \<noteq> ACL_USER" "ACL_USER_OBJ \<noteq> ACL_GROUP_OBJ" "ACL_USER_OBJ \<noteq> ACL_GROUP"
  "ACL_USER_OBJ \<noteq> ACL_MASK" "ACL_USER_OBJ \<noteq> ACL_OTHER" "ACL_USER \<noteq> ACL_GROUP_OBJ"
  "ACL_USER \<noteq> ACL_GROUP" "ACL_USER \<noteq> ACL_MASK" "ACL_USER \<noteq> ACL_OTHER"
  "ACL_GROUP_OBJ \<noteq> ACL_GROUP" "ACL_GROUP_OBJ \<noteq> ACL_MASK" "ACL_GROUP_OBJ \<noteq> ACL_OTHER"
  "ACL_GROUP \<noteq> ACL_MASK" "ACL_GROUP \<noteq> ACL_OTHER" "ACL_MASK \<noteq> ACL_OTHER"
  "ACL_USER_OBJ \<noteq> 0" "ACL_USER \<noteq> 0" "ACL_GROUP_OBJ \<noteq> 0" "ACL_GROUP \<noteq> 0" "ACL_MASK \<noteq> 0"
  "ACL_OTHER \<noteq> 0"
  by (simp_all add: tag_defs)

lemmas tag_distinct' [simp] = tag_distinct [symmetric]

text \<open>
  The grammar of an ACL: the owner, the named users by increasing id, the owning group, the named
  groups by increasing id, the mask, which may be left out when there are no named entries, and the
  others; each with permission bits only.
\<close>

definition perm_ok :: "posix_acl_entry \<Rightarrow> bool" where
  "perm_ok e = (e_perm e AND NOT (ACL_READ OR ACL_WRITE OR ACL_EXECUTE) = 0)"

definition named_ok :: "u16 \<Rightarrow> posix_acl_entry list \<Rightarrow> bool" where
  "named_ok t es \<longleftrightarrow> list_all (\<lambda>e. e_tag e = t \<and> e_id e \<noteq> ACL_UNDEFINED_ID) es
     \<and> sorted_wrt (<) (map e_id es)"

definition acl_parts ::
  "posix_acl_entry list \<Rightarrow> posix_acl_entry \<Rightarrow> posix_acl_entry list \<Rightarrow> posix_acl_entry
    \<Rightarrow> posix_acl_entry list \<Rightarrow> posix_acl_entry list \<Rightarrow> posix_acl_entry \<Rightarrow> bool" where
  "acl_parts acl uo us go gs ms ot \<longleftrightarrow>
     acl = uo # us @ go # gs @ ms @ [ot]
     \<and> e_tag uo = ACL_USER_OBJ \<and> e_tag go = ACL_GROUP_OBJ \<and> e_tag ot = ACL_OTHER
     \<and> named_ok ACL_USER us \<and> named_ok ACL_GROUP gs
     \<and> (ms = [] \<and> us = [] \<and> gs = [] \<or> (\<exists>m. ms = [m] \<and> e_tag m = ACL_MASK))
     \<and> list_all perm_ok acl"

definition well_formed :: "posix_acl_entry list \<Rightarrow> bool" where
  "well_formed acl \<longleftrightarrow> (\<exists>uo us go gs ms ot. acl_parts acl uo us go gs ms ot)"

lemma succ_le_iff: "x \<noteq> ACL_UNDEFINED_ID \<Longrightarrow> x + 1 \<le> y \<longleftrightarrow> x < (y :: u32)"
  by (simp add: ACL_UNDEFINED_ID_def inc_less_eq_iff)

text \<open>What the loop accepts from each of its states.\<close>

definition named_from :: "u16 \<Rightarrow> u32 \<Rightarrow> posix_acl_entry list \<Rightarrow> bool" where
  "named_from t nid es \<longleftrightarrow> named_ok t es \<and> list_all (\<lambda>e. nid \<le> e_id e) es"

lemma named_from_Nil [simp]: "named_from t nid []"
  by (simp add: named_from_def named_ok_def)

lemma named_from_Cons [simp]:
  "named_from t nid (e # es) \<longleftrightarrow> e_tag e = t \<and> e_id e \<noteq> ACL_UNDEFINED_ID \<and> nid \<le> e_id e
     \<and> named_from t (e_id e + 1) es"
  by (auto simp: named_from_def named_ok_def list_all_iff succ_le_iff dest: order_le_less_trans)

lemma named_from_0 [simp]: "named_from t 0 es = named_ok t es"
  by (simp add: named_from_def list_all_iff)

lemma valid_loop_end [simp]: "is_ok (posix_acl_valid_loop 0 nid nm es) \<longleftrightarrow> es = []"
  by (cases es) auto

lemma valid_loop_other [simp]:
  "is_ok (posix_acl_valid_loop ACL_OTHER nid nm es)
     \<longleftrightarrow> (\<exists>ot. es = [ot] \<and> e_tag ot = ACL_OTHER \<and> perm_ok ot)"
  by (cases es) (auto simp: perm_ok_def)

definition tail_ok :: "bool \<Rightarrow> posix_acl_entry list \<Rightarrow> bool" where
  "tail_ok nm es \<longleftrightarrow> (\<exists>ot. e_tag ot = ACL_OTHER \<and> perm_ok ot \<and>
     (es = [ot] \<and> \<not> nm \<or> (\<exists>m. es = [m, ot] \<and> e_tag m = ACL_MASK \<and> perm_ok m)))"

lemma tail_okE:
  assumes "tail_ok nm es"
  obtains ms ot where "es = ms @ [ot]" "e_tag ot = ACL_OTHER" "perm_ok ot" "list_all perm_ok ms"
    "ms = [] \<and> \<not> nm \<or> (\<exists>m. ms = [m] \<and> e_tag m = ACL_MASK)"
proof -
  from assms obtain ot where ot: "e_tag ot = ACL_OTHER" "perm_ok ot"
    and "es = [ot] \<and> \<not> nm \<or> (\<exists>m. es = [m, ot] \<and> e_tag m = ACL_MASK \<and> perm_ok m)"
    unfolding tail_ok_def by blast
  then consider "es = [ot]" "\<not> nm" | m where "es = [m, ot]" "e_tag m = ACL_MASK" "perm_ok m"
    by blast
  then show thesis
    by cases (use ot that [of "[]" ot] that [of "[_]" ot] in auto)
qed

lemma ex_append_Cons:
  "(\<exists>xs ys. a # as = xs @ ys \<and> P xs ys) \<longleftrightarrow> P [] (a # as) \<or> (\<exists>xs ys. as = xs @ ys \<and> P (a # xs) ys)"
  (is "?l \<longleftrightarrow> ?r")
proof
  assume ?l
  then obtain xs ys where "a # as = xs @ ys" "P xs ys" by blast
  then show ?r by (cases xs) auto
next
  assume ?r
  then show ?l by (metis append_Cons append_Nil)
qed

lemma ex_append_Cons3:
  "(\<exists>xs y ys. a # as = xs @ y # ys \<and> P xs y ys)
     \<longleftrightarrow> P [] a as \<or> (\<exists>xs y ys. as = xs @ y # ys \<and> P (a # xs) y ys)"
  (is "?l \<longleftrightarrow> ?r")
proof
  assume ?l
  then obtain xs y ys where "a # as = xs @ y # ys" "P xs y ys" by blast
  then show ?r by (cases xs) auto
next
  assume ?r
  then show ?l by (metis append_Cons append_Nil)
qed

lemma valid_loop_group:
  "is_ok (posix_acl_valid_loop ACL_GROUP nid nm es)
     \<longleftrightarrow> (\<exists>gs rest. es = gs @ rest \<and> (named_from ACL_GROUP nid gs \<and> list_all perm_ok gs
            \<and> tail_ok (nm \<or> gs \<noteq> []) rest))"
proof (induction es arbitrary: nid nm)
  case Nil
  then show ?case by (simp add: tail_ok_def)
next
  case (Cons e es)
  show ?case
  proof (cases "e_tag e = ACL_GROUP")
    case True
    then have "is_ok (posix_acl_valid_loop ACL_GROUP nid nm (e # es)) \<longleftrightarrow>
        perm_ok e \<and> e_id e \<noteq> ACL_UNDEFINED_ID \<and> nid \<le> e_id e
        \<and> is_ok (posix_acl_valid_loop ACL_GROUP (e_id e + 1) True es)"
      by (auto simp: perm_ok_def not_less)
    moreover have "\<not> tail_ok nm (e # es)"
      using True by (auto simp: tail_ok_def)
    ultimately show ?thesis
      using True unfolding Cons.IH ex_append_Cons by auto
  next
    case False
    then have "is_ok (posix_acl_valid_loop ACL_GROUP nid nm (e # es)) \<longleftrightarrow> tail_ok nm (e # es)"
      by (auto simp: perm_ok_def tail_ok_def)
    with False show ?thesis unfolding ex_append_Cons by auto
  qed
qed

lemma valid_loop_user:
  "is_ok (posix_acl_valid_loop ACL_USER nid nm es)
     \<longleftrightarrow> (\<exists>us go rest. es = us @ go # rest \<and> (named_from ACL_USER nid us \<and> list_all perm_ok us
            \<and> e_tag go = ACL_GROUP_OBJ \<and> perm_ok go
            \<and> is_ok (posix_acl_valid_loop ACL_GROUP 0 (nm \<or> us \<noteq> []) rest)))"
proof (induction es arbitrary: nid nm)
  case Nil
  then show ?case by simp
next
  case (Cons e es)
  show ?case
  proof (cases "e_tag e = ACL_USER")
    case True
    then have "is_ok (posix_acl_valid_loop ACL_USER nid nm (e # es)) \<longleftrightarrow>
        perm_ok e \<and> e_id e \<noteq> ACL_UNDEFINED_ID \<and> nid \<le> e_id e
        \<and> is_ok (posix_acl_valid_loop ACL_USER (e_id e + 1) True es)"
      by (auto simp: perm_ok_def not_less)
    then show ?thesis
      using True unfolding Cons.IH ex_append_Cons3 by (auto simp del: posix_acl_valid_loop.simps)
  next
    case False
    then have "is_ok (posix_acl_valid_loop ACL_USER nid nm (e # es)) \<longleftrightarrow>
        e_tag e = ACL_GROUP_OBJ \<and> perm_ok e \<and> is_ok (posix_acl_valid_loop ACL_GROUP 0 nm es)"
      by (auto simp: perm_ok_def)
    with False show ?thesis
      unfolding ex_append_Cons3 by (auto simp del: posix_acl_valid_loop.simps)
  qed
qed

lemma valid_parts:
  "is_ok (posix_acl_valid acl) \<longleftrightarrow>
     (\<exists>uo us go gs rest. acl = uo # us @ go # gs @ rest \<and> e_tag uo = ACL_USER_OBJ \<and> perm_ok uo
        \<and> named_ok ACL_USER us \<and> list_all perm_ok us \<and> e_tag go = ACL_GROUP_OBJ \<and> perm_ok go
        \<and> named_ok ACL_GROUP gs \<and> list_all perm_ok gs \<and> tail_ok (us \<noteq> [] \<or> gs \<noteq> []) rest)"
proof -
  have "is_ok (posix_acl_valid acl) \<longleftrightarrow> (\<exists>uo es. acl = uo # es \<and> e_tag uo = ACL_USER_OBJ \<and> perm_ok uo
      \<and> is_ok (posix_acl_valid_loop ACL_USER 0 False es))"
    by (cases acl) (auto simp: posix_acl_valid_def perm_ok_def)
  then show ?thesis
    by (simp add: valid_loop_user valid_loop_group) blast
qed

lemma valid_iff_well_formed: "is_ok (posix_acl_valid acl) \<longleftrightarrow> well_formed acl"
proof
  assume "is_ok (posix_acl_valid acl)"
  then obtain uo us go gs rest where a: "acl = uo # us @ go # gs @ rest" "e_tag uo = ACL_USER_OBJ"
    "perm_ok uo" "named_ok ACL_USER us" "list_all perm_ok us" "e_tag go = ACL_GROUP_OBJ" "perm_ok go"
    "named_ok ACL_GROUP gs" "list_all perm_ok gs" "tail_ok (us \<noteq> [] \<or> gs \<noteq> []) rest"
    unfolding valid_parts by blast
  from a(10) obtain ms ot where r: "rest = ms @ [ot]" "e_tag ot = ACL_OTHER" "perm_ok ot"
    "ms = [] \<and> us = [] \<and> gs = [] \<or> (\<exists>m. ms = [m] \<and> e_tag m = ACL_MASK)" "list_all perm_ok ms"
    by (rule tail_okE) blast
  have "acl_parts acl uo us go gs ms ot"
    unfolding acl_parts_def using a r by simp
  then show "well_formed acl" unfolding well_formed_def by blast
next
  assume "well_formed acl"
  then obtain uo us go gs ms ot where p: "acl_parts acl uo us go gs ms ot"
    unfolding well_formed_def by blast
  then have t: "tail_ok (us \<noteq> [] \<or> gs \<noteq> []) (ms @ [ot])"
    unfolding acl_parts_def tail_ok_def by auto
  show "is_ok (posix_acl_valid acl)"
    unfolding valid_parts
    by (rule exI [of _ uo], rule exI [of _ us], rule exI [of _ go], rule exI [of _ gs],
        rule exI [of _ "ms @ [ot]"])
      (use p t in \<open>clarsimp simp: acl_parts_def\<close>)
qed

section \<open>The access decision\<close>

text \<open>
  The access check of POSIX.1e on the entries as a set: the owner by the owner entry; else a user
  with an entry of their own by that entry and the mask; else a member of the owning group or of a
  group with an entry, when one of the entries that apply has all the permissions and the mask has
  them too; else by the entry of the others.
\<close>

definition grants :: "u16 \<Rightarrow> u32 \<Rightarrow> bool" where
  "grants p want \<longleftrightarrow> ucast p AND want = want"

definition mask_grants :: "posix_acl_entry list \<Rightarrow> u32 \<Rightarrow> bool" where
  "mask_grants acl want = list_all (\<lambda>e. e_tag e = ACL_MASK \<longrightarrow> grants (e_perm e) want) acl"

definition named_user :: "uid_t \<Rightarrow> posix_acl_entry \<Rightarrow> bool" where
  "named_user u e \<longleftrightarrow> e_tag e = ACL_USER \<and> e_id e = u"

definition group_applies :: "kstate \<Rightarrow> gid_t \<Rightarrow> posix_acl_entry \<Rightarrow> bool" where
  "group_applies s igid e \<longleftrightarrow> e_tag e = ACL_GROUP_OBJ \<and> in_group_p s igid
     \<or> e_tag e = ACL_GROUP \<and> in_group_p s (e_id e)"

definition acl_access ::
  "kstate \<Rightarrow> uid_t \<Rightarrow> gid_t \<Rightarrow> posix_acl_entry list \<Rightarrow> u32 \<Rightarrow> bool" where
  "acl_access s iuid igid acl want =
     (let fsu = fsuid (current_cred s)
      in if iuid = fsu then list_ex (\<lambda>e. e_tag e = ACL_USER_OBJ \<and> grants (e_perm e) want) acl
         else if list_ex (named_user fsu) acl then
           list_ex (\<lambda>e. named_user fsu e \<and> grants (e_perm e) want) acl \<and> mask_grants acl want
         else if list_ex (group_applies s igid) acl then
           list_ex (\<lambda>e. group_applies s igid e \<and> grants (e_perm e) want) acl \<and> mask_grants acl want
         else list_ex (\<lambda>e. e_tag e = ACL_OTHER \<and> grants (e_perm e) want) acl)"

definition verdict :: "bool \<Rightarrow> unit kres" where
  "verdict b = (if b then Inr () else Inl EACCES)"

lemma grants_iff_bits: "grants p want \<longleftrightarrow> (\<forall>n. bit want n \<longrightarrow> bit p n)"
proof
  assume "grants p want"
  then have eq: "ucast p AND want = want" by (simp add: grants_def)
  show "\<forall>n. bit want n \<longrightarrow> bit p n"
  proof (intro allI impI)
    fix n assume "bit want n"
    then have "bit (ucast p AND want) n" by (simp only: eq)
    then show "bit p n" by (simp add: bit_and_iff bit_unsigned_iff)
  qed
next
  assume "\<forall>n. bit want n \<longrightarrow> bit p n"
  then show "grants p want"
    by (auto simp: grants_def bit_eq_iff bit_simps)
qed

lemma grants_AND [simp]: "grants (p AND q) want \<longleftrightarrow> grants p want \<and> grants q want"
  by (auto simp: grants_iff_bits bit_simps)

lemma check_perm_verdict [simp]: "acl_check_perm pa want = verdict (grants (e_perm pa) want)"
  by (simp add: acl_check_perm_def grants_def verdict_def)

lemma acl_mask_verdict:
  assumes "length (filter (\<lambda>e. e_tag e = ACL_MASK) pe) \<le> 1"
  shows "acl_mask pa pe want = verdict (grants (e_perm pa) want \<and> mask_grants pe want)"
  using assms
proof (induction pe)
  case Nil
  then show ?case by (simp add: mask_grants_def)
next
  case (Cons m pe)
  have "ucast (e_perm pa) AND ucast (e_perm m) AND want = want \<longleftrightarrow>
      grants (e_perm pa) want \<and> grants (e_perm m) want"
    using grants_AND [of "e_perm pa" "e_perm m" want]
    by (simp add: grants_def unsigned_and_eq and.assoc)
  with Cons show ?case
    by (auto simp: mask_grants_def verdict_def list_all_iff filter_empty_conv)
qed

lemma permission_users:
  assumes "named_ok ACL_USER us" "length (filter (\<lambda>e. e_tag e = ACL_MASK) rest) \<le> 1"
  shows "acl_permission_loop s iuid igid found (us @ rest) want =
     (if list_ex (named_user (fsuid (current_cred s))) us
      then verdict (list_ex (\<lambda>e. named_user (fsuid (current_cred s)) e \<and> grants (e_perm e) want) us
                    \<and> mask_grants rest want)
      else acl_permission_loop s iuid igid found rest want)"
  using assms(1)
proof (induction us)
  case (Cons e us)
  from Cons.prems have e: "e_tag e = ACL_USER" and us: "named_ok ACL_USER us"
    and u: "\<forall>x\<in>set us. e_tag x = ACL_USER \<and> e_id e < e_id x"
    by (auto simp: named_ok_def list_all_iff)
  have [simp]: "filter (\<lambda>e. e_tag e = ACL_MASK) us = []"
    using u by (auto simp: filter_empty_conv)
  have m: "mask_grants (us @ rest) want = mask_grants rest want"
    using u by (auto simp: mask_grants_def list_all_iff)
  have "e_id e = fsuid (current_cred s) \<Longrightarrow> \<not> list_ex (\<lambda>x. named_user (fsuid (current_cred s)) x \<and> P x) us"
    for P using u by (auto simp: list_ex_iff named_user_def)
  then show ?case
    using e Cons.IH [OF us] assms(2)
    by (auto simp: acl_mask_verdict m named_user_def)
qed simp

lemma permission_groups:
  assumes "list_all (\<lambda>e. e_tag e = ACL_GROUP_OBJ \<or> e_tag e = ACL_GROUP) gs"
    "length (filter (\<lambda>e. e_tag e = ACL_MASK) rest) \<le> 1"
  shows "acl_permission_loop s iuid igid found (gs @ rest) want =
     (if list_ex (\<lambda>e. group_applies s igid e \<and> grants (e_perm e) want) gs
      then verdict (mask_grants rest want)
      else acl_permission_loop s iuid igid (found \<or> list_ex (group_applies s igid) gs) rest want)"
  using assms(1)
proof (induction gs arbitrary: found)
  case (Cons e gs)
  from Cons.prems have e: "e_tag e = ACL_GROUP_OBJ \<or> e_tag e = ACL_GROUP"
    and gs: "list_all (\<lambda>e. e_tag e = ACL_GROUP_OBJ \<or> e_tag e = ACL_GROUP) gs" by auto
  have [simp]: "filter (\<lambda>e. e_tag e = ACL_MASK) gs = []"
    using gs by (auto simp: filter_empty_conv list_all_iff)
  have m: "mask_grants (gs @ rest) want = mask_grants rest want"
    using gs by (auto simp: mask_grants_def list_all_iff)
  have "acl_permission_loop s iuid igid found (e # xs) want =
      (if group_applies s igid e
       then if grants (e_perm e) want then acl_mask e xs want
            else acl_permission_loop s iuid igid True xs want
       else acl_permission_loop s iuid igid found xs want)" for xs
    using e by (auto simp: group_applies_def grants_def)
  then show ?case
    using Cons.IH [OF gs] assms(2) by (simp add: acl_mask_verdict m)
qed simp

lemma permission_tail:
  assumes "e_tag ot = ACL_OTHER" "ms = [] \<or> (\<exists>m. ms = [m] \<and> e_tag m = ACL_MASK)"
  shows "acl_permission_loop s iuid igid found (ms @ [ot]) want =
     (if found then Inl EACCES else verdict (grants (e_perm ot) want))"
  using assms by auto

lemma permission_is_acl_access:
  assumes "well_formed acl"
  shows "posix_acl_permission s iuid igid acl want = verdict (acl_access s iuid igid acl want)"
proof -
  obtain uo us go gs ms ot where p: "acl_parts acl uo us go gs ms ot"
    using assms unfolding well_formed_def by blast
  then have acl: "acl = uo # us @ (go # gs) @ (ms @ [ot])"
    and tags: "e_tag uo = ACL_USER_OBJ" "e_tag go = ACL_GROUP_OBJ" "e_tag ot = ACL_OTHER"
    and us: "named_ok ACL_USER us" and ustag: "\<forall>e\<in>set us. e_tag e = ACL_USER"
    and gstag: "\<forall>e\<in>set gs. e_tag e = ACL_GROUP"
    and ms: "ms = [] \<or> (\<exists>m. ms = [m] \<and> e_tag m = ACL_MASK)"
    by (auto simp: acl_parts_def named_ok_def list_all_iff)
  have m1: "length (filter (\<lambda>e. e_tag e = ACL_MASK) (ms @ [ot])) \<le> 1"
    using ms tags by auto
  have m2: "length (filter (\<lambda>e. e_tag e = ACL_MASK) ((go # gs) @ ms @ [ot])) \<le> 1"
    using m1 gstag tags by (auto simp: filter_empty_conv)
  have mg: "mask_grants acl want = mask_grants ms want"
    "mask_grants ((go # gs) @ ms @ [ot]) want = mask_grants ms want"
    "mask_grants (ms @ [ot]) want = mask_grants ms want"
    using ustag gstag tags unfolding acl by (auto simp: mask_grants_def list_all_iff)
  have gl: "list_all (\<lambda>e. e_tag e = ACL_GROUP_OBJ \<or> e_tag e = ACL_GROUP) (go # gs)"
    using tags gstag by (simp add: list_all_iff)
  have nu: "list_ex (\<lambda>e. named_user f e \<and> P e) acl = list_ex (\<lambda>e. named_user f e \<and> P e) us" for f P
    using ms tags gstag unfolding acl by (auto simp: list_ex_iff named_user_def)
  have ga: "list_ex (\<lambda>e. group_applies s igid e \<and> P e) acl
      = list_ex (\<lambda>e. group_applies s igid e \<and> P e) (go # gs)" for P
    using ms tags ustag unfolding acl by (auto simp: list_ex_iff group_applies_def)
  have uo: "list_ex (\<lambda>e. e_tag e = ACL_USER_OBJ \<and> P e) acl = P uo" for P
    using ms tags ustag gstag unfolding acl by (auto simp: list_ex_iff)
  have ot: "list_ex (\<lambda>e. e_tag e = ACL_OTHER \<and> P e) acl = P ot" for P
    using ms tags ustag gstag unfolding acl by (auto simp: list_ex_iff)
  have "posix_acl_permission s iuid igid acl want =
      (if iuid = fsuid (current_cred s) then verdict (grants (e_perm uo) want)
       else acl_permission_loop s iuid igid False (us @ (go # gs) @ ms @ [ot]) want)"
    unfolding posix_acl_permission_def acl using tags by simp
  also have "\<dots> = verdict (acl_access s iuid igid acl want)"
    unfolding permission_users [OF us m2] permission_groups [OF gl m1] permission_tail [OF tags(3) ms]
      acl_access_def Let_def mg nu ga uo ot
      nu [of _ "\<lambda>_. True", simplified] ga [of "\<lambda>_. True", simplified]
    by (auto simp: verdict_def list_ex_iff)
  finally show ?thesis .
qed

section \<open>Mode bits\<close>

lemma bit_S_IRWXO [simp]: "bit S_IRWXO n \<longleftrightarrow> n < 3"
proof -
  have eq: "S_IRWXO = mask 3" by code_simp
  show ?thesis unfolding eq by (auto simp: bit_mask_iff)
qed

lemma bit_S_IRWXG [simp]: "bit S_IRWXG n \<longleftrightarrow> 3 \<le> n \<and> n < 6"
proof -
  have eq: "S_IRWXG = push_bit 3 (mask 3)" by code_simp
  show ?thesis unfolding eq by (auto simp: bit_mask_iff bit_push_bit_iff)
qed

lemma bit_S_IRWXU [simp]: "bit S_IRWXU n \<longleftrightarrow> 6 \<le> n \<and> n < 9"
proof -
  have eq: "S_IRWXU = push_bit 6 (mask 3)" by code_simp
  show ?thesis unfolding eq by (auto simp: bit_mask_iff bit_push_bit_iff)
qed

lemma bit_S_IRWXUGO [simp]: "bit S_IRWXUGO n \<longleftrightarrow> n < 9"
  by (auto simp: S_IRWXUGO_def bit_or_iff)

lemma perm_ok_iff: "perm_ok e \<longleftrightarrow> (\<forall>n. bit (e_perm e) n \<longrightarrow> n < 3)"
proof -
  have 7: "ACL_READ OR ACL_WRITE OR ACL_EXECUTE = S_IRWXO" by code_simp
  have "bit (e_perm e) n \<Longrightarrow> n < 16" for n
    using bit_imp_le_length [of "e_perm e" n] by simp
  then show ?thesis
    unfolding perm_ok_def 7 by (auto simp: bit_eq_iff bit_simps)
qed

lemma perm_ok_cong: "e_perm e = e_perm e' \<Longrightarrow> perm_ok e = perm_ok e'"
  by (simp add: perm_ok_def)

section \<open>ACLs by class\<close>

text \<open>
  The file mode classes of an ACL: \<open>classes\<close> builds a well-formed ACL from another one with the
  permissions \<open>a\<close> of the owner, \<open>b\<close> of the group class (the mask if there is one, the owning group
  otherwise) and \<open>c\<close> of the others. \<open>class_mode\<close> are the mode bits that show them.
\<close>

definition class_mode :: "u16 \<Rightarrow> u16 \<Rightarrow> u16 \<Rightarrow> mode_t" where
  "class_mode a b c = push_bit 6 a OR push_bit 3 b OR c"

definition group_class :: "posix_acl_entry \<Rightarrow> posix_acl_entry list \<Rightarrow> u16" where
  "group_class go ms = e_perm (hd (ms @ [go]))"

definition set_group_class ::
  "posix_acl_entry \<Rightarrow> posix_acl_entry list \<Rightarrow> u16 \<Rightarrow> posix_acl_entry \<times> posix_acl_entry list" where
  "set_group_class go ms b =
     (if ms = [] then (go\<lparr>e_perm := b\<rparr>, ms) else (go, map (\<lambda>m. m\<lparr>e_perm := b\<rparr>) ms))"

lemma named_ok_tags: "named_ok t es \<Longrightarrow> e \<in> set es \<Longrightarrow> e_tag e = t"
  by (auto simp: named_ok_def list_all_iff)

lemma equiv_mode_named:
  "\<forall>e\<in>set es. e_tag e = ACL_USER \<or> e_tag e = ACL_GROUP \<Longrightarrow>
   equiv_mode_loop mode ne (es @ rest) = equiv_mode_loop mode (ne \<or> es \<noteq> []) rest"
  by (induction es arbitrary: ne) auto

lemma AND_S_IRWXO: "perm_ok e \<Longrightarrow> e_perm e AND S_IRWXO = e_perm e"
  by (rule bit_eqI) (auto simp: perm_ok_iff bit_and_iff)

lemma equiv_mode_parts:
  assumes p: "acl_parts acl uo us go gs ms ot"
  shows "posix_acl_equiv_mode acl mode =
    Inr (ms \<noteq> [], (mode AND NOT S_IRWXUGO) OR
                    class_mode (e_perm uo) (group_class go ms) (e_perm ot))"
proof -
  have named: "\<forall>e\<in>set us. e_tag e = ACL_USER \<or> e_tag e = ACL_GROUP"
    "\<forall>e\<in>set gs. e_tag e = ACL_USER \<or> e_tag e = ACL_GROUP"
    using p by (auto simp: acl_parts_def dest: named_ok_tags)
  have ok: "perm_ok uo" "perm_ok go" "perm_ok ot" "list_all perm_ok ms"
    using p by (auto simp: acl_parts_def)
  have mask: "(push_bit 6 a OR push_bit 3 g) AND NOT S_IRWXG = push_bit 6 a"
    if "perm_ok uo" "a = e_perm uo" "perm_ok go" "g = e_perm go" for a g
    using that by (intro bit_eqI) (auto simp: perm_ok_iff bit_simps)
  consider "ms = []" "us = []" "gs = []" | m where "ms = [m]" "e_tag m = ACL_MASK"
    using p by (auto simp: acl_parts_def)
  then show ?thesis
  proof cases
    case 1
    with p show ?thesis
      by (auto simp: acl_parts_def posix_acl_equiv_mode_def class_mode_def group_class_def
        AND_S_IRWXO ok or.assoc)
  next
    case 2
    with p have "equiv_mode_loop 0 False acl =
       Inr (True, ((push_bit 6 (e_perm uo) OR push_bit 3 (e_perm go)) AND NOT S_IRWXG)
                  OR push_bit 3 (e_perm m) OR e_perm ot)"
      using ok named by (auto simp: acl_parts_def equiv_mode_named AND_S_IRWXO or.assoc)
    with 2 ok show ?thesis
      by (simp add: posix_acl_equiv_mode_def class_mode_def group_class_def mask or.assoc)
  qed
qed

definition rebuild ::
  "posix_acl_entry \<Rightarrow> posix_acl_entry list \<Rightarrow> posix_acl_entry \<Rightarrow> posix_acl_entry list
    \<Rightarrow> posix_acl_entry list \<Rightarrow> posix_acl_entry \<Rightarrow> u16 \<Rightarrow> u16 \<Rightarrow> u16 \<Rightarrow> posix_acl_entry list" where
  "rebuild uo us go gs ms ot a b c =
     uo\<lparr>e_perm := a\<rparr> # us @ fst (set_group_class go ms b) # gs @ snd (set_group_class go ms b)
       @ [ot\<lparr>e_perm := c\<rparr>]"

definition three_bits :: "u16 \<Rightarrow> bool" where
  "three_bits p \<longleftrightarrow> (\<forall>n. bit p n \<longrightarrow> n < 3)"

lemma perm_ok_update [simp]: "perm_ok (e\<lparr>e_perm := p\<rparr>) = three_bits p"
  by (simp add: perm_ok_iff three_bits_def)

lemma parts_rebuild:
  assumes "acl_parts acl uo us go gs ms ot" "three_bits a" "three_bits b" "three_bits c"
  shows "acl_parts (rebuild uo us go gs ms ot a b c) (uo\<lparr>e_perm := a\<rparr>) us
     (fst (set_group_class go ms b)) gs (snd (set_group_class go ms b)) (ot\<lparr>e_perm := c\<rparr>)"
  using assms by (auto simp: acl_parts_def rebuild_def set_group_class_def)

lemma group_class_set [simp]:
  "group_class (fst (set_group_class go ms b)) (snd (set_group_class go ms b)) = b"
  "snd (set_group_class go ms b) = [] \<longleftrightarrow> ms = []"
  by (cases ms; simp add: group_class_def set_group_class_def)+

lemma equiv_mode_rebuild:
  assumes "acl_parts acl uo us go gs ms ot" "three_bits a" "three_bits b" "three_bits c"
  shows "posix_acl_equiv_mode (rebuild uo us go gs ms ot a b c) mode =
    Inr (ms \<noteq> [], (mode AND NOT S_IRWXUGO) OR class_mode a b c)"
  using equiv_mode_parts [OF parts_rebuild [OF assms]] by simp

subsection \<open>chmod\<close>

lemma chmod_named:
  assumes "\<forall>e\<in>set es. e_tag e = ACL_USER \<or> e_tag e = ACL_GROUP"
  shows "chmod_masq_loop i mode g m (es @ rest) =
     (fst (chmod_masq_loop (i + length es) mode g m rest),
      es @ snd (chmod_masq_loop (i + length es) mode g m rest))"
  using assms by (induction es arbitrary: i) (auto simp: split_def)

definition mode_owner :: "mode_t \<Rightarrow> u16" where "mode_owner mode = drop_bit 6 (mode AND S_IRWXU)"
definition mode_group :: "mode_t \<Rightarrow> u16" where "mode_group mode = drop_bit 3 (mode AND S_IRWXG)"
definition mode_other :: "mode_t \<Rightarrow> u16" where "mode_other mode = mode AND S_IRWXO"

lemma three_bits_mode [simp]:
  "three_bits (mode_owner mode)" "three_bits (mode_group mode)" "three_bits (mode_other mode)"
  by (auto simp: three_bits_def mode_owner_def mode_group_def mode_other_def bit_simps)

lemma class_mode_of_mode:
  "(mode AND NOT S_IRWXUGO) OR class_mode (mode_owner mode) (mode_group mode) (mode_other mode) = mode"
proof (rule bit_eqI)
  fix n :: nat
  consider "n < 3" | "3 \<le> n" "n < 6" | "6 \<le> n" "n < 9" | "9 \<le> n" by linarith
  then show "bit ((mode AND NOT S_IRWXUGO) OR
      class_mode (mode_owner mode) (mode_group mode) (mode_other mode)) n = bit mode n"
    by cases (auto simp: class_mode_def mode_owner_def mode_group_def mode_other_def bit_simps
      dest: bit_imp_le_length)
qed

lemma chmod_masq_parts:
  assumes p: "acl_parts acl uo us go gs ms ot"
  shows "posix_acl_chmod_masq acl mode =
    (Inr (), rebuild uo us go gs ms ot (mode_owner mode) (mode_group mode) (mode_other mode))"
proof -
  have named: "\<forall>e\<in>set us. e_tag e = ACL_USER \<or> e_tag e = ACL_GROUP"
    "\<forall>e\<in>set gs. e_tag e = ACL_USER \<or> e_tag e = ACL_GROUP"
    using p by (auto simp: acl_parts_def dest: named_ok_tags)
  have tags: "e_tag uo = ACL_USER_OBJ" "e_tag go = ACL_GROUP_OBJ" "e_tag ot = ACL_OTHER"
    and acl: "acl = uo # us @ go # gs @ ms @ [ot]"
    using p by (auto simp: acl_parts_def)
  consider "ms = []" "us = []" "gs = []" | m where "ms = [m]" "e_tag m = ACL_MASK"
    using p by (auto simp: acl_parts_def)
  then show ?thesis
    by cases (auto simp: acl tags posix_acl_chmod_masq_def chmod_named [OF named(1)]
      chmod_named [OF named(2)] set_perm_def nth_append list_update_append rebuild_def
      set_group_class_def mode_owner_def mode_group_def mode_other_def)
qed

subsection \<open>Creation\<close>

lemma create_named:
  assumes "\<forall>e\<in>set es. e_tag e = ACL_USER \<or> e_tag e = ACL_GROUP"
  shows "create_masq_loop i mode g m ne (es @ rest) =
     (fst (create_masq_loop (i + length es) mode g m (ne \<or> es \<noteq> []) rest),
      es @ snd (create_masq_loop (i + length es) mode g m (ne \<or> es \<noteq> []) rest))"
  using assms by (induction es arbitrary: i ne) (auto simp: split_def)

lemma masq_perm: "perm_ok e \<Longrightarrow> e_perm e AND (x OR NOT S_IRWXO) = e_perm e AND x"
  by (rule bit_eqI) (auto simp: perm_ok_iff bit_simps)

lemma masq_mode:
  fixes mode :: mode_t
  assumes "perm_ok uo" "perm_ok ot" "perm_ok g"
  defines "m1 \<equiv> mode AND (push_bit 6 (e_perm uo AND drop_bit 6 mode) OR NOT S_IRWXU)"
  defines "m2 \<equiv> m1 AND ((e_perm ot AND mode) OR NOT S_IRWXO)"
  defines "b \<equiv> e_perm g AND drop_bit 3 mode"
  shows "e_perm ot AND m1 = e_perm ot AND mode" "e_perm g AND drop_bit 3 m2 = b"
    "(mode AND NOT S_IRWXUGO) OR (m2 AND (push_bit 3 b OR NOT S_IRWXG)) =
     (mode AND NOT S_IRWXUGO) OR class_mode (e_perm uo AND drop_bit 6 mode) b (e_perm ot AND mode)"
proof -
  show "e_perm ot AND m1 = e_perm ot AND mode"
    using assms(2) by (intro bit_eqI) (auto simp: perm_ok_iff m1_def bit_simps)
  show "e_perm g AND drop_bit 3 m2 = b"
    using assms(3) by (intro bit_eqI) (auto simp: perm_ok_iff m1_def m2_def b_def bit_simps
      dest: bit_imp_le_length)
  show "(mode AND NOT S_IRWXUGO) OR (m2 AND (push_bit 3 b OR NOT S_IRWXG)) =
     (mode AND NOT S_IRWXUGO) OR class_mode (e_perm uo AND drop_bit 6 mode) b (e_perm ot AND mode)"
  proof (rule bit_eqI)
    fix n :: nat
    consider "n < 3" | "3 \<le> n" "n < 6" | "6 \<le> n" "n < 9" | "9 \<le> n" by linarith
    then show "bit ((mode AND NOT S_IRWXUGO) OR (m2 AND (push_bit 3 b OR NOT S_IRWXG))) n =
      bit ((mode AND NOT S_IRWXUGO) OR
        class_mode (e_perm uo AND drop_bit 6 mode) b (e_perm ot AND mode)) n"
      by cases (use assms(1-3) in \<open>auto simp: perm_ok_iff class_mode_def m1_def m2_def b_def
        bit_simps dest: bit_imp_le_length\<close>)
  qed
qed

lemma create_masq_parts:
  fixes mode :: mode_t
  assumes p: "acl_parts acl uo us go gs ms ot"
  defines "a \<equiv> e_perm uo AND drop_bit 6 mode" and "b \<equiv> group_class go ms AND drop_bit 3 mode"
    and "c \<equiv> e_perm ot AND mode"
  shows "posix_acl_create_masq acl mode =
    (Inr (ms \<noteq> [], (mode AND NOT S_IRWXUGO) OR class_mode a b c), rebuild uo us go gs ms ot a b c)"
proof -
  have named: "\<forall>e\<in>set us. e_tag e = ACL_USER \<or> e_tag e = ACL_GROUP"
    "\<forall>e\<in>set gs. e_tag e = ACL_USER \<or> e_tag e = ACL_GROUP"
    using p by (auto simp: acl_parts_def dest: named_ok_tags)
  have tags: "e_tag uo = ACL_USER_OBJ" "e_tag go = ACL_GROUP_OBJ" "e_tag ot = ACL_OTHER"
    and ok: "perm_ok uo" "perm_ok go" "perm_ok ot" "list_all perm_ok ms"
    and acl: "acl = uo # us @ go # gs @ ms @ [ot]"
    using p by (auto simp: acl_parts_def)
  note loop = Let_def posix_acl_create_masq_def create_named [OF named(1)] create_named [OF named(2)]
    masq_perm set_perm_def nth_append list_update_append rebuild_def set_group_class_def
    group_class_def
  consider "ms = []" "us = []" "gs = []" | m where "ms = [m]" "e_tag m = ACL_MASK"
    using p by (auto simp: acl_parts_def)
  then show ?thesis
  proof cases
    case 1
    then show ?thesis
      using ok masq_mode [OF ok(1,3,2), of mode]
      by (simp add: acl tags loop a_def b_def c_def del: push_bit_and drop_bit_and drop_bit_or)
  next
    case 2
    moreover from this ok have "perm_ok m" by simp
    ultimately show ?thesis
      using ok masq_mode [OF ok(1,3) \<open>perm_ok m\<close>, of mode]
      by (simp add: acl tags loop a_def b_def c_def del: push_bit_and drop_bit_and drop_bit_or)
  qed
qed

section \<open>The extended-attribute format\<close>

lemma le16_roundtrip [simp]: "le16_to_cpu (cpu_to_le16 w @ bs) = w"
  by (rule bit_eqI) (auto simp: le16_to_cpu_def cpu_to_le16_def bit_simps dest: bit_imp_le_length)

lemma le32_roundtrip [simp]: "le32_to_cpu (cpu_to_le32 w @ bs) = w"
proof (rule bit_word_eqI)
  fix n :: nat
  assume "n < LENGTH(32)"
  then consider "n < 8" | "8 \<le> n" "n < 16" | "16 \<le> n" "n < 24" | "24 \<le> n" "n < 32"
    by (simp, linarith)
  then show "bit (le32_to_cpu (cpu_to_le32 w @ bs)) n = bit w n"
    by cases (auto simp: le32_to_cpu_def cpu_to_le32_def bit_simps numeral_2_eq_2 numeral_3_eq_3
      dest: bit_imp_le_length)
qed

lemma length_le [simp]: "length (cpu_to_le16 w) = 2" "length (cpu_to_le32 v) = 4"
  by (simp_all add: cpu_to_le16_def cpu_to_le32_def)

definition canonical :: "posix_acl_entry list \<Rightarrow> bool" where
  "canonical acl = list_all (\<lambda>e. e_tag e = ACL_USER \<or> e_tag e = ACL_GROUP \<or>
     e_tag e \<in> {ACL_USER_OBJ, ACL_GROUP_OBJ, ACL_MASK, ACL_OTHER} \<and> e_id e = ACL_UNDEFINED_ID) acl"

lemma from_xattr_entry:
  "le16_to_cpu (entry_to_xattr e @ bs) = e_tag e"
  "le16_to_cpu (drop 2 (entry_to_xattr e @ bs)) = e_perm e"
  "le32_to_cpu (drop 4 (entry_to_xattr e @ bs)) = e_id e"
  "drop 8 (entry_to_xattr e @ bs) = bs"
  by (simp_all add: entry_to_xattr_def)

lemma from_xattr_loop_entries:
  "canonical acl \<Longrightarrow> from_xattr_loop (length acl) (concat (map entry_to_xattr acl)) = Inr acl"
proof (induction acl)
  case (Cons e acl)
  then have "from_xattr_loop (length acl) (concat (map entry_to_xattr acl)) = Inr acl"
    by (simp add: canonical_def)
  with Cons.prems show ?case
    by (auto simp: Let_def from_xattr_entry canonical_def simp del: append_assoc drop_append)
qed simp

lemma length_to_xattr [simp]: "length (concat (map entry_to_xattr acl)) = length acl * 8"
  by (induction acl) (simp_all add: entry_to_xattr_def)

lemma xattr_roundtrip:
  assumes "canonical acl" "acl \<noteq> []" "posix_acl_to_xattr acl (Some sz) = Inr (n, bs)"
  shows "posix_acl_from_xattr True (Some bs) = Inr (Some acl)" "n = length bs"
proof -
  have bs: "bs = cpu_to_le32 POSIX_ACL_XATTR_VERSION @ concat (map entry_to_xattr acl)"
    and n: "n = posix_acl_xattr_size (length acl)"
    using assms(3) by (auto simp: posix_acl_to_xattr_def Let_def split: if_splits)
  show "n = length bs" by (simp add: n bs posix_acl_xattr_size_def)
  show "posix_acl_from_xattr True (Some bs) = Inr (Some acl)"
    using assms(1,2) from_xattr_loop_entries [OF assms(1)]
    by (simp add: posix_acl_from_xattr_def bs posix_acl_xattr_count_def)
qed

lemma from_xattr_loop_canonical:
  "from_xattr_loop n bs = Inr acl \<Longrightarrow> canonical acl \<and> length acl = n"
proof (induction n arbitrary: bs acl)
  case (Suc n)
  from Suc.prems obtain e es where "acl = e # es" "from_xattr_loop n (drop 8 bs) = Inr es"
    "e_tag e = ACL_USER \<or> e_tag e = ACL_GROUP \<or>
     e_tag e \<in> {ACL_USER_OBJ, ACL_GROUP_OBJ, ACL_MASK, ACL_OTHER} \<and> e_id e = ACL_UNDEFINED_ID"
    by (cases "from_xattr_loop n (drop 8 bs)") (auto simp: Let_def split: if_splits)
  with Suc.IH show ?case by (auto simp: canonical_def)
qed (simp add: canonical_def)

lemma map_sum_eq_Inr: "map_sum f g r = Inr y \<longleftrightarrow> (\<exists>x. r = Inr x \<and> y = g x)"
  by (cases r) auto

lemma from_xattr_canonical:
  assumes "posix_acl_from_xattr mem v = Inr (Some acl)"
  shows "canonical acl" "acl \<noteq> []"
proof -
  obtain bs where "from_xattr_loop (nat (posix_acl_xattr_count (length bs))) (drop 4 bs) = Inr acl"
    "posix_acl_xattr_count (length bs) > 0"
    using assms by (auto simp: posix_acl_from_xattr_def Let_def map_sum_eq_Inr
      split: option.splits if_splits)
  from from_xattr_loop_canonical [OF this(1)] this(2) show "canonical acl" "acl \<noteq> []"
    by auto
qed

end
