(* ===== verification/AclStoreOk.thy ===== *)
theory AclStoreOk
  imports AclStore PosixAclOk
begin

text \<open>
  ACLs as values: the reference counts of \<open>AclStore\<close> are right, so an ACL is freed exactly when its
  last reference goes away, and the operations behave as if every inode had its own copies of its
  ACLs. The interface between the generic operations and the file system is the locale
  \<open>acl_operations\<close>, with tmpfs as its instance.
\<close>

section \<open>References\<close>

definition ptrs :: "'p option \<Rightarrow> 'p multiset" where
  "ptrs p = (case p of None \<Rightarrow> {#} | Some q \<Rightarrow> {#q#})"

lemma ptrs_simps [simp]: "ptrs None = {#}" "ptrs (Some q) = {#q#}"
  by (simp_all add: ptrs_def)

definition inode_refs :: "'p inode \<Rightarrow> 'p multiset" where
  "inode_refs i = ptrs (i_acl i) + ptrs (i_default_acl i)"

definition refs :: "vfs \<Rightarrow> acl_ptr multiset" where
  "refs v = sum_list (map inode_refs (inodes v))"

definition ref_count :: "vfs \<Rightarrow> acl_ptr \<Rightarrow> nat" where
  "ref_count v p = (case acl_at v p of None \<Rightarrow> 0 | Some a \<Rightarrow> a_refcount a)"

text \<open>
  \<open>R\<close> are the references that a running call holds, beside those of the inodes. An ACL that is not
  freed has at least one reference.
\<close>

definition heap_ok :: "vfs \<Rightarrow> acl_ptr multiset \<Rightarrow> bool" where
  "heap_ok v R \<longleftrightarrow> (\<forall>p. ref_count v p = count (R + refs v) p)
     \<and> (\<forall>p a. acl_at v p = Some a \<longrightarrow> 0 < a_refcount a)"

definition ents :: "vfs \<Rightarrow> acl_ptr \<Rightarrow> posix_acl_entry list option" where
  "ents v p = map_option a_entries (acl_at v p)"

section \<open>The abstract view\<close>

type_synonym ainode = "posix_acl_entry list inode"

definition abs_inode :: "(acl_ptr \<Rightarrow> posix_acl_entry list option) \<Rightarrow> acl_ptr inode \<Rightarrow> ainode" where
  "abs_inode E i = \<lparr>i_mode = i_mode i, i_uid = i_uid i, i_gid = i_gid i, i_flags = i_flags i,
     s_flags = s_flags i, i_acl = i_acl i \<bind> E, i_default_acl = i_default_acl i \<bind> E\<rparr>"

definition abs_fs :: "vfs \<Rightarrow> ainode list" where
  "abs_fs v = map (abs_inode (ents v)) (inodes v)"

text \<open>What a call leaves alone: the task, the umask, and the entries of the ACLs in \<open>R\<close>.\<close>

definition keeps :: "acl_ptr multiset \<Rightarrow> vfs \<Rightarrow> vfs \<Rightarrow> bool" where
  "keeps R v v' \<longleftrightarrow> task v' = task v \<and> umask v' = umask v \<and> (\<forall>q\<in>#R. ents v' q = ents v q)"

lemma keeps_refl [simp]: "keeps R v v"
  by (simp add: keeps_def)

lemma keeps_trans: "keeps R v v' \<Longrightarrow> keeps R v' v'' \<Longrightarrow> keeps R v v''"
  by (simp add: keeps_def)

lemma keeps_mono: "keeps R' v v' \<Longrightarrow> R \<subseteq># R' \<Longrightarrow> keeps R v v'"
  by (auto simp: keeps_def dest: mset_subset_eqD)

section \<open>Basic steps\<close>

lemma acl_at_put_acl:
  "acl_at (acl_put p a v) q = (if q = p \<and> p < length (acls v) then a else acl_at v q)"
  by (auto simp: acl_at_def acl_put_def)

lemma acl_at_bound: "acl_at v p = Some a \<Longrightarrow> p < length (acls v)"
  by (auto simp: acl_at_def split: if_splits)

lemma put_inode_simps [simp]:
  "acl_at (put_inode ino i v) = acl_at v" "task (put_inode ino i v) = task v"
  "umask (put_inode ino i v) = umask v" "inodes (put_inode ino i v) = (inodes v)[ino := i]"
  "ents (put_inode ino i v) = ents v"
  by (auto simp: put_inode_def acl_at_def ents_def fun_eq_iff)

lemma acl_put_simps [simp]:
  "task (acl_put p a v) = task v" "umask (acl_put p a v) = umask v"
  "inodes (acl_put p a v) = inodes v" "refs (acl_put p a v) = refs v"
  by (simp_all add: acl_put_def refs_def)

lemma acl_at_task [simp]: "acl_at (v\<lparr>task := s\<rparr>) = acl_at v"
  by (simp add: acl_at_def fun_eq_iff)

lemma ents_task [simp]: "ents (v\<lparr>task := s\<rparr>) = ents v"
  by (simp add: ents_def fun_eq_iff)

lemma task_update_simps [simp]:
  "refs (v\<lparr>task := s\<rparr>) = refs v" "abs_fs (v\<lparr>task := s\<rparr>) = abs_fs v"
  "heap_ok (v\<lparr>task := s\<rparr>) R = heap_ok v R"
  by (simp_all add: refs_def abs_fs_def heap_ok_def ref_count_def)

lemma acl_at_umask [simp]: "acl_at (v\<lparr>umask := m\<rparr>) = acl_at v"
  by (simp add: acl_at_def fun_eq_iff)

lemma ents_umask [simp]: "ents (v\<lparr>umask := m\<rparr>) = ents v"
  by (simp add: ents_def fun_eq_iff)

lemma umask_update_simps [simp]:
  "refs (v\<lparr>umask := m\<rparr>) = refs v" "abs_fs (v\<lparr>umask := m\<rparr>) = abs_fs v"
  "heap_ok (v\<lparr>umask := m\<rparr>) R = heap_ok v R"
  by (simp_all add: refs_def abs_fs_def heap_ok_def ref_count_def)

lemma length_abs_fs [simp]: "length (abs_fs v) = length (inodes v)"
  by (simp add: abs_fs_def)

lemma abs_fs_nth: "ino < length (inodes v) \<Longrightarrow> abs_fs v ! ino = abs_inode (ents v) (get_inode v ino)"
  by (simp add: abs_fs_def)

lemma abs_inode_simps [simp]:
  "i_mode (abs_inode E i) = i_mode i" "i_uid (abs_inode E i) = i_uid i"
  "i_gid (abs_inode E i) = i_gid i" "i_flags (abs_inode E i) = i_flags i"
  "s_flags (abs_inode E i) = s_flags i" "i_acl (abs_inode E i) = i_acl i \<bind> E"
  "i_default_acl (abs_inode E i) = i_default_acl i \<bind> E"
  by (simp_all add: abs_inode_def)

lemma abs_fs_fields [simp]:
  "ino < length (inodes v) \<Longrightarrow> i_mode (abs_fs v ! ino) = i_mode (get_inode v ino)"
  "ino < length (inodes v) \<Longrightarrow> i_uid (abs_fs v ! ino) = i_uid (get_inode v ino)"
  "ino < length (inodes v) \<Longrightarrow> i_gid (abs_fs v ! ino) = i_gid (get_inode v ino)"
  "ino < length (inodes v) \<Longrightarrow> i_flags (abs_fs v ! ino) = i_flags (get_inode v ino)"
  "ino < length (inodes v) \<Longrightarrow> s_flags (abs_fs v ! ino) = s_flags (get_inode v ino)"
  by (simp_all add: abs_fs_nth)

lemma refs_put_inode:
  assumes "ino < length (inodes v)"
  shows "refs (put_inode ino i v) + inode_refs (get_inode v ino) = refs v + inode_refs i"
proof -
  have v: "inodes v = take ino (inodes v) @ get_inode v ino # drop (Suc ino) (inodes v)"
    using assms by (rule id_take_nth_drop)
  have u: "inodes (put_inode ino i v) = take ino (inodes v) @ i # drop (Suc ino) (inodes v)"
    using assms by (simp add: upd_conv_take_nth_drop)
  have "refs v = sum_list (map inode_refs (take ino (inodes v))) + inode_refs (get_inode v ino)
      + sum_list (map inode_refs (drop (Suc ino) (inodes v)))"
    unfolding refs_def by (subst v) simp
  then show ?thesis unfolding refs_def u by simp
qed

lemma in_sum_list_mset: "q \<in># sum_list ms \<longleftrightarrow> (\<exists>m\<in>set ms. q \<in># m)"
  by (induction ms) auto

lemma inode_refs_in_refs: "i \<in> set (inodes v) \<Longrightarrow> q \<in># inode_refs i \<Longrightarrow> q \<in># refs v"
  by (auto simp: refs_def in_sum_list_mset)

lemma heap_okD:
  assumes "heap_ok v R" "p \<in># R + refs v"
  obtains a where "acl_at v p = Some a" "a_refcount a = count (R + refs v) p"
  using assms unfolding heap_ok_def ref_count_def
  by (metis count_eq_zero_iff option.case_eq_if option.exhaust_sel)

lemma heap_ok_fresh: "heap_ok v R \<Longrightarrow> acl_at v p = None \<Longrightarrow> p \<notin># R + refs v"
  by (metis heap_okD option.distinct(1))

lemma abs_fs_cong:
  assumes "inodes v' = inodes v" "\<forall>q\<in># refs v. ents v' q = ents v q"
  shows "abs_fs v' = abs_fs v"
proof -
  have "abs_inode (ents v') i = abs_inode (ents v) i" if "i \<in> set (inodes v)" for i
    using inode_refs_in_refs [OF that] assms(2)
    by (cases "i_acl i"; cases "i_default_acl i") (auto simp: abs_inode_def inode_refs_def)
  with assms(1) show ?thesis by (simp add: abs_fs_def)
qed

lemma heap_ok_acl_put:
  assumes "heap_ok v R" "acl_at v p = Some a"
    "count (R' + refs v) p = (case b of None \<Rightarrow> 0 | Some c \<Rightarrow> a_refcount c)"
    "\<forall>q. q \<noteq> p \<longrightarrow> count R' q = count R q" "\<forall>c. b = Some c \<longrightarrow> 0 < a_refcount c"
  shows "heap_ok (acl_put p b v) R'"
  using assms acl_at_bound [OF assms(2)]
  by (auto simp: heap_ok_def ref_count_def acl_at_put_acl split: if_splits)

lemma dup_ok:
  assumes h: "heap_ok v R" and p: "set_mset (ptrs acl) \<subseteq> set_mset (R + refs v)"
  obtains v' where "posix_acl_dup acl v = Some v'" "heap_ok v' (R + ptrs acl)"
    "inodes v' = inodes v" "keeps R v v'" "ents v' = ents v"
proof (cases acl)
  case None
  with h that show thesis by (simp add: posix_acl_dup_def)
next
  case (Some p)
  with assms obtain a where a: "acl_at v p = Some a" "a_refcount a = count (R + refs v) p"
    by (auto elim: heap_okD)
  let ?v = "acl_put p (Some (a\<lparr>a_refcount := a_refcount a + 1\<rparr>)) v"
  have e: "ents ?v = ents v"
    using a acl_at_bound [OF a(1)] by (auto simp: ents_def acl_at_put_acl fun_eq_iff)
  show thesis
  proof (rule that)
    show "posix_acl_dup acl v = Some ?v" using Some a by (simp add: posix_acl_dup_def)
    show "heap_ok ?v (R + ptrs acl)"
      using h a Some by (intro heap_ok_acl_put [OF h a(1)]) auto
  qed (use e in \<open>auto simp: keeps_def\<close>)
qed

lemma release_ok:
  assumes h: "heap_ok v (R + ptrs acl)"
  obtains v' where "posix_acl_release acl v = Some v'" "heap_ok v' R" "inodes v' = inodes v"
    "keeps (R + refs v) v v'" "abs_fs v' = abs_fs v"
proof (cases acl)
  case None
  with h that show thesis by (simp add: posix_acl_release_def)
next
  case (Some p)
  obtain a where a: "acl_at v p = Some a" "a_refcount a = count (R + refs v) p + 1"
    using Some by (auto intro: heap_okD [OF h, of p])
  let ?b = "if a_refcount a - 1 = 0 then None else Some (a\<lparr>a_refcount := a_refcount a - 1\<rparr>)"
  let ?v = "acl_put p ?b v"
  have e: "ents ?v q = ents v q" if "q \<in># R + refs v" for q
  proof (cases "q = p")
    case True
    with that a have "a_refcount a - 1 \<noteq> 0" by (auto simp: count_eq_zero_iff)
    with True a acl_at_bound [OF a(1)] show ?thesis by (simp add: ents_def acl_at_put_acl)
  qed (simp add: ents_def acl_at_put_acl)
  show thesis
  proof (rule that)
    show "posix_acl_release acl v = Some ?v" using Some a by (simp add: posix_acl_release_def)
    show "heap_ok ?v R"
      using a Some by (intro heap_ok_acl_put [OF h a(1)]) auto
    show "keeps (R + refs v) v ?v" using e by (simp add: keeps_def)
    show "abs_fs ?v = abs_fs v" using e by (intro abs_fs_cong) auto
  qed simp
qed

lemma alloc_ok:
  assumes h: "heap_ok v R"
  obtains p v' where "posix_acl_alloc es v = (p, v')" "heap_ok v' (add_mset p R)"
    "inodes v' = inodes v" "keeps (R + refs v) v v'" "ents v' p = Some es" "p \<notin># R + refs v"
    "abs_fs v' = abs_fs v"
proof -
  define a where "a = \<lparr>a_refcount = 1, a_entries = es\<rparr>"
  define w where "w = v\<lparr>acls := acls v @ [Some a]\<rparr>"
  let ?p = "length (acls v)"
  have at: "acl_at w q = (if q = ?p then Some a else acl_at v q)" for q
    by (auto simp: acl_at_def nth_append w_def)
  have r: "refs w = refs v" by (simp add: refs_def w_def)
  have p: "?p \<notin># R + refs v"
    using h by (intro heap_ok_fresh) (simp_all add: acl_at_def)
  have e: "ents w q = ents v q" if "q \<in># R + refs v" for q
    using p that by (auto simp: ents_def at)
  show thesis
  proof (rule that)
    show "posix_acl_alloc es v = (?p, w)" by (simp add: posix_acl_alloc_def w_def a_def)
    show "heap_ok w (add_mset ?p R)"
      using h p by (auto simp: heap_ok_def ref_count_def at r a_def not_in_iff split: if_splits)
    show "keeps (R + refs v) v w" using e by (simp add: keeps_def w_def)
    show "abs_fs w = abs_fs v" using e by (intro abs_fs_cong) (auto simp: w_def)
    show "inodes w = inodes v" by (simp add: w_def)
    show "ents w ?p = Some es" by (simp add: ents_def at a_def)
  qed (rule p)
qed

lemma put_inode_ok:
  assumes "heap_ok v R" "ino < length (inodes v)" "R + inode_refs (get_inode v ino) = R' + inode_refs i"
  shows "heap_ok (put_inode ino i v) R'"
proof -
  let ?o = "inode_refs (get_inode v ino)"
  have "(R' + refs (put_inode ino i v)) + (?o + inode_refs i)
      = (R' + inode_refs i) + (refs (put_inode ino i v) + ?o)"
    by (simp add: ac_simps)
  also have "\<dots> = (R + ?o) + (refs v + inode_refs i)"
    by (simp only: refs_put_inode [OF assms(2)] assms(3))
  also have "\<dots> = (R + refs v) + (?o + inode_refs i)"
    by (simp add: ac_simps)
  finally have "R' + refs (put_inode ino i v) = R + refs v"
    by simp
  with assms(1) show ?thesis by (simp add: heap_ok_def ref_count_def)
qed

lemma clone_nomem: "ents v p = Some es \<Longrightarrow> posix_acl_clone False p v = Some (None, v)"
  by (auto simp: posix_acl_clone_def ents_def)

lemma clone_ok:
  assumes "heap_ok v R" "ents v p = Some es"
  obtains q v' where "posix_acl_clone True p v = Some (Some q, v')" "heap_ok v' (add_mset q R)"
    "inodes v' = inodes v" "keeps (R + refs v) v v'" "ents v' q = Some es" "q \<notin># R + refs v"
    "abs_fs v' = abs_fs v"
proof (rule alloc_ok [OF assms(1), of es])
  fix q v'
  assume a: "posix_acl_alloc es v = (q, v')" "heap_ok v' (add_mset q R)" "inodes v' = inodes v"
    "keeps (R + refs v) v v'" "ents v' q = Some es" "q \<notin># R + refs v" "abs_fs v' = abs_fs v"
  have "posix_acl_clone True p v = Some (Some q, v')"
    using assms(2) a(1) by (auto simp: posix_acl_clone_def ents_def)
  from that [OF this a(2-)] show thesis .
qed

lemma modify_ok:
  assumes h: "heap_ok v R" and e: "ents v p = Some es" and p: "p \<notin># refs v"
  obtains v' where "acl_modify p f v = Some (fst (f es), v')" "heap_ok v' R" "inodes v' = inodes v"
    "ents v' p = Some (snd (f es))" "\<forall>q. q \<noteq> p \<longrightarrow> ents v' q = ents v q"
    "task v' = task v" "umask v' = umask v" "abs_fs v' = abs_fs v"
proof -
  obtain a where a: "acl_at v p = Some a" "a_entries a = es"
    using e by (auto simp: ents_def)
  define w where "w = acl_put p (Some (a\<lparr>a_entries := snd (f es)\<rparr>)) v"
  have at: "acl_at w q = (if q = p then Some (a\<lparr>a_entries := snd (f es)\<rparr>) else acl_at v q)" for q
    using acl_at_bound [OF a(1)] by (simp add: w_def acl_at_put_acl)
  show thesis
  proof (rule that)
    show "acl_modify p f v = Some (fst (f es), w)"
      using a by (simp add: acl_modify_def w_def split_def Let_def)
    have "a_refcount a = count (R + refs v) p" "0 < a_refcount a"
      using h a(1) by (auto simp: heap_ok_def ref_count_def split: option.splits)
    then show "heap_ok w R"
      unfolding w_def by (intro heap_ok_acl_put [OF h a(1)]) auto
    show "abs_fs w = abs_fs v"
      using p by (intro abs_fs_cong) (auto simp: w_def ents_def acl_at_put_acl)
  qed (use at in \<open>auto simp: ents_def w_def\<close>)
qed

lemma clone_instead:
  assumes h: "heap_ok v {#p#}" and e: "ents v p = Some es"
  obtains q x v' where "posix_acl_clone True p v = Some (Some q, x)"
    "posix_acl_release (Some p) x = Some v'" "heap_ok v' {#q#}" "inodes v' = inodes v"
    "task v' = task v" "umask v' = umask v" "abs_fs v' = abs_fs v" "ents v' q = Some es" "q \<notin># refs v'"
proof -
  obtain q x where x: "posix_acl_clone True p v = Some (Some q, x)" "heap_ok x (add_mset q {#p#})"
    "inodes x = inodes v" "keeps ({#p#} + refs v) v x" "ents x q = Some es" "q \<notin># {#p#} + refs v"
    "abs_fs x = abs_fs v"
    by (rule clone_ok [OF assms])
  then have "heap_ok x ({#q#} + ptrs (Some p))" by (simp add: add_mset_commute)
  then obtain v' where v': "posix_acl_release (Some p) x = Some v'" "heap_ok v' {#q#}"
    "inodes v' = inodes x" "keeps ({#q#} + refs x) x v'" "abs_fs v' = abs_fs x"
    by (rule release_ok)
  show thesis
    by (rule that [OF x(1) v'(1,2)]) (use x v' in \<open>auto simp: keeps_def refs_def\<close>)
qed

lemma set_i_mode_simps [simp]:
  "task (set_i_mode ino m v) = task v" "umask (set_i_mode ino m v) = umask v"
  "ents (set_i_mode ino m v) = ents v"
  "length (inodes (set_i_mode ino m v)) = length (inodes v)"
  by (simp_all add: set_i_mode_def)

lemma get_inode_set_i_mode:
  "ino < length (inodes v) \<Longrightarrow>
   get_inode (set_i_mode ino m v) j = (if j = ino then (get_inode v ino)\<lparr>i_mode := m\<rparr> else get_inode v j)"
  by (simp add: set_i_mode_def)

lemma abs_put_inode: "abs_fs (put_inode ino i v) = (abs_fs v)[ino := abs_inode (ents v) i]"
  by (simp add: abs_fs_def map_update)

lemma set_i_mode_ok:
  assumes "heap_ok v R" "ino < length (inodes v)"
  shows "heap_ok (set_i_mode ino m v) R"
    "abs_fs (set_i_mode ino m v) = (abs_fs v)[ino := (abs_fs v ! ino)\<lparr>i_mode := m\<rparr>]"
    "refs (set_i_mode ino m v) = refs v"
proof -
  show "heap_ok (set_i_mode ino m v) R"
    unfolding set_i_mode_def by (rule put_inode_ok [OF assms]) (simp add: inode_refs_def)
  show "abs_fs (set_i_mode ino m v) = (abs_fs v)[ino := (abs_fs v ! ino)\<lparr>i_mode := m\<rparr>]"
    using assms(2) by (simp add: set_i_mode_def abs_put_inode abs_fs_nth) (simp add: abs_inode_def)
  show "refs (set_i_mode ino m v) = refs v"
    using refs_put_inode [OF assms(2), of "(get_inode v ino)\<lparr>i_mode := m\<rparr>"]
    by (simp add: set_i_mode_def inode_refs_def)
qed

section \<open>The interface of the file system\<close>

definition acl_of :: "int \<Rightarrow> 'p inode \<Rightarrow> 'p option" where
  "acl_of type i = (if type = ACL_TYPE_ACCESS then i_acl i
     else if type = ACL_TYPE_DEFAULT then i_default_acl i else None)"

definition put_acl :: "int \<Rightarrow> 'p option \<Rightarrow> 'p inode \<Rightarrow> 'p inode" where
  "put_acl type x i = (if type = ACL_TYPE_ACCESS then i\<lparr>i_acl := x\<rparr>
     else if type = ACL_TYPE_DEFAULT then i\<lparr>i_default_acl := x\<rparr> else i)"

text \<open>The pointer \<open>p\<close> stands for the value \<open>x\<close>.\<close>

definition holds_acl :: "vfs \<Rightarrow> acl_ptr option \<Rightarrow> posix_acl_entry list option \<Rightarrow> bool" where
  "holds_acl v p x \<longleftrightarrow> (case p of None \<Rightarrow> x = None | Some q \<Rightarrow> x \<noteq> None \<and> ents v q = x)"

text \<open>
  What \<open>getacl\<close> and \<open>setacl\<close> promise to the generic operations: \<open>getacl\<close> gives the caller a
  reference to the ACL of the inode, \<open>setacl\<close> takes one of its own and drops that of the old ACL.
\<close>

locale acl_operations =
  fixes ops :: generic_acl_operations
  assumes getacl_law:
    "heap_ok v R \<Longrightarrow> ino < length (inodes v) \<Longrightarrow>
     \<exists>p v'. getacl ops ino type v = Some (p, v') \<and> heap_ok v' (R + ptrs p) \<and> inodes v' = inodes v
       \<and> keeps R v v' \<and> abs_fs v' = abs_fs v \<and> holds_acl v' p (acl_of type (abs_fs v ! ino))"
  and setacl_law:
    "heap_ok v R \<Longrightarrow> ino < length (inodes v) \<Longrightarrow> ptrs p \<subseteq># R \<Longrightarrow>
     \<exists>v'. setacl ops ino type p v = Some v' \<and> heap_ok v' R \<and> keeps R v v'
       \<and> abs_fs v' = (abs_fs v)[ino := put_acl type (p \<bind> ents v) (abs_fs v ! ino)]"

subsection \<open>tmpfs\<close>

lemma shmem_get_acl_eq:
  "shmem_get_acl ino type v = do { w \<leftarrow> posix_acl_dup (acl_of type (get_inode v ino)) v;
     Some (acl_of type (get_inode v ino), w) }"
  by (simp add: shmem_get_acl_def acl_of_def Let_def)

lemma shmem_set_acl_eq:
  assumes "type = ACL_TYPE_ACCESS \<or> type = ACL_TYPE_DEFAULT"
  shows "shmem_set_acl ino type acl v = do { w \<leftarrow> posix_acl_dup acl v;
     posix_acl_release (acl_of type (get_inode v ino))
       (put_inode ino (put_acl type acl (get_inode w ino)) w) }"
  using assms by (auto simp: shmem_set_acl_def acl_of_def put_acl_def Let_def)

lemma inode_refs_put_acl:
  assumes "type = ACL_TYPE_ACCESS \<or> type = ACL_TYPE_DEFAULT"
  shows "ptrs x + inode_refs i = ptrs (acl_of type i) + inode_refs (put_acl type x i)"
  using assms by (auto simp: inode_refs_def acl_of_def put_acl_def ACL_TYPE_ACCESS_def
    ACL_TYPE_DEFAULT_def add.commute add.left_commute)

lemma abs_put_acl: "abs_inode E (put_acl type p i) = put_acl type (p \<bind> E) (abs_inode E i)"
  by (simp add: put_acl_def abs_inode_def)

lemma abs_acl_of: "acl_of type (abs_inode E i) = acl_of type i \<bind> E"
  by (simp add: acl_of_def)

lemma acl_of_refs: "set_mset (ptrs (acl_of type i)) \<subseteq> set_mset (inode_refs i)"
  by (auto simp: acl_of_def inode_refs_def)

lemma shmem_getacl_law:
  assumes h: "heap_ok v R" and ino: "ino < length (inodes v)"
  shows "\<exists>p v'. shmem_get_acl ino type v = Some (p, v') \<and> heap_ok v' (R + ptrs p) \<and> inodes v' = inodes v
    \<and> keeps R v v' \<and> abs_fs v' = abs_fs v \<and> holds_acl v' p (acl_of type (abs_fs v ! ino))"
proof -
  let ?p = "acl_of type (get_inode v ino)"
  have sub: "set_mset (ptrs ?p) \<subseteq> set_mset (R + refs v)"
    using acl_of_refs [of type "get_inode v ino"] inode_refs_in_refs [OF nth_mem [OF ino]]
    by fastforce
  obtain v' where v': "posix_acl_dup ?p v = Some v'" "heap_ok v' (R + ptrs ?p)" "inodes v' = inodes v"
    "keeps R v v'" "ents v' = ents v"
    by (rule dup_ok [OF h sub])
  have "holds_acl v' ?p (acl_of type (abs_fs v ! ino))"
  proof (cases ?p)
    case (Some q)
    with v'(2) obtain a where "acl_at v' q = Some a"
      by (auto intro: heap_okD [of v' "R + ptrs ?p" q])
    then have "ents v' q \<noteq> None" by (simp add: ents_def)
    with Some ino v'(5) show ?thesis by (auto simp: holds_acl_def abs_acl_of abs_fs_nth)
  qed (use ino in \<open>simp add: holds_acl_def abs_acl_of abs_fs_nth\<close>)
  with v' show ?thesis by (simp add: shmem_get_acl_eq abs_fs_def)
qed

lemma shmem_setacl_law:
  assumes h: "heap_ok v R" and ino: "ino < length (inodes v)" and p: "ptrs p \<subseteq># R"
  shows "\<exists>v'. shmem_set_acl ino type p v = Some v' \<and> heap_ok v' R \<and> keeps R v v'
    \<and> abs_fs v' = (abs_fs v)[ino := put_acl type (p \<bind> ents v) (abs_fs v ! ino)]"
proof (cases "type = ACL_TYPE_ACCESS \<or> type = ACL_TYPE_DEFAULT")
  case True
  have "set_mset (ptrs p) \<subseteq> set_mset (R + refs v)"
    using set_mset_mono [OF p] by auto
  then obtain w where w: "posix_acl_dup p v = Some w" "heap_ok w (R + ptrs p)" "inodes w = inodes v"
    "keeps R v w" "ents w = ents v"
    using dup_ok [OF h] by blast
  define u where "u = put_inode ino (put_acl type p (get_inode v ino)) w"
  have "heap_ok u (R + ptrs (acl_of type (get_inode v ino)))"
    unfolding u_def using w(2,3) ino inode_refs_put_acl [OF True, of p "get_inode v ino"]
    by (intro put_inode_ok [of w "R + ptrs p"]) (simp_all add: add.assoc)
  then obtain v' where v': "posix_acl_release (acl_of type (get_inode v ino)) u = Some v'"
    "heap_ok v' R" "keeps (R + refs u) u v'" "abs_fs v' = abs_fs u"
    by (rule release_ok)
  have "abs_fs w = abs_fs v" using w by (simp add: abs_fs_def)
  then have "abs_fs v' = (abs_fs v)[ino := put_acl type (p \<bind> ents v) (abs_fs v ! ino)]"
    using v'(4) w(5) ino by (simp add: u_def abs_put_inode abs_put_acl abs_fs_nth)
  moreover have "keeps R v v'"
    using w(4) v'(3) by (auto simp: keeps_def u_def)
  moreover have "shmem_set_acl ino type p v = Some v'"
    using w v'(1) by (simp add: shmem_set_acl_eq [OF True] u_def)
  ultimately show ?thesis using v'(2) by blast
next
  case False
  then have "shmem_set_acl ino type p v = Some v" "put_acl type x i = i" for x :: "posix_acl_entry list option" and i
    by (simp_all add: shmem_set_acl_def put_acl_def)
  with h show ?thesis by simp
qed

interpretation shmem: acl_operations shmem_acl_ops
  by unfold_locales
    (unfold shmem_acl_ops_def generic_acl_operations.simps,
      (rule shmem_getacl_law shmem_setacl_law; assumption)+)

section \<open>The operations on values\<close>

text \<open>
  The generic operations on an inode that has its ACLs as values. They are the reference for the
  operations on shared, counted ACLs.
\<close>

definition set_new_value :: "int \<Rightarrow> posix_acl_entry list \<Rightarrow> ainode \<Rightarrow> unit kres \<times> ainode" where
  "set_new_value type es i =
     (case posix_acl_valid es of
        Inl e \<Rightarrow> (Inl e, i)
      | Inr _ \<Rightarrow>
          if type = ACL_TYPE_ACCESS then
            (case posix_acl_equiv_mode es (i_mode i) of
               Inl e \<Rightarrow> (Inl e, i)
             | Inr (not_equiv, mode) \<Rightarrow>
                 (Inr (), i\<lparr>i_mode := mode, i_acl := if not_equiv then Some es else None\<rparr>))
          else if type = ACL_TYPE_DEFAULT \<and> \<not> S_ISDIR (i_mode i) then (Inl EINVAL, i)
          else (Inr (), put_acl type (Some es) i))"

definition set_value :: "bool \<Rightarrow> bool \<Rightarrow> int \<Rightarrow> u8 list option \<Rightarrow> ainode \<Rightarrow> unit kres \<times> ainode" where
  "set_value allowed mem type val i =
     (if S_ISLNK (i_mode i) then (Inl EOPNOTSUPP, i)
      else if \<not> allowed then (Inl EPERM, i)
      else case posix_acl_from_xattr mem val of
        Inl e \<Rightarrow> (Inl e, i)
      | Inr None \<Rightarrow> (Inr (), put_acl type None i)
      | Inr (Some es) \<Rightarrow> set_new_value type es i)"

definition inherit_value :: "posix_acl_entry list \<Rightarrow> mode_t \<Rightarrow> ainode \<Rightarrow> ainode" where
  "inherit_value es mode i =
     (case posix_acl_create_masq es mode of
        (Inl _, _) \<Rightarrow> i
      | (Inr (not_equiv, mode'), es') \<Rightarrow>
          if not_equiv then i\<lparr>i_mode := mode', i_acl := Some es'\<rparr> else i\<lparr>i_mode := mode'\<rparr>)"

definition init_value ::
  "(nat \<Rightarrow> bool) \<Rightarrow> u32 \<Rightarrow> posix_acl_entry list option \<Rightarrow> ainode \<Rightarrow> unit kres \<times> ainode" where
  "init_value mem um dflt i =
     (let i1 = i\<lparr>i_mode := i_mode i AND NOT (ucast um)\<rparr>
      in if S_ISLNK (i_mode i1) then (Inr (), i1)
         else case dflt of
           None \<Rightarrow> (Inr (), i1)
         | Some es \<Rightarrow>
             let dir = S_ISDIR (i_mode i1);
                 i2 = (if dir then i1\<lparr>i_default_acl := Some es\<rparr> else i1)
             in if dir \<and> \<not> mem 0 then (Inl ENOMEM, i1)
                else if \<not> mem 1 then (Inl ENOMEM, i2)
                else (Inr (), inherit_value es (i_mode i) i2))"

definition chmod_value :: "bool \<Rightarrow> ainode \<Rightarrow> unit kres \<times> ainode" where
  "chmod_value mem i =
     (if S_ISLNK (i_mode i) then (Inl EOPNOTSUPP, i)
      else case i_acl i of
        None \<Rightarrow> (Inr (), i)
      | Some es \<Rightarrow>
          if \<not> mem then (Inl ENOMEM, i)
          else case posix_acl_chmod_masq es (i_mode i) of
            (Inl e, _) \<Rightarrow> (Inl e, i)
          | (Inr _, es') \<Rightarrow> (Inr (), i\<lparr>i_acl := Some es'\<rparr>))"

section \<open>The generic operations implement those on values\<close>

lemma type_distinct [simp]: "ACL_TYPE_ACCESS \<noteq> ACL_TYPE_DEFAULT" "ACL_TYPE_DEFAULT \<noteq> ACL_TYPE_ACCESS"
  by (simp_all add: ACL_TYPE_ACCESS_def ACL_TYPE_DEFAULT_def)

lemma acl_set_failed_ok:
  assumes "heap_ok v {#p#}"
  shows "\<exists>v'. acl_set_failed r p v = Some (r, v') \<and> heap_ok v' {#} \<and> task v' = task v
    \<and> umask v' = umask v \<and> abs_fs v' = abs_fs v"
proof -
  from assms have "heap_ok v ({#} + ptrs (Some p))" by simp
  then obtain v' where "posix_acl_release (Some p) v = Some v'" "heap_ok v' {#}"
    "keeps ({#} + refs v) v v'" "abs_fs v' = abs_fs v"
    by (rule release_ok)
  then show ?thesis by (auto simp: acl_set_failed_def keeps_def)
qed

context acl_operations
begin

lemma setacl_release:
  assumes h: "heap_ok v (add_mset p R)" and ino: "ino < length (inodes v)" and e: "ents v p = Some es"
  obtains w v' where "setacl ops ino type (Some p) v = Some w" "posix_acl_release (Some p) w = Some v'"
    "heap_ok v' R" "keeps R v v'"
    "abs_fs v' = (abs_fs v)[ino := put_acl type (Some es) (abs_fs v ! ino)]"
proof -
  obtain w where w: "setacl ops ino type (Some p) v = Some w" "heap_ok w (R + ptrs (Some p))"
    "keeps (add_mset p R) v w"
    "abs_fs w = (abs_fs v)[ino := put_acl type (Some es) (abs_fs v ! ino)]"
    using setacl_law [OF h ino, of "Some p" type] e by auto
  obtain v' where v': "posix_acl_release (Some p) w = Some v'" "heap_ok v' R"
    "keeps (R + refs w) w v'" "abs_fs v' = abs_fs w"
    by (rule release_ok [OF w(2)])
  have "keeps R v v'"
    using keeps_trans [OF keeps_mono [OF w(3)] keeps_mono [OF v'(3)]] by simp
  with w v' that show thesis by auto
qed

lemma setacl_then_release:
  assumes "heap_ok v {#p#}" "ino < length (inodes v)" "ents v p = Some es"
  shows "\<exists>v'. (do { v \<leftarrow> setacl ops ino type (Some p) v; acl_set_failed r p v }) = Some (r, v')
    \<and> heap_ok v' {#} \<and> task v' = task v \<and> umask v' = umask v
    \<and> abs_fs v' = (abs_fs v)[ino := put_acl type (Some es) (abs_fs v ! ino)]"
  by (rule setacl_release [OF assms, of type]) (auto simp: acl_set_failed_def keeps_def)

lemma setacl_none:
  assumes "heap_ok v {#}" "ino < length (inodes v)"
  shows "\<exists>v'. setacl ops ino type None v = Some v' \<and> heap_ok v' {#} \<and> task v' = task v
    \<and> umask v' = umask v \<and> abs_fs v' = (abs_fs v)[ino := put_acl type None (abs_fs v ! ino)]"
  using setacl_law [OF assms, of None] by (auto simp: keeps_def)

lemma release_then_setacl_none:
  assumes "heap_ok v {#p#}" "ino < length (inodes v)"
  shows "\<exists>v'. (do { v \<leftarrow> posix_acl_release (Some p) v; v \<leftarrow> setacl ops ino type None v; Some (r, v) })
      = Some (r, v')
    \<and> heap_ok v' {#} \<and> task v' = task v \<and> umask v' = umask v
    \<and> abs_fs v' = (abs_fs v)[ino := put_acl type None (abs_fs v ! ino)]"
proof -
  from assms(1) have "heap_ok v ({#} + ptrs (Some p))" by simp
  then obtain w where w: "posix_acl_release (Some p) v = Some w" "heap_ok w {#}" "inodes w = inodes v"
    "keeps ({#} + refs v) v w" "abs_fs w = abs_fs v"
    by (rule release_ok)
  with assms(2) setacl_none [of w ino type] show ?thesis by (auto simp: keeps_def)
qed

lemma acl_set_new_ok:
  assumes h: "heap_ok v {#}" and ino: "ino < length (inodes v)"
  shows "\<exists>v'. acl_set_new ops ino type es v = Some (fst (set_new_value type es (abs_fs v ! ino)), v')
    \<and> heap_ok v' {#} \<and> task v' = task v \<and> umask v' = umask v
    \<and> abs_fs v' = (abs_fs v)[ino := snd (set_new_value type es (abs_fs v ! ino))]"
proof -
  obtain p u where u: "posix_acl_alloc es v = (p, u)" "heap_ok u {#p#}" "inodes u = inodes v"
    "keeps ({#} + refs v) v u" "ents u p = Some es" "abs_fs u = abs_fs v"
    by (rule alloc_ok [OF h, of es])
  have fr: "task u = task v" "umask u = umask v" "ino < length (inodes u)"
    using u ino by (auto simp: keeps_def)
  note fail = acl_set_failed_ok [OF u(2)]
  show ?thesis
  proof (cases "type = ACL_TYPE_ACCESS \<and> is_ok (posix_acl_valid es) \<and>
      is_ok (posix_acl_equiv_mode es (i_mode (get_inode v ino)))")
    case False
    with u(1,3,6) fr ino fail setacl_then_release [OF u(2) fr(3) u(5)] show ?thesis
      by (cases "posix_acl_valid es"; cases "posix_acl_equiv_mode es (i_mode (get_inode v ino))")
        (auto simp: acl_set_new_def set_new_value_def)
  next
    case True
    then obtain ne mode where t: "type = ACL_TYPE_ACCESS" "posix_acl_valid es = Inr ()"
      "posix_acl_equiv_mode es (i_mode (get_inode v ino)) = Inr (ne, mode)"
      by (cases "posix_acl_valid es"; cases "posix_acl_equiv_mode es (i_mode (get_inode v ino))") auto
    define w where "w = set_i_mode ino mode u"
    have w: "heap_ok w {#p#}" "ino < length (inodes w)" "ents w p = Some es" "task w = task v"
      "umask w = umask v" "abs_fs w = (abs_fs v)[ino := (abs_fs v ! ino)\<lparr>i_mode := mode\<rparr>]"
      using set_i_mode_ok [OF u(2) fr(3), of mode] fr u by (simp_all add: w_def)
    have nth: "abs_fs w ! ino = (abs_fs v ! ino)\<lparr>i_mode := mode\<rparr>"
      using w(6) ino by simp
    show ?thesis
      using u(1,3) t w ino nth setacl_then_release [OF w(1-3), of type "Inr ()"]
        release_then_setacl_none [OF w(1,2), of type "Inr ()"]
      by (auto simp: acl_set_new_def set_new_value_def put_acl_def simp flip: w_def)
  qed
qed

lemma generic_acl_set_ok:
  fixes v ino env
  defines "allowed \<equiv> fst (is_owner_or_cap env (get_inode v ino) (task v))"
  assumes h: "heap_ok v {#}" and ino: "ino < length (inodes v)"
  shows "\<exists>v'. generic_acl_set env ops mem ino type val v =
      Some (fst (set_value allowed mem type val (abs_fs v ! ino)), v')
    \<and> heap_ok v' {#} \<and> umask v' = umask v
    \<and> abs_fs v' = (abs_fs v)[ino := snd (set_value allowed mem type val (abs_fs v ! ino))]"
proof -
  obtain ok s where own: "is_owner_or_cap env (get_inode v ino) (task v) = (ok, s)" by fastforce
  define w where "w = v\<lparr>task := s\<rparr>"
  have w: "heap_ok w {#}" "ino < length (inodes w)" "abs_fs w = abs_fs v" "umask w = umask v"
    using h ino by (simp_all add: w_def)
  show ?thesis
    using h own w ino setacl_none [OF w(1,2), of type] acl_set_new_ok [OF w(1,2), of type]
    unfolding generic_acl_set_def set_value_def allowed_def
    by (auto simp flip: w_def split: sum.splits option.splits)
qed

lemma getaclE:
  assumes "heap_ok v R" "ino < length (inodes v)"
  obtains p v' where "getacl ops ino type v = Some (p, v')" "heap_ok v' (R + ptrs p)"
    "inodes v' = inodes v" "task v' = task v" "umask v' = umask v" "abs_fs v' = abs_fs v"
    "holds_acl v' p (acl_of type (abs_fs v ! ino))" "\<forall>q\<in>#R. ents v' q = ents v q"
  using getacl_law [OF assms, of type] by (auto simp: keeps_def)

lemma generic_acl_chmod_ok:
  assumes h: "heap_ok v {#}" and ino: "ino < length (inodes v)"
  shows "\<exists>v'. generic_acl_chmod ops mem ino v = Some (fst (chmod_value mem (abs_fs v ! ino)), v')
    \<and> heap_ok v' {#} \<and> task v' = task v \<and> umask v' = umask v
    \<and> abs_fs v' = (abs_fs v)[ino := snd (chmod_value mem (abs_fs v ! ino))]"
proof (cases "S_ISLNK (i_mode (get_inode v ino))")
  case True
  with h ino show ?thesis by (simp add: generic_acl_chmod_def chmod_value_def)
next
  case False
  note lnk = this
  obtain p w where w: "getacl ops ino ACL_TYPE_ACCESS v = Some (p, w)" "heap_ok w ({#} + ptrs p)"
    "inodes w = inodes v" "task w = task v" "umask w = umask v" "abs_fs w = abs_fs v"
    "holds_acl w p (acl_of ACL_TYPE_ACCESS (abs_fs v ! ino))"
    by (rule getaclE [OF h ino])
  show ?thesis
  proof (cases p)
    case None
    with lnk w ino show ?thesis
      by (simp add: generic_acl_chmod_def chmod_value_def holds_acl_def acl_of_def)
  next
    case (Some q)
    then obtain es where es: "ents w q = Some es" "i_acl (abs_fs v ! ino) = Some es"
      using w(7) by (auto simp: holds_acl_def acl_of_def)
    obtain u where u: "posix_acl_release (Some q) w = Some u" "heap_ok u {#}" "task u = task w"
      "umask u = umask w" "abs_fs u = abs_fs w"
      using release_ok [OF w(2)] Some by (auto simp: keeps_def)
    show ?thesis
    proof (cases mem)
      case False
      with lnk w u Some es ino show ?thesis
        by (simp add: generic_acl_chmod_def chmod_value_def clone_nomem)
    next
      case True
      obtain c x y where y: "posix_acl_clone True q w = Some (Some c, x)"
        "posix_acl_release (Some q) x = Some y" "heap_ok y {#c#}" "inodes y = inodes w"
        "task y = task w" "umask y = umask w" "abs_fs y = abs_fs w" "ents y c = Some es" "c \<notin># refs y"
        using clone_instead [OF _ es(1)] w(2) Some by auto
      let ?f = "\<lambda>es. posix_acl_chmod_masq es (i_mode (get_inode v ino))"
      obtain z where z: "acl_modify c ?f y = Some (fst (?f es), z)" "heap_ok z {#c#}"
        "inodes z = inodes y" "ents z c = Some (snd (?f es))" "task z = task y" "umask z = umask y"
        "abs_fs z = abs_fs y"
        by (rule modify_ok [OF y(3,8,9), of ?f]) blast
      have fr: "ino < length (inodes z)" "task z = task v" "umask z = umask v" "abs_fs z = abs_fs v"
        "inodes y = inodes v"
        using w y z ino by auto
      have "generic_acl_chmod ops mem ino v =
          do { v \<leftarrow> (if is_ok (fst (?f es)) then setacl ops ino ACL_TYPE_ACCESS (Some c) z else Some z);
               acl_set_failed (fst (?f es)) c v }"
        using lnk w Some y z True fr by (simp add: generic_acl_chmod_def acl_set_failed_def)
      then show ?thesis
        using setacl_then_release [OF z(2) fr(1) z(4), of ACL_TYPE_ACCESS "fst (?f es)"]
          acl_set_failed_ok [OF z(2), of "fst (?f es)"] fr es lnk ino True
        by (cases "?f es"; cases "fst (?f es)") (auto simp: chmod_value_def put_acl_def)
    qed
  qed
qed

lemma acl_init_default_ok:
  assumes h: "heap_ok v {#p#}" and e: "ents v p = Some es" and ino: "ino < length (inodes v)"
  defines "dir \<equiv> S_ISDIR (i_mode (get_inode v ino))"
  shows "\<exists>v'. acl_init_default ops mem ino p v = Some (\<not> dir \<or> mem, v') \<and> heap_ok v' {#p#}
    \<and> keeps {#p#} v v'
    \<and> abs_fs v' = (if dir \<and> mem then (abs_fs v)[ino := (abs_fs v ! ino)\<lparr>i_default_acl := Some es\<rparr>]
                    else abs_fs v)"
proof (cases "dir \<and> mem")
  case False
  with h e show ?thesis by (auto simp: acl_init_default_def dir_def clone_nomem)
next
  case True
  obtain c x where x: "posix_acl_clone True p v = Some (Some c, x)" "heap_ok x (add_mset c {#p#})"
    "inodes x = inodes v" "keeps ({#p#} + refs v) v x" "ents x c = Some es" "abs_fs x = abs_fs v"
    by (rule clone_ok [OF h e])
  have ino': "ino < length (inodes x)" using x ino by simp
  obtain w v' where "setacl ops ino ACL_TYPE_DEFAULT (Some c) x = Some w"
    "posix_acl_release (Some c) w = Some v'" "heap_ok v' {#p#}" "keeps {#p#} x v'"
    "abs_fs v' = (abs_fs x)[ino := put_acl ACL_TYPE_DEFAULT (Some es) (abs_fs x ! ino)]"
    by (rule setacl_release [OF x(2) ino' x(5)])
  with True x show ?thesis
    by (auto simp: acl_init_default_def dir_def put_acl_def keeps_def)
qed

lemma acl_init_access_ok:
  assumes h: "heap_ok v {#p#}" and e: "ents v p = Some es" and ino: "ino < length (inodes v)"
  shows "\<exists>v'. acl_init_access ops mem ino p mode v = Some (mem, v') \<and> heap_ok v' {#p#}
    \<and> keeps {#p#} v v'
    \<and> abs_fs v' = (if mem then (abs_fs v)[ino := inherit_value es mode (abs_fs v ! ino)] else abs_fs v)"
proof (cases mem)
  case False
  with h e show ?thesis by (auto simp: acl_init_access_def clone_nomem)
next
  case True
  let ?f = "\<lambda>es. posix_acl_create_masq es mode"
  obtain c x where x: "posix_acl_clone True p v = Some (Some c, x)" "heap_ok x (add_mset c {#p#})"
    "inodes x = inodes v" "keeps ({#p#} + refs v) v x" "ents x c = Some es"
    "c \<notin># {#p#} + refs v" "abs_fs x = abs_fs v"
    by (rule clone_ok [OF h e])
  have c: "c \<notin># refs x" "c \<noteq> p" using x by (auto simp: refs_def)
  obtain y where y: "acl_modify c ?f x = Some (fst (?f es), y)" "heap_ok y (add_mset c {#p#})"
    "inodes y = inodes x" "ents y c = Some (snd (?f es))" "\<forall>q. q \<noteq> c \<longrightarrow> ents y q = ents x q"
    "task y = task x" "umask y = umask x" "abs_fs y = abs_fs x"
    by (rule modify_ok [OF x(2,5) c(1), of ?f]) blast
  have k: "keeps {#p#} v y" using x y c by (auto simp: keeps_def)
  have ino': "ino < length (inodes y)" using x y ino by simp
  have rel: "\<exists>v'. posix_acl_release (Some c) z = Some v' \<and> heap_ok v' {#p#} \<and> keeps {#p#} z v'
      \<and> abs_fs v' = abs_fs z" if "heap_ok z (add_mset c {#p#})" for z
    using release_ok [of z "{#p#}" "Some c"] that keeps_mono by fastforce
  obtain r es' where f: "?f es = (r, es')" by fastforce
  show ?thesis
  proof (cases r)
    case (Inl a)
    with True f x y k rel [OF y(2)] show ?thesis
      by (auto simp: acl_init_access_def inherit_value_def keeps_def)
  next
    case (Inr b)
    obtain ne m where b: "b = (ne, m)" by fastforce
    define z where "z = set_i_mode ino m y"
    have z: "heap_ok z (add_mset c {#p#})" "ino < length (inodes z)" "ents z c = Some es'" "keeps {#p#} v z"
      "abs_fs z = (abs_fs v)[ino := (abs_fs v ! ino)\<lparr>i_mode := m\<rparr>]"
      using set_i_mode_ok [OF y(2) ino', of m] ino' y x f k by (auto simp: z_def keeps_def)
    obtain w v' where "setacl ops ino ACL_TYPE_ACCESS (Some c) z = Some w"
      "posix_acl_release (Some c) w = Some v'" "heap_ok v' {#p#}" "keeps {#p#} z v'"
      "abs_fs v' = (abs_fs z)[ino := put_acl ACL_TYPE_ACCESS (Some es') (abs_fs z ! ino)]"
      by (rule setacl_release [OF z(1-3)])
    with True Inr b f x y z ino rel [OF z(1)] show ?thesis
      by (cases ne) (auto simp: acl_init_access_def inherit_value_def put_acl_def keeps_def
        simp flip: z_def)
  qed
qed

lemma acl_inherit_ok:
  fixes mem :: "nat \<Rightarrow> bool"
  assumes h: "heap_ok x {#q#}" and es: "ents x q = Some es" and ino: "ino < length (inodes x)"
  defines "dir \<equiv> S_ISDIR (i_mode (get_inode x ino))" and "i1 \<equiv> abs_fs x ! ino"
  defines "i2 \<equiv> if dir then i1\<lparr>i_default_acl := Some es\<rparr> else i1"
  shows "\<exists>v'. (do { (ok, v) \<leftarrow> acl_init_default ops (mem 0) ino q x;
                    (ok, v) \<leftarrow> (if ok then acl_init_access ops (mem 1) ino q mode v else Some (False, v));
                    v \<leftarrow> posix_acl_release (Some q) v;
                    Some (if ok then Inr () else Inl ENOMEM, v) })
      = Some (if dir \<and> \<not> mem 0 \<or> \<not> mem 1 then Inl ENOMEM else Inr (), v')
    \<and> heap_ok v' {#} \<and> task v' = task x \<and> umask v' = umask x
    \<and> abs_fs v' = (abs_fs x)[ino := if dir \<and> \<not> mem 0 then i1 else if \<not> mem 1 then i2
                                     else inherit_value es mode i2]"
proof -
  obtain y where y: "acl_init_default ops (mem 0) ino q x = Some (\<not> dir \<or> mem 0, y)"
    "heap_ok y {#q#}" "keeps {#q#} x y"
    "abs_fs y = (if dir \<and> mem 0 then (abs_fs x)[ino := i1\<lparr>i_default_acl := Some es\<rparr>] else abs_fs x)"
    using acl_init_default_ok [OF assms(1-3), of "mem 0"] by (auto simp: dir_def i1_def)
  have hy: "ents y q = Some es" "ino < length (inodes y)"
    using y es ino length_abs_fs [of y] by (auto simp: keeps_def split: if_splits)
  obtain z where z: "acl_init_access ops (mem 1) ino q mode y = Some (mem 1, z)" "heap_ok z {#q#}"
    "keeps {#q#} y z"
    "abs_fs z = (if mem 1 then (abs_fs y)[ino := inherit_value es mode (abs_fs y ! ino)] else abs_fs y)"
    using acl_init_access_ok [OF y(2) hy, of "mem 1" mode] by auto
  have rel: "\<exists>v'. posix_acl_release (Some q) u = Some v' \<and> heap_ok v' {#} \<and> task v' = task u
      \<and> umask v' = umask u \<and> abs_fs v' = abs_fs u" if "heap_ok u {#q#}" for u
    using acl_set_failed_ok [OF that, of "Inr ()"] by (auto simp: acl_set_failed_def split: bind_splits)
  from rel [OF y(2)] rel [OF z(2)] y z ino show ?thesis
    by (auto simp: keeps_def i1_def i2_def)
qed

lemma generic_acl_init_ok:
  fixes mem :: "nat \<Rightarrow> bool"
  assumes h: "heap_ok v {#}" and ino: "ino < length (inodes v)" and dir: "dir < length (inodes v)" "dir \<noteq> ino"
  defines "res \<equiv> init_value mem (umask v) (i_default_acl (abs_fs v ! dir)) (abs_fs v ! ino)"
  shows "\<exists>v'. generic_acl_init ops mem ino dir v = Some (fst res, v')
    \<and> heap_ok v' {#} \<and> task v' = task v \<and> umask v' = umask v \<and> abs_fs v' = (abs_fs v)[ino := snd res]"
proof -
  let ?mode = "i_mode (get_inode v ino)"
  let ?m = "?mode AND NOT (ucast (umask v))"
  define w where "w = set_i_mode ino ?m v"
  have w: "heap_ok w {#}" "ino < length (inodes w)" "dir < length (inodes w)" "task w = task v"
    "umask w = umask v" "abs_fs w = (abs_fs v)[ino := (abs_fs v ! ino)\<lparr>i_mode := ?m\<rparr>]"
    "i_mode (get_inode w ino) = ?m" "abs_fs w ! dir = abs_fs v ! dir"
    "abs_fs w ! ino = (abs_fs v ! ino)\<lparr>i_mode := ?m\<rparr>"
    using set_i_mode_ok [OF h ino, of ?m] ino dir by (simp_all add: w_def get_inode_set_i_mode)
  obtain p x where x: "getacl ops dir ACL_TYPE_DEFAULT w = Some (p, x)" "heap_ok x ({#} + ptrs p)"
    "inodes x = inodes w" "task x = task w" "umask x = umask w" "abs_fs x = abs_fs w"
    "holds_acl x p (acl_of ACL_TYPE_DEFAULT (abs_fs w ! dir))"
    by (rule getaclE [OF w(1,3)])
  show ?thesis
  proof (cases "S_ISLNK ?m \<or> p = None")
    case True
    with w x ino show ?thesis
      by (auto simp: generic_acl_init_def res_def init_value_def Let_def holds_acl_def acl_of_def
        simp flip: w_def)
  next
    case False
    then obtain q es where lnk: "\<not> S_ISLNK ?m" and q: "p = Some q" "ents x q = Some es"
      "i_default_acl (abs_fs v ! dir) = Some es"
      using x(7) w(8) by (auto simp: holds_acl_def acl_of_def)
    have hx: "heap_ok x {#q#}" "ino < length (inodes x)" using x q w by auto
    from acl_inherit_ok [OF hx(1) q(2) hx(2), of mem ?mode] lnk w x q ino show ?thesis
      by (auto simp: generic_acl_init_def res_def init_value_def Let_def simp flip: w_def)
  qed
qed

lemma generic_acl_get_ok:
  assumes h: "heap_ok v {#}" and ino: "ino < length (inodes v)"
  shows "\<exists>v'. generic_acl_get ops ino type buffer v =
      Some (case acl_of type (abs_fs v ! ino) of None \<Rightarrow> Inl ENODATA
            | Some es \<Rightarrow> posix_acl_to_xattr es buffer, v')
    \<and> heap_ok v' {#} \<and> task v' = task v \<and> umask v' = umask v \<and> abs_fs v' = abs_fs v"
proof -
  obtain p w where w: "getacl ops ino type v = Some (p, w)" "heap_ok w ({#} + ptrs p)"
    "task w = task v" "umask w = umask v" "abs_fs w = abs_fs v"
    "holds_acl w p (acl_of type (abs_fs v ! ino))"
    by (rule getaclE [OF h ino])
  show ?thesis
  proof (cases p)
    case (Some q)
    with w acl_set_failed_ok [of w q "Inr ()"] show ?thesis
      by (auto simp: generic_acl_get_def holds_acl_def ents_def acl_set_failed_def split: bind_splits)
  qed (use w in \<open>auto simp: generic_acl_get_def holds_acl_def\<close>)
qed

lemma generic_acl_list_ok:
  assumes h: "heap_ok v {#}" and ino: "ino < length (inodes v)"
  shows "\<exists>r v'. generic_acl_list ops ino type lst v = Some (r, v')
    \<and> heap_ok v' {#} \<and> task v' = task v \<and> umask v' = umask v \<and> abs_fs v' = abs_fs v"
proof -
  obtain p w where w: "getacl ops ino type v = Some (p, w)" "heap_ok w ({#} + ptrs p)"
    "task w = task v" "umask w = umask v" "abs_fs w = abs_fs v"
    by (rule getaclE [OF h ino])
  show ?thesis
  proof (cases p)
    case (Some q)
    with w acl_set_failed_ok [of w q "Inr ()"] show ?thesis
      by (auto simp: generic_acl_list_def acl_set_failed_def Let_def split: bind_splits)
  qed (use w in \<open>auto simp: generic_acl_list_def\<close>)
qed

end

section \<open>tmpfs, continued\<close>

lemma shmem_check_acl_ok:
  assumes h: "heap_ok v {#}" and ino: "ino < length (inodes v)"
  shows "\<exists>v'. shmem_check_acl ino want v =
      Some (case i_acl (abs_fs v ! ino) of None \<Rightarrow> Inl EAGAIN
            | Some es \<Rightarrow> posix_acl_permission (task v) (i_uid (abs_fs v ! ino)) (i_gid (abs_fs v ! ino)) es want, v')
    \<and> heap_ok v' {#} \<and> task v' = task v \<and> umask v' = umask v \<and> abs_fs v' = abs_fs v"
proof -
  obtain p w where w: "shmem_get_acl ino ACL_TYPE_ACCESS v = Some (p, w)" "heap_ok w ({#} + ptrs p)"
    "inodes w = inodes v" "keeps {#} v w" "abs_fs w = abs_fs v"
    "holds_acl w p (acl_of ACL_TYPE_ACCESS (abs_fs v ! ino))"
    using shmem_getacl_law [OF h ino, of ACL_TYPE_ACCESS] by auto
  show ?thesis
  proof (cases p)
    case (Some q)
    with w ino acl_set_failed_ok [of w q "Inr ()"] show ?thesis
      by (auto simp: shmem_check_acl_def holds_acl_def ents_def acl_set_failed_def acl_of_def keeps_def
        Let_def split: bind_splits)
  qed (use w in \<open>auto simp: shmem_check_acl_def holds_acl_def acl_of_def keeps_def\<close>)
qed

lemma release_put_inode:
  "map_option (put_inode ino i) (posix_acl_release acl v) = posix_acl_release acl (put_inode ino i v)"
  by (cases acl; cases "acl_at v (the acl)")
    (auto simp: posix_acl_release_def put_inode_def acl_put_def acl_at_def split: if_splits)

lemma drop_acl_ok:
  assumes h: "heap_ok v {#}" and ino: "ino < length (inodes v)"
    and type: "type = ACL_TYPE_ACCESS \<or> type = ACL_TYPE_DEFAULT"
  obtains w where "posix_acl_release (acl_of type (get_inode v ino)) v = Some w"
    "inodes w = inodes v" "heap_ok (put_inode ino (put_acl type None (get_inode v ino)) w) {#}"
    "task w = task v" "umask w = umask v"
    "abs_fs (put_inode ino (put_acl type None (get_inode v ino)) w) =
       (abs_fs v)[ino := put_acl type None (abs_fs v ! ino)]"
proof -
  let ?i = "get_inode v ino"
  define u where "u = put_inode ino (put_acl type None ?i) v"
  have "heap_ok u ({#} + ptrs (acl_of type ?i))"
    unfolding u_def using inode_refs_put_acl [OF type, of None ?i]
    by (intro put_inode_ok [OF h ino]) simp
  then obtain u' where u': "posix_acl_release (acl_of type ?i) u = Some u'" "heap_ok u' {#}"
    "inodes u' = inodes u" "keeps ({#} + refs u) u u'" "abs_fs u' = abs_fs u"
    by (rule release_ok)
  then obtain w where w: "posix_acl_release (acl_of type ?i) v = Some w"
    "u' = put_inode ino (put_acl type None ?i) w"
    using release_put_inode [of ino "put_acl type None ?i" "acl_of type ?i" v] by (auto simp: u_def)
  have "inodes w = inodes v"
    using w(1) by (auto simp: posix_acl_release_def split: option.splits bind_splits)
  with w u' ino show thesis
    by (intro that [of w]) (auto simp: u_def keeps_def abs_put_inode abs_put_acl abs_fs_nth)
qed

lemma shmem_acl_destroy_inode_ok:
  assumes h: "heap_ok v {#}" and ino: "ino < length (inodes v)"
  shows "\<exists>v'. shmem_acl_destroy_inode ino v = Some v'
    \<and> heap_ok v' {#} \<and> task v' = task v \<and> umask v' = umask v
    \<and> abs_fs v' = (abs_fs v)[ino := (abs_fs v ! ino)\<lparr>i_acl := None, i_default_acl := None\<rparr>]"
proof -
  obtain w where w: "posix_acl_release (acl_of ACL_TYPE_ACCESS (get_inode v ino)) v = Some w"
    "inodes w = inodes v" "heap_ok (put_inode ino (put_acl ACL_TYPE_ACCESS None (get_inode v ino)) w) {#}"
    "task w = task v" "umask w = umask v"
    "abs_fs (put_inode ino (put_acl ACL_TYPE_ACCESS None (get_inode v ino)) w) =
       (abs_fs v)[ino := put_acl ACL_TYPE_ACCESS None (abs_fs v ! ino)]"
    by (rule drop_acl_ok [OF h ino disjI1 [OF refl]])
  define x where "x = put_inode ino (put_acl ACL_TYPE_ACCESS None (get_inode v ino)) w"
  have x: "heap_ok x {#}" "ino < length (inodes x)" using w ino by (simp_all add: x_def)
  obtain y where y: "posix_acl_release (acl_of ACL_TYPE_DEFAULT (get_inode x ino)) x = Some y"
    "inodes y = inodes x" "heap_ok (put_inode ino (put_acl ACL_TYPE_DEFAULT None (get_inode x ino)) y) {#}"
    "task y = task x" "umask y = umask x"
    "abs_fs (put_inode ino (put_acl ACL_TYPE_DEFAULT None (get_inode x ino)) y) =
       (abs_fs x)[ino := put_acl ACL_TYPE_DEFAULT None (abs_fs x ! ino)]"
    by (rule drop_acl_ok [OF x disjI2 [OF refl]])
  have "shmem_acl_destroy_inode ino v =
      Some (put_inode ino (put_acl ACL_TYPE_DEFAULT None (get_inode x ino)) y)"
    using w(1,2) y(1,2) by (simp add: shmem_acl_destroy_inode_def acl_of_def put_acl_def Let_def x_def)
  moreover have "abs_fs x = (abs_fs v)[ino := put_acl ACL_TYPE_ACCESS None (abs_fs v ! ino)]"
    using w(6) by (simp add: x_def)
  ultimately show ?thesis
    using y w(4,5) ino by (auto simp: x_def put_acl_def)
qed

end
