(* ===== verification/AclValueOk.thy ===== *)
theory AclValueOk
  imports AclStoreOk
begin

text \<open>
  The invariant of an inode with ACLs, and that the operations on values keep it: an access ACL is
  well-formed, says more than the mode, and its classes are the permission bits of the mode; a
  default ACL is well-formed and belongs to a directory; a symbolic link has no ACL.
\<close>

definition extended :: "posix_acl_entry list \<Rightarrow> bool" where
  "extended es \<longleftrightarrow> (\<exists>uo us go gs m ot. acl_parts es uo us go gs [m] ot)"

definition acl_ok :: "ainode \<Rightarrow> bool" where
  "acl_ok i \<longleftrightarrow>
     (\<forall>es. i_acl i = Some es \<longrightarrow> extended es \<and> posix_acl_equiv_mode es (i_mode i) = Inr (True, i_mode i)
        \<and> \<not> S_ISLNK (i_mode i))
     \<and> (\<forall>es. i_default_acl i = Some es \<longrightarrow> well_formed es \<and> S_ISDIR (i_mode i))"

definition same_type :: "mode_t \<Rightarrow> mode_t \<Rightarrow> bool" where
  "same_type m m' \<longleftrightarrow> m AND S_IFMT = m' AND S_IFMT"

lemma same_typeD: "same_type m m' \<Longrightarrow> S_ISLNK m = S_ISLNK m'" "same_type m m' \<Longrightarrow> S_ISDIR m = S_ISDIR m'"
  by (simp_all add: same_type_def S_ISLNK_def S_ISDIR_def)

lemma same_type_refl [simp]: "same_type m m"
  by (simp add: same_type_def)

lemma bit_S_IFMT [simp]: "bit S_IFMT n \<longleftrightarrow> 12 \<le> n \<and> n < 16"
proof -
  have eq: "S_IFMT = push_bit 12 (mask 4)" by code_simp
  show ?thesis unfolding eq by (auto simp: bit_mask_iff bit_push_bit_iff)
qed

lemma same_typeI: "(\<And>n. 12 \<le> n \<Longrightarrow> n < 16 \<Longrightarrow> bit m n = bit m' n) \<Longrightarrow> same_type m m'"
  unfolding same_type_def by (rule bit_eqI) (auto simp: bit_and_iff)

section \<open>Classes and mode bits\<close>

lemma bit_class_mode:
  assumes "three_bits a" "three_bits b" "three_bits c" "9 \<le> n"
  shows "\<not> bit (class_mode a b c) n"
proof -
  have "\<not> bit a (n - 6)" "\<not> bit b (n - 3)" "\<not> bit c n"
    using assms by (auto simp: three_bits_def)
  then show ?thesis by (auto simp: class_mode_def bit_simps)
qed

lemma three_bits_perm: "perm_ok e \<Longrightarrow> three_bits (e_perm e)"
  by (simp add: perm_ok_iff three_bits_def)

lemma three_bits_AND: "three_bits p \<Longrightarrow> three_bits (p AND q)"
  by (auto simp: three_bits_def bit_and_iff)

lemma mode_with_class:
  assumes "three_bits a" "three_bits b" "three_bits c"
  shows "same_type ((m AND NOT S_IRWXUGO) OR class_mode a b c) m"
    "(((m AND NOT S_IRWXUGO) OR class_mode a b c) AND NOT S_IRWXUGO) = m AND NOT S_IRWXUGO"
proof -
  note cls = bit_class_mode [OF assms]
  show "same_type ((m AND NOT S_IRWXUGO) OR class_mode a b c) m"
  proof (rule same_typeI)
    fix n :: nat
    assume n: "12 \<le> n" "n < 16"
    then have "\<not> bit (class_mode a b c) n" by (intro cls) simp
    with n show "bit ((m AND NOT S_IRWXUGO) OR class_mode a b c) n = bit m n"
      by (simp add: bit_or_iff bit_and_iff bit_not_iff)
  qed
  show "(((m AND NOT S_IRWXUGO) OR class_mode a b c) AND NOT S_IRWXUGO) = m AND NOT S_IRWXUGO"
  proof (rule bit_eqI)
    fix n :: nat
    show "bit (((m AND NOT S_IRWXUGO) OR class_mode a b c) AND NOT S_IRWXUGO) n =
      bit (m AND NOT S_IRWXUGO) n"
      using cls [of n] by (cases "n < 9") (simp_all add: bit_or_iff bit_and_iff bit_not_iff)
  qed
qed

lemma parts_three_bits:
  assumes "acl_parts acl uo us go gs ms ot"
  shows "three_bits (e_perm uo)" "three_bits (group_class go ms)" "three_bits (e_perm ot)"
proof -
  have "perm_ok uo" "perm_ok go" "perm_ok ot" "list_all perm_ok ms"
    using assms by (auto simp: acl_parts_def)
  moreover have "perm_ok (hd (ms @ [go]))" using calculation by (cases ms) auto
  ultimately show "three_bits (e_perm uo)" "three_bits (group_class go ms)" "three_bits (e_perm ot)"
    by (simp_all add: three_bits_perm group_class_def)
qed

lemma equiv_mode_fix:
  assumes "well_formed es" "posix_acl_equiv_mode es m = Inr (ne, m')"
  shows "posix_acl_equiv_mode es m' = Inr (ne, m')" "same_type m' m" "ne \<longleftrightarrow> extended es"
proof -
  obtain uo us go gs ms ot where p: "acl_parts es uo us go gs ms ot"
    using assms(1) by (auto simp: well_formed_def)
  note b = parts_three_bits [OF p]
  from assms(2) have m': "ne = (ms \<noteq> [])"
    "m' = (m AND NOT S_IRWXUGO) OR class_mode (e_perm uo) (group_class go ms) (e_perm ot)"
    by (simp_all add: equiv_mode_parts [OF p])
  then show "posix_acl_equiv_mode es m' = Inr (ne, m')" "same_type m' m"
    using mode_with_class [OF b, of m] by (simp_all add: equiv_mode_parts [OF p])
  show "ne \<longleftrightarrow> extended es"
  proof
    assume ne
    then obtain x where "ms = [x]" using m' p by (auto simp: acl_parts_def)
    with p show "extended es" unfolding extended_def by blast
  next
    assume "extended es"
    then obtain uo us go gs x ot where "acl_parts es uo us go gs [x] ot" by (auto simp: extended_def)
    with assms(2) show ne by (simp add: equiv_mode_parts)
  qed
qed

lemma extended_well_formed: "extended es \<Longrightarrow> well_formed es"
  unfolding extended_def well_formed_def by blast

lemma equiv_mode_well_formed: "well_formed es \<Longrightarrow> \<exists>ne m'. posix_acl_equiv_mode es m = Inr (ne, m')"
  by (auto simp: well_formed_def equiv_mode_parts)

section \<open>Setting an ACL\<close>

lemma set_new_value_ok:
  assumes "acl_ok i" "\<not> S_ISLNK (i_mode i)"
  shows "acl_ok (snd (set_new_value type es i))" "same_type (i_mode (snd (set_new_value type es i))) (i_mode i)"
proof -
  have "acl_ok (snd (set_new_value type es i)) \<and> same_type (i_mode (snd (set_new_value type es i))) (i_mode i)"
  proof (cases "posix_acl_valid es")
    case (Inr u)
    then have wf: "well_formed es" using valid_iff_well_formed [of es] by simp
    obtain ne m where m: "posix_acl_equiv_mode es (i_mode i) = Inr (ne, m)"
      using equiv_mode_well_formed [OF wf] by blast
    note f = equiv_mode_fix [OF wf m]
    show ?thesis
      using assms Inr wf m f same_typeD [OF f(2)]
      by (auto simp: set_new_value_def acl_ok_def put_acl_def)
  qed (use assms in \<open>simp add: set_new_value_def\<close>)
  then show "acl_ok (snd (set_new_value type es i))"
    "same_type (i_mode (snd (set_new_value type es i))) (i_mode i)" by auto
qed

lemma set_value_ok:
  assumes "acl_ok i"
  shows "acl_ok (snd (set_value allowed mem type val i))"
    "same_type (i_mode (snd (set_value allowed mem type val i))) (i_mode i)"
proof -
  have none: "acl_ok (put_acl type None i)" "same_type (i_mode (put_acl type None i)) (i_mode i)"
    using assms by (auto simp: acl_ok_def put_acl_def)
  show "acl_ok (snd (set_value allowed mem type val i))"
    "same_type (i_mode (snd (set_value allowed mem type val i))) (i_mode i)"
    using assms none set_new_value_ok [OF assms]
    by (auto simp: set_value_def split: sum.splits option.splits)
qed

section \<open>Changing the mode\<close>

lemma chmod_value_ok:
  assumes "\<forall>es. i_acl i = Some es \<longrightarrow> extended es"
    "\<forall>es. i_default_acl i = Some es \<longrightarrow> well_formed es \<and> S_ISDIR (i_mode i)"
    "\<not> S_ISLNK (i_mode i)" "fst (chmod_value mem i) \<noteq> Inl ENOMEM"
  shows "acl_ok (snd (chmod_value mem i))" "i_mode (snd (chmod_value mem i)) = i_mode i"
    "fst (chmod_value mem i) = Inr ()"
proof -
  let ?m = "i_mode i"
  have "acl_ok (snd (chmod_value mem i)) \<and> i_mode (snd (chmod_value mem i)) = i_mode i
    \<and> fst (chmod_value mem i) = Inr ()"
  proof (cases "i_acl i")
    case None
    with assms show ?thesis by (simp add: chmod_value_def acl_ok_def)
  next
    case (Some es)
    then obtain uo us go gs m ot where p: "acl_parts es uo us go gs [m] ot"
      using assms(1) by (auto simp: extended_def)
    let ?es = "rebuild uo us go gs [m] ot (mode_owner ?m) (mode_group ?m) (mode_other ?m)"
    have r: "posix_acl_chmod_masq es ?m = (Inr (), ?es)" by (rule chmod_masq_parts [OF p])
    have ext: "extended ?es"
      using parts_rebuild [OF p three_bits_mode, of ?m ?m ?m]
      unfolding extended_def set_group_class_def by simp blast
    have "posix_acl_equiv_mode ?es ?m = Inr (True, ?m)"
      using equiv_mode_rebuild [OF p three_bits_mode, of ?m ?m ?m ?m] by (simp add: class_mode_of_mode)
    moreover have mem using assms(3,4) Some by (cases mem) (auto simp: chmod_value_def)
    ultimately show ?thesis
      using ext r Some assms(2,3) by (auto simp: chmod_value_def acl_ok_def)
  qed
  then show "acl_ok (snd (chmod_value mem i))" "i_mode (snd (chmod_value mem i)) = i_mode i"
    "fst (chmod_value mem i) = Inr ()" by auto
qed

section \<open>Creating a file\<close>

lemma inherit_value_ok:
  assumes wf: "well_formed es" and i: "i_acl i = None"
    "\<forall>es. i_default_acl i = Some es \<longrightarrow> well_formed es \<and> S_ISDIR mode" and "\<not> S_ISLNK mode"
  shows "acl_ok (inherit_value es mode i)" "same_type (i_mode (inherit_value es mode i)) mode"
proof -
  obtain uo us go gs ms ot where p: "acl_parts es uo us go gs ms ot"
    using wf by (auto simp: well_formed_def)
  define a b c where abc: "a = e_perm uo AND drop_bit 6 mode" "b = group_class go ms AND drop_bit 3 mode"
    "c = e_perm ot AND mode"
  have t: "three_bits a" "three_bits b" "three_bits c"
    using parts_three_bits [OF p] by (simp_all add: abc three_bits_AND)
  define m where "m = (mode AND NOT S_IRWXUGO) OR class_mode a b c"
  let ?es = "rebuild uo us go gs ms ot a b c"
  have r: "posix_acl_create_masq es mode = (Inr (ms \<noteq> [], m), ?es)"
    using create_masq_parts [OF p, of mode] by (simp add: abc m_def)
  have m: "same_type m mode" "m AND NOT S_IRWXUGO = mode AND NOT S_IRWXUGO"
    using mode_with_class [OF t, of mode] by (simp_all add: m_def)
  have "posix_acl_equiv_mode ?es m = Inr (ms \<noteq> [], m)"
    using equiv_mode_rebuild [OF p t, of m] m(2) by (simp add: m_def)
  moreover have "extended ?es" if ms: "ms \<noteq> []"
  proof -
    obtain x where "ms = [x]" using ms p by (auto simp: acl_parts_def)
    with parts_rebuild [OF p t] show ?thesis
      unfolding extended_def set_group_class_def by simp blast
  qed
  ultimately show "acl_ok (inherit_value es mode i)" "same_type (i_mode (inherit_value es mode i)) mode"
    using r m same_typeD [OF m(1)] i assms(4) by (auto simp: inherit_value_def acl_ok_def)
qed

definition umask_ok :: "u32 \<Rightarrow> bool" where
  "umask_ok um \<longleftrightarrow> um AND NOT (ucast S_IRWXUGO) = 0"

lemma umask_bits:
  assumes "umask_ok um"
  shows "same_type (m AND NOT (ucast um)) m"
proof (rule same_typeI)
  fix n :: nat
  assume n: "12 \<le> n" "n < 16"
  have "\<not> bit (um AND NOT (ucast S_IRWXUGO)) n"
    using assms by (simp add: umask_ok_def)
  with n have "\<not> bit um n" by (simp add: bit_simps)
  with n show "bit (m AND NOT (ucast um)) n = bit m n" by (simp add: bit_simps)
qed

lemma init_value_ok:
  assumes "umask_ok um" "i_acl i = None" "i_default_acl i = None"
    and dflt: "\<forall>es. dflt = Some es \<longrightarrow> well_formed es"
  shows "acl_ok (snd (init_value mem um dflt i)) \<and>
    same_type (i_mode (snd (init_value mem um dflt i))) (i_mode i)"
proof -
  define i1 where "i1 = i\<lparr>i_mode := i_mode i AND NOT (ucast um)\<rparr>"
  have t: "same_type (i_mode i1) (i_mode i)"
    using umask_bits [OF assms(1)] by (simp add: i1_def)
  note t' = same_typeD [OF t]
  have i1: "acl_ok i1" using assms by (simp add: i1_def acl_ok_def)
  show ?thesis
  proof (cases "S_ISLNK (i_mode i1) \<or> dflt = None")
    case True
    with i1 t show ?thesis
      by (auto simp: init_value_def Let_def simp flip: i1_def)
  next
    case False
    then obtain es where es: "dflt = Some es" "well_formed es" and lnk: "\<not> S_ISLNK (i_mode i)"
      using dflt t' by auto
    define i2 where "i2 = (if S_ISDIR (i_mode i1) then i1\<lparr>i_default_acl := Some es\<rparr> else i1)"
    have i2: "i_acl i2 = None" "\<forall>es. i_default_acl i2 = Some es \<longrightarrow> well_formed es \<and> S_ISDIR (i_mode i)"
      "acl_ok i2" "same_type (i_mode i2) (i_mode i)"
      using assms es t t' by (simp_all add: i2_def i1_def acl_ok_def)
    have "init_value mem um dflt i =
        (if S_ISDIR (i_mode i1) \<and> \<not> mem 0 then (Inl ENOMEM, i1) else if \<not> mem 1 then (Inl ENOMEM, i2)
         else (Inr (), inherit_value es (i_mode i) i2))"
      using False es by (simp add: init_value_def Let_def flip: i1_def i2_def)
    then show ?thesis
      using i1 t i2(3,4) inherit_value_ok [OF es(2) i2(1,2) lnk] by simp
  qed
qed

end
