(* ===== verification/TmpfsOk.thy ===== *)
theory TmpfsOk
  imports Tmpfs AclValueOk
begin

text \<open>
  The calls of \<open>VfsPerm\<close> and \<open>Tmpfs\<close> on the abstract view of the file system: each one returns (no
  ACL is used after it was freed), keeps the reference counts right, and does to the inode what it
  would do if ACLs were values.
\<close>

section \<open>Attributes\<close>

lemma change_ok_abs [simp]:
  "inode_change_ok env (abs_inode E i) attr s = inode_change_ok env i attr s"
  by (simp add: inode_change_ok_def chown_ok_def chgrp_ok_def chmod_ok_def times_ok_def
    is_owner_or_cap_def cong: if_cong)

lemma setattr_abs:
  "setattr_inode env attr (abs_inode E i) s =
     (abs_inode E (fst (setattr_inode env attr i s)), snd (setattr_inode env attr i s))"
  by (auto simp: setattr_inode_def abs_inode_def Let_def split_def)

lemma setattr_refs [simp]: "inode_refs (fst (setattr_inode env attr i s)) = inode_refs i"
  by (auto simp: setattr_inode_def inode_refs_def Let_def split_def)

lemma inode_setattr_ok:
  assumes "heap_ok v {#}" "ino < length (inodes v)"
  shows "heap_ok (inode_setattr env ino attr v) {#}"
    "length (inodes (inode_setattr env ino attr v)) = length (inodes v)"
    "umask (inode_setattr env ino attr v) = umask v"
    "task (inode_setattr env ino attr v) = snd (setattr_inode env attr (abs_fs v ! ino) (task v))"
    "abs_fs (inode_setattr env ino attr v) =
       (abs_fs v)[ino := fst (setattr_inode env attr (abs_fs v ! ino) (task v))]"
proof -
  obtain i s where i: "setattr_inode env attr (get_inode v ino) (task v) = (i, s)" by fastforce
  have r: "inode_refs i = inode_refs (get_inode v ino)"
    using setattr_refs [of env attr "get_inode v ino" "task v"] i by simp
  show "heap_ok (inode_setattr env ino attr v) {#}"
    using put_inode_ok [of "v\<lparr>task := s\<rparr>" "{#}" ino "{#}" i] assms i r by (simp add: inode_setattr_def)
  show "task (inode_setattr env ino attr v) = snd (setattr_inode env attr (abs_fs v ! ino) (task v))"
    "abs_fs (inode_setattr env ino attr v) =
       (abs_fs v)[ino := fst (setattr_inode env attr (abs_fs v ! ino) (task v))]"
    using i assms(2) by (simp_all add: inode_setattr_def abs_put_inode abs_fs_nth setattr_abs)
qed (simp_all add: inode_setattr_def split_def Let_def)

text \<open>\<open>shmem_notify_change\<close> and \<open>notify_change\<close> on an inode with its ACLs as values.\<close>

definition shmem_change_value ::
  "kenv \<Rightarrow> bool \<Rightarrow> iattr \<Rightarrow> ainode \<Rightarrow> kstate \<Rightarrow> unit kres \<times> ainode" where
  "shmem_change_value env mem attr i s =
     (let (error, attr, s) = inode_change_ok env i attr s
      in if \<not> is_ok error then (error, i)
         else let (i, s) = setattr_inode env attr i s
              in if has_attr attr ATTR_MODE then chmod_value mem i else (Inr (), i))"

definition change_value ::
  "kenv \<Rightarrow> bool \<Rightarrow> iattr \<Rightarrow> ainode \<Rightarrow> kstate \<Rightarrow> unit kres \<times> ainode" where
  "change_value env mem attr i s =
     (if has_attr attr (ATTR_MODE OR ATTR_UID OR ATTR_GID OR ATTR_TIMES_SET) \<and>
         (IS_IMMUTABLE i \<or> IS_APPEND i) then (Inl EPERM, i)
      else
       let attr = attr_kill (i_mode i) (attr\<lparr>ia_valid := ia_valid attr AND NOT ATTR_KILL_PRIV\<rparr>)
       in if \<not> has_attr attr (NOT (ATTR_KILL_SUID OR ATTR_KILL_SGID)) then (Inr (), i)
          else if \<not> S_ISLNK (i_mode i) then shmem_change_value env mem attr i s
          else let (error, attr, s) = inode_change_ok env i attr s
               in (error, if is_ok error then fst (setattr_inode env attr i s) else i))"

text \<open>A request that does not run into the \<open>BUG()\<close> of \<open>notify_change\<close>.\<close>

definition attr_ok :: "iattr \<Rightarrow> bool" where
  "attr_ok attr \<longleftrightarrow> \<not> (has_attr attr (ATTR_KILL_SUID OR ATTR_KILL_SGID) \<and> has_attr attr ATTR_MODE)"

lemma shmem_notify_change_ok:
  fixes env mem attr
  assumes h: "heap_ok v {#}" and ino: "ino < length (inodes v)"
  defines "res \<equiv> shmem_change_value env mem attr (abs_fs v ! ino) (task v)"
  shows "\<exists>v'. shmem_notify_change env mem ino attr v = Some (fst res, v')
    \<and> heap_ok v' {#} \<and> umask v' = umask v \<and> abs_fs v' = (abs_fs v)[ino := snd res]"
proof -
  obtain error attr' s where ok: "inode_change_ok env (get_inode v ino) attr (task v) = (error, attr', s)"
    by (metis prod_cases3)
  define w where "w = v\<lparr>task := s\<rparr>"
  have w: "heap_ok w {#}" "ino < length (inodes w)" "abs_fs w = abs_fs v" "umask w = umask v" "task w = s"
    using h ino by (simp_all add: w_def)
  have ok': "inode_change_ok env (abs_fs v ! ino) attr (task v) = (error, attr', s)"
    using ok ino by (simp add: abs_fs_nth)
  define x where "x = inode_setattr env ino attr' w"
  note x = inode_setattr_ok [OF w(1,2), of env attr', folded x_def]
  have ino': "ino < length (inodes x)" using x(2) w(2) by simp
  have nth: "abs_fs x ! ino = fst (setattr_inode env attr' (abs_fs v ! ino) s)"
    using x(5) w ino by simp
  show ?thesis
    using ok ok' w x nth shmem.generic_acl_chmod_ok [OF x(1) ino', of mem] ino
    by (auto simp: shmem_notify_change_def res_def shmem_change_value_def split_def Let_def
      simp flip: w_def x_def)
qed

lemma no_killpriv [simp]: "cap_inode_need_killpriv env (Some (Inl e)) = 0"
  by (simp add: cap_inode_need_killpriv_def)

lemma attr_kill_priv_bits:
  "has_attr (attr\<lparr>ia_valid := ia_valid attr AND NOT ATTR_KILL_PRIV\<rparr>) (ATTR_KILL_SUID OR ATTR_KILL_SGID)
     = has_attr attr (ATTR_KILL_SUID OR ATTR_KILL_SGID)"
  "has_attr (attr\<lparr>ia_valid := ia_valid attr AND NOT ATTR_KILL_PRIV\<rparr>) ATTR_MODE = has_attr attr ATTR_MODE"
proof -
  have 1: "NOT ATTR_KILL_PRIV AND (ATTR_KILL_SUID OR ATTR_KILL_SGID) = ATTR_KILL_SUID OR ATTR_KILL_SGID"
    "NOT ATTR_KILL_PRIV AND ATTR_MODE = ATTR_MODE"
    by code_simp+
  show "has_attr (attr\<lparr>ia_valid := ia_valid attr AND NOT ATTR_KILL_PRIV\<rparr>) (ATTR_KILL_SUID OR ATTR_KILL_SGID)
     = has_attr attr (ATTR_KILL_SUID OR ATTR_KILL_SGID)"
    "has_attr (attr\<lparr>ia_valid := ia_valid attr AND NOT ATTR_KILL_PRIV\<rparr>) ATTR_MODE = has_attr attr ATTR_MODE"
    by (simp_all add: and.assoc 1)
qed

lemma notify_change_ok:
  fixes env mem attr
  assumes h: "heap_ok v {#}" and ino: "ino < length (inodes v)" and attr: "attr_ok attr"
  defines "res \<equiv> change_value env mem attr (abs_fs v ! ino) (task v)"
  shows "\<exists>v'. notify_change env mem ino attr v = Some (fst res, v')
    \<and> heap_ok v' {#} \<and> umask v' = umask v \<and> abs_fs v' = (abs_fs v)[ino := snd res]"
proof -
  define a where "a = attr\<lparr>ia_valid := ia_valid attr AND NOT ATTR_KILL_PRIV\<rparr>"
  define b where "b = attr_kill (i_mode (get_inode v ino)) a"
  have bug: "\<not> (has_attr a (ATTR_KILL_SUID OR ATTR_KILL_SGID) \<and> has_attr a ATTR_MODE)"
    using attr unfolding a_def attr_kill_priv_bits attr_ok_def .
  obtain error attr' s where ok: "inode_change_ok env (get_inode v ino) b (task v) = (error, attr', s)"
    by (metis prod_cases3)
  have ok': "inode_change_ok env (abs_fs v ! ino) b (task v) = (error, attr', s)"
    using ok ino by (simp add: abs_fs_nth)
  define w where "w = v\<lparr>task := s\<rparr>"
  have w: "heap_ok w {#}" "ino < length (inodes w)" "abs_fs w = abs_fs v" "umask w = umask v" "task w = s"
    using h ino by (simp_all add: w_def)
  have eq: "notify_change env mem ino attr v =
     (if has_attr attr (ATTR_MODE OR ATTR_UID OR ATTR_GID OR ATTR_TIMES_SET) \<and>
         (IS_IMMUTABLE (get_inode v ino) \<or> IS_APPEND (get_inode v ino)) then Some (Inl EPERM, v)
      else if \<not> has_attr b (NOT (ATTR_KILL_SUID OR ATTR_KILL_SGID)) then Some (Inr (), v)
      else if \<not> S_ISLNK (i_mode (get_inode v ino)) then shmem_notify_change env mem ino b v
      else Some (error, if is_ok error then inode_setattr env ino attr' w else w))"
    using bug ok by (auto simp: notify_change_def Let_def simp flip: a_def b_def w_def)
  have res: "res =
     (if has_attr attr (ATTR_MODE OR ATTR_UID OR ATTR_GID OR ATTR_TIMES_SET) \<and>
         (IS_IMMUTABLE (get_inode v ino) \<or> IS_APPEND (get_inode v ino)) then (Inl EPERM, abs_fs v ! ino)
      else if \<not> has_attr b (NOT (ATTR_KILL_SUID OR ATTR_KILL_SGID)) then (Inr (), abs_fs v ! ino)
      else if \<not> S_ISLNK (i_mode (get_inode v ino))
      then shmem_change_value env mem b (abs_fs v ! ino) (task v)
      else (error, if is_ok error then fst (setattr_inode env attr' (abs_fs v ! ino) s) else abs_fs v ! ino))"
    using ino ok' by (simp add: res_def change_value_def Let_def IS_IMMUTABLE_def IS_APPEND_def
      flip: a_def b_def)
  show ?thesis
    using shmem_notify_change_ok [OF h ino, of env mem b] inode_setattr_ok [OF w(1,2), of env attr'] w h ino
    unfolding eq res by simp
qed

subsection \<open>The invariant\<close>

lemma same_type_clear [simp]:
  "same_type (m AND NOT S_ISUID) m' = same_type m m'" "same_type (m AND NOT S_ISGID) m' = same_type m m'"
proof -
  have "(m AND NOT S_ISUID) AND S_IFMT = m AND (NOT S_ISUID AND S_IFMT)"
    "(m AND NOT S_ISGID) AND S_IFMT = m AND (NOT S_ISGID AND S_IFMT)"
    by (simp_all only: and.assoc)
  moreover have "NOT S_ISUID AND S_IFMT = S_IFMT" "NOT S_ISGID AND S_IFMT = S_IFMT"
    by code_simp+
  ultimately show "same_type (m AND NOT S_ISUID) m' = same_type m m'"
    "same_type (m AND NOT S_ISGID) m' = same_type m m'"
    by (simp_all add: same_type_def)
qed

definition keeps_type :: "iattr \<Rightarrow> mode_t \<Rightarrow> bool" where
  "keeps_type attr m \<longleftrightarrow> (has_attr attr ATTR_MODE \<longrightarrow> same_type (ia_mode attr) m)"

lemma attr_kill_keeps_type: "keeps_type attr m \<Longrightarrow> keeps_type (attr_kill m attr) m"
  by (auto simp: keeps_type_def attr_kill_def Let_def)

definition attr_le :: "iattr \<Rightarrow> iattr \<Rightarrow> bool" where
  "attr_le a b \<longleftrightarrow> ia_valid a = ia_valid b \<and> ia_uid a = ia_uid b \<and> ia_gid a = ia_gid b
     \<and> (ia_mode a = ia_mode b \<or> ia_mode a = ia_mode b AND NOT S_ISGID)"

lemma chmod_ok_attr: "attr_le (fst (snd (chmod_ok env i attr s))) attr"
  by (simp add: chmod_ok_def attr_le_def Let_def split_def)

lemma change_ok_attr: "attr_le (fst (snd (inode_change_ok env i attr s))) attr"
proof -
  have "fst (snd (inode_change_ok env i attr s)) = attr
     \<or> (\<exists>s'. fst (snd (inode_change_ok env i attr s)) = fst (snd (chmod_ok env i attr s')))"
    unfolding inode_change_ok_def Let_def split_def by (simp add: if_distrib [of snd] if_distrib [of fst]) blast
  moreover have "attr_le attr attr" by (simp add: attr_le_def)
  ultimately show ?thesis
    using chmod_ok_attr [of env i attr] by metis
qed

lemma change_ok_keeps_type:
  assumes "inode_change_ok env i attr s = (e, attr', s')" "keeps_type attr m"
  shows "keeps_type attr' m"
  using change_ok_attr [of env i attr s] assms by (auto simp: keeps_type_def attr_le_def)

lemma setattr_value:
  assumes "keeps_type attr (i_mode i)"
  shows "i_acl (fst (setattr_inode env attr i s)) = i_acl i"
    "i_default_acl (fst (setattr_inode env attr i s)) = i_default_acl i"
    "same_type (i_mode (fst (setattr_inode env attr i s))) (i_mode i)"
    "\<not> has_attr attr ATTR_MODE \<Longrightarrow> i_mode (fst (setattr_inode env attr i s)) = i_mode i"
  using assms by (auto simp: setattr_inode_def keeps_type_def Let_def split_def)

lemma setattr_acl_ok:
  assumes "acl_ok i" "keeps_type attr (i_mode i)" "\<not> has_attr attr ATTR_MODE \<or> i_acl i = None"
  shows "acl_ok (fst (setattr_inode env attr i s))"
  using assms(1,3) setattr_value [OF assms(2), of env s]
    same_typeD [OF setattr_value(3) [OF assms(2), of env s]]
  by (auto simp: acl_ok_def)

lemma shmem_change_value_ok:
  assumes i: "acl_ok i" "\<not> S_ISLNK (i_mode i)" and t: "keeps_type attr (i_mode i)"
    and r: "fst (shmem_change_value env mem attr i s) \<noteq> Inl ENOMEM"
  shows "acl_ok (snd (shmem_change_value env mem attr i s))
    \<and> same_type (i_mode (snd (shmem_change_value env mem attr i s))) (i_mode i)"
proof -
  obtain e attr' s' where c: "inode_change_ok env i attr s = (e, attr', s')" by (metis prod_cases3)
  note t' = change_ok_keeps_type [OF c t]
  define j where "j = fst (setattr_inode env attr' i s')"
  note sv = setattr_value [OF t', of env s', folded j_def]
  have eq: "shmem_change_value env mem attr i s =
      (if \<not> is_ok e then (e, i)
       else if has_attr attr' ATTR_MODE then chmod_value mem j else (Inr (), j))"
    using c by (simp add: shmem_change_value_def j_def split_def)
  show ?thesis
  proof (cases "is_ok e \<and> has_attr attr' ATTR_MODE")
    case True
    have "acl_ok (snd (chmod_value mem j)) \<and> i_mode (snd (chmod_value mem j)) = i_mode j"
      using i True r eq sv same_typeD [OF sv(3)]
      by (intro conjI chmod_value_ok) (auto simp: acl_ok_def)
    with True eq sv show ?thesis by simp
  next
    case False
    with eq i sv setattr_acl_ok [OF i(1) t', of env s', folded j_def] show ?thesis by auto
  qed
qed

lemma change_value_ok:
  assumes i: "acl_ok i" and t: "keeps_type attr (i_mode i)"
    and r: "fst (change_value env mem attr i s) \<noteq> Inl ENOMEM"
  shows "acl_ok (snd (change_value env mem attr i s))
    \<and> same_type (i_mode (snd (change_value env mem attr i s))) (i_mode i)"
proof -
  define b where "b = attr_kill (i_mode i) (attr\<lparr>ia_valid := ia_valid attr AND NOT ATTR_KILL_PRIV\<rparr>)"
  have t': "keeps_type b (i_mode i)"
    unfolding b_def using t attr_kill_priv_bits(2) [of attr]
    by (intro attr_kill_keeps_type) (simp add: keeps_type_def)
  obtain e attr' s' where c: "inode_change_ok env i b s = (e, attr', s')" by (metis prod_cases3)
  note t'' = change_ok_keeps_type [OF c t']
  show ?thesis
  proof (cases "S_ISLNK (i_mode i)")
    case True
    then have none: "i_acl i = None" using i by (auto simp: acl_ok_def)
    show ?thesis
      using c setattr_acl_ok [OF i t''] none setattr_value(3) [OF t''] i True
      by (simp add: change_value_def Let_def flip: b_def)
  next
    case False
    then show ?thesis
      using shmem_change_value_ok [OF i False t', of env mem s] i r
      by (auto simp: change_value_def Let_def simp flip: b_def split: if_splits)
  qed
qed

section \<open>Permission\<close>

definition has_cap :: "kstate \<Rightarrow> nat \<Rightarrow> bool" where
  "has_cap s c \<longleftrightarrow> cap_raised (cap_effective (current_cred s)) c"

text \<open>The two capabilities that override a refusal.\<close>

definition dac_override :: "kstate \<Rightarrow> 'p inode \<Rightarrow> u32 \<Rightarrow> bool" where
  "dac_override s i want \<longleftrightarrow>
     (want AND MAY_EXEC = 0 \<or> execute_ok i) \<and> has_cap s CAP_DAC_OVERRIDE
     \<or> (want = MAY_READ \<or> S_ISDIR (i_mode i) \<and> want AND MAY_WRITE = 0) \<and> has_cap s CAP_DAC_READ_SEARCH"

definition marked :: "kstate \<Rightarrow> kstate \<Rightarrow> bool" where
  "marked s s' \<longleftrightarrow> s' = s \<or> s' = s\<lparr>superpriv := True\<rparr>"

lemma capable_dac:
  assumes "c \<noteq> CAP_NET_RAW" "c \<noteq> CAP_NET_ADMIN"
  shows "capable env c s = (has_cap s c, if has_cap s c then s\<lparr>superpriv := True\<rparr> else s)"
  using assms by (simp add: capable_def cap_capable_def has_cap_def)

lemma dac_caps [simp]: "CAP_DAC_OVERRIDE \<noteq> CAP_NET_RAW" "CAP_DAC_OVERRIDE \<noteq> CAP_NET_ADMIN"
  "CAP_DAC_READ_SEARCH \<noteq> CAP_NET_RAW" "CAP_DAC_READ_SEARCH \<noteq> CAP_NET_ADMIN"
  by (simp_all add: CAP_DAC_OVERRIDE_def CAP_DAC_READ_SEARCH_def CAP_NET_RAW_def CAP_NET_ADMIN_def)

lemma check_capabilities_eq:
  "fst (check_capabilities env i want s) = verdict (dac_override s i want)"
  "marked s (snd (check_capabilities env i want s))"
  by (cases "has_cap s CAP_DAC_OVERRIDE"; cases "has_cap s CAP_DAC_READ_SEARCH";
      simp add: check_capabilities_def capable_dac dac_override_def verdict_def marked_def)+

lemma check_mode_eq:
  "fst (check_mode env i mode want s) = verdict (grants mode want \<or> dac_override s i want)"
  "marked s (snd (check_mode env i mode want s))"
proof -
  have "want AND NOT (ucast mode) = 0 \<longleftrightarrow> grants mode want"
    by (auto simp: grants_def bit_eq_iff bit_simps)
  then show "fst (check_mode env i mode want s) = verdict (grants mode want \<or> dac_override s i want)"
    "marked s (snd (check_mode env i mode want s))"
    using check_capabilities_eq(1) [of env i want s] check_capabilities_eq(2) [of s env i want]
    by (auto simp: check_mode_def verdict_def marked_def)
qed

text \<open>The outcome of a call that only reads the file system.\<close>

definition reads :: "vfs \<Rightarrow> 'a \<Rightarrow> ('a \<times> vfs) option \<Rightarrow> bool" where
  "reads v r out \<longleftrightarrow> (\<exists>v'. out = Some (r, v') \<and> heap_ok v' {#} \<and> umask v' = umask v
     \<and> abs_fs v' = abs_fs v \<and> marked (task v) (task v'))"

lemma reads_with_task:
  assumes "heap_ok v {#}" "fst (f (task v)) = r" "marked (task v) (snd (f (task v)))"
  shows "reads v r (Some (with_task v f))"
  using assms by (simp add: reads_def with_task_def split_def)

lemma reads_check_mode:
  "heap_ok v {#} \<Longrightarrow> reads v (verdict (grants mode w \<or> dac_override (task v) i w))
     (Some (with_task v (check_mode env i mode w)))"
  by (rule reads_with_task) (simp_all add: check_mode_eq)

lemma reads_check_capabilities:
  "heap_ok v {#} \<Longrightarrow> reads v (verdict (dac_override (task v) i w))
     (Some (with_task v (check_capabilities env i w)))"
  by (rule reads_with_task) (simp_all add: check_capabilities_eq)

text \<open>The decision of \<open>generic_permission\<close> on a tmpfs; \<open>e\<close> is the answer of \<open>shmem_check_acl\<close>.\<close>

definition mode_decision :: "kstate \<Rightarrow> ainode \<Rightarrow> u32 \<Rightarrow> unit kres" where
  "mode_decision s i w = verdict (grants (if in_group_p s (i_gid i) then drop_bit 3 (i_mode i) else i_mode i) w
     \<or> dac_override s i w)"

definition acl_answer :: "kstate \<Rightarrow> ainode \<Rightarrow> u32 \<Rightarrow> unit kres" where
  "acl_answer s i w = (case i_acl i of None \<Rightarrow> Inl EAGAIN
     | Some es \<Rightarrow> posix_acl_permission s (i_uid i) (i_gid i) es w)"

definition perm_decision :: "kstate \<Rightarrow> ainode \<Rightarrow> u32 \<Rightarrow> unit kres" where
  "perm_decision s i w =
     (if fsuid (current_cred s) = i_uid i
      then verdict (grants (drop_bit 6 (i_mode i)) w \<or> dac_override s i w)
      else if IS_POSIXACL i \<and> i_mode i AND S_IRWXG \<noteq> 0 \<and> acl_answer s i w = Inl EACCES
      then verdict (dac_override s i w)
      else if IS_POSIXACL i \<and> i_mode i AND S_IRWXG \<noteq> 0 \<and> acl_answer s i w \<noteq> Inl EAGAIN
      then acl_answer s i w
      else mode_decision s i w)"

lemma override_abs [simp]: "dac_override s (abs_inode E i) want = dac_override s i want"
  by (simp add: dac_override_def execute_ok_def)

lemma flags_abs [simp]:
  "IS_POSIXACL (abs_inode E i) = IS_POSIXACL i" "IS_RDONLY (abs_inode E i) = IS_RDONLY i"
  "IS_IMMUTABLE (abs_inode E i) = IS_IMMUTABLE i" "IS_APPEND (abs_inode E i) = IS_APPEND i"
  by (simp_all add: IS_POSIXACL_def IS_RDONLY_def IS_IMMUTABLE_def IS_APPEND_def)

lemma shmem_permission_reads:
  assumes h: "heap_ok v {#}" and ino: "ino < length (inodes v)"
  shows "reads v (perm_decision (task v) (abs_fs v ! ino) (want AND (MAY_READ OR MAY_WRITE OR MAY_EXEC)))
    (shmem_permission env ino want v)"
proof -
  define w where "w = want AND (MAY_READ OR MAY_WRITE OR MAY_EXEC)"
  define i where "i = get_inode v ino"
  obtain u where u: "shmem_check_acl ino w v = Some (acl_answer (task v) (abs_fs v ! ino) w, u)"
    "heap_ok u {#}" "task u = task v" "umask u = umask v" "abs_fs u = abs_fs v"
    using shmem_check_acl_ok [OF h ino, of w] by (auto simp: acl_answer_def)
  have ru: "reads v r out" if "reads u r out" for r :: "unit kres" and out
    using that u by (simp add: reads_def)
  have abs: "abs_fs v ! ino = abs_inode (ents v) i"
    using ino by (simp add: abs_fs_nth i_def)
  let ?e = "acl_answer (task v) (abs_fs v ! ino) w"
  let ?m = "if in_group_p (task v) (i_gid i) then drop_bit 3 (i_mode i) else i_mode i"
  have "shmem_permission env ino want v =
     (if fsuid (current_cred (task v)) = i_uid i
      then Some (with_task v (check_mode env i (drop_bit 6 (i_mode i)) w))
      else if IS_POSIXACL i \<and> i_mode i AND S_IRWXG \<noteq> 0
      then if ?e = Inl EACCES then Some (with_task u (check_capabilities env i w))
           else if ?e \<noteq> Inl EAGAIN then Some (?e, u)
           else Some (with_task u (check_mode env i ?m w))
      else Some (with_task v (check_mode env i ?m w)))"
    using u(1,3) by (simp add: shmem_permission_def generic_permission_def Let_def i_def w_def)
  moreover have "reads v ?e (Some (?e, u))"
    using u by (simp add: reads_def marked_def)
  ultimately show ?thesis
    using reads_check_mode [OF h] ru [OF reads_check_mode [OF u(2)]] ru [OF reads_check_capabilities [OF u(2)]]
    by (auto simp: perm_decision_def mode_decision_def abs u(3) simp flip: w_def)
qed

text \<open>
  The ACL that decides: the access ACL of the inode, unless the group bits of the mode, which are
  its mask, are all clear; else the ACL that the mode stands for.
\<close>

definition effective_acl :: "ainode \<Rightarrow> posix_acl_entry list" where
  "effective_acl i = (case i_acl i of
     Some es \<Rightarrow> if IS_POSIXACL i \<and> i_mode i AND S_IRWXG \<noteq> 0 then es else posix_acl_from_mode (i_mode i)
   | None \<Rightarrow> posix_acl_from_mode (i_mode i))"

definition rwx_only :: "u32 \<Rightarrow> bool" where
  "rwx_only w \<longleftrightarrow> (\<forall>n. bit w n \<longrightarrow> n < 3)"

lemma rwx_only_AND: "rwx_only (want AND (MAY_READ OR MAY_WRITE OR MAY_EXEC))"
proof -
  have 7: "MAY_READ OR MAY_WRITE OR MAY_EXEC = mask 3" by code_simp
  show ?thesis unfolding 7 by (simp add: rwx_only_def bit_simps)
qed

lemma grants_cong: "rwx_only w \<Longrightarrow> (\<And>n. n < 3 \<Longrightarrow> bit p n = bit q n) \<Longrightarrow> grants p w = grants q w"
  by (auto simp: grants_iff_bits rwx_only_def)

lemma grants_class:
  assumes "rwx_only w"
  shows "grants (drop_bit 6 (m AND S_IRWXU)) w = grants (drop_bit 6 m) w"
    "grants (drop_bit 3 (m AND S_IRWXG)) w = grants (drop_bit 3 m) w"
    "grants (m AND S_IRWXO) w = grants m w"
  by (rule grants_cong [OF assms]; simp add: bit_simps)+

lemma access_from_mode:
  assumes "rwx_only w"
  shows "acl_access s iuid igid (posix_acl_from_mode m) w =
     grants (if iuid = fsuid (current_cred s) then drop_bit 6 m
             else if in_group_p s igid then drop_bit 3 m else m) w"
  using grants_class [OF assms, of m]
  by (simp add: acl_access_def posix_acl_from_mode_def named_user_def group_applies_def
    mask_grants_def del: grants_AND drop_bit_and)

lemma access_owner:
  assumes "acl_ok i" "i_acl i = Some es" "rwx_only w"
  shows "acl_access s (fsuid (current_cred s)) igid es w = grants (drop_bit 6 (i_mode i)) w"
proof -
  let ?m = "i_mode i"
  obtain uo us go gs m ot where p: "acl_parts es uo us go gs [m] ot"
    and e: "posix_acl_equiv_mode es ?m = Inr (True, ?m)"
    using assms(1,2) by (auto simp: acl_ok_def extended_def)
  have tags: "e_tag uo = ACL_USER_OBJ" "\<forall>x\<in>set us. e_tag x = ACL_USER" "\<forall>x\<in>set gs. e_tag x = ACL_GROUP"
    "e_tag go = ACL_GROUP_OBJ" "e_tag m = ACL_MASK" "e_tag ot = ACL_OTHER" "es = uo # us @ go # gs @ [m] @ [ot]"
    using p by (auto simp: acl_parts_def dest: named_ok_tags)
  then have "acl_access s (fsuid (current_cred s)) igid es w = grants (e_perm uo) w"
    by (auto simp: acl_access_def list_ex_iff)
  also have "\<dots> = grants (drop_bit 6 ?m) w"
  proof (rule grants_cong [OF assms(3)])
    fix n :: nat
    assume n: "n < 3"
    have "?m = (?m AND NOT S_IRWXUGO) OR class_mode (e_perm uo) (group_class go [m]) (e_perm ot)"
      using e by (simp add: equiv_mode_parts [OF p])
    then have "bit ?m (6 + n) = bit ((?m AND NOT S_IRWXUGO) OR
        class_mode (e_perm uo) (group_class go [m]) (e_perm ot)) (6 + n)" by (rule arg_cong)
    then show "bit (e_perm uo) n = bit (drop_bit 6 ?m) n"
      using n parts_three_bits [OF p] by (auto simp: class_mode_def bit_simps three_bits_def)
  qed
  finally show ?thesis .
qed

lemma perm_decision_eq:
  assumes ok: "acl_ok i" and w: "rwx_only w"
  shows "perm_decision s i w =
    verdict (acl_access s (i_uid i) (i_gid i) (effective_acl i) w \<or> dac_override s i w)"
proof (cases "\<exists>es. i_acl i = Some es \<and> IS_POSIXACL i \<and> i_mode i AND S_IRWXG \<noteq> 0")
  case True
  then obtain es where es: "i_acl i = Some es" "IS_POSIXACL i" "i_mode i AND S_IRWXG \<noteq> 0" by blast
  have "well_formed es" using ok es extended_well_formed by (auto simp: acl_ok_def)
  then have "acl_answer s i w = verdict (acl_access s (i_uid i) (i_gid i) es w)"
    using es by (simp add: acl_answer_def permission_is_acl_access)
  then show ?thesis
    using es access_owner [OF ok es(1) w, of s "i_gid i"]
    by (auto simp: perm_decision_def effective_acl_def verdict_def)
next
  case False
  then have "effective_acl i = posix_acl_from_mode (i_mode i)"
    by (auto simp: effective_acl_def split: option.splits)
  moreover have "acl_answer s i w = Inl EAGAIN \<or> \<not> (IS_POSIXACL i \<and> i_mode i AND S_IRWXG \<noteq> 0)"
    using False by (auto simp: acl_answer_def split: option.splits)
  ultimately show ?thesis
    using access_from_mode [OF w, of s "i_uid i" "i_gid i" "i_mode i"]
    by (auto simp: perm_decision_def mode_decision_def)
qed

lemma generic_permission_none_reads:
  assumes "heap_ok v {#}"
  shows "\<exists>r. reads v r (generic_permission env None ino want v)"
  using reads_check_mode [OF assms] unfolding generic_permission_def Let_def
  by simp blast

lemma tmpfs_permission_reads:
  assumes "heap_ok v {#}" "ino < length (inodes v)"
  shows "\<exists>r. reads v r (tmpfs_permission env ino want v)"
proof -
  have "reads v r (Some (r, v))" for r :: "unit kres"
    using assms by (simp add: reads_def marked_def)
  then show ?thesis
    using shmem_permission_reads [OF assms, of want env] generic_permission_none_reads [OF assms(1), of env ino want]
    unfolding tmpfs_permission_def inode_permission_def shmem_permission_op_def Let_def
    by auto
qed

end
