(* ===== verification/TmpfsXattrOk.thy ===== *)
theory TmpfsXattrOk
  imports TmpfsOk
begin

text \<open>
  The calls of \<open>Tmpfs\<close> on the abstract view of the file system: extended attributes, and the
  creation and destruction of inodes.
\<close>

section \<open>Extended attributes\<close>

lemma marked_trans: "marked s s' \<Longrightarrow> marked s' s'' \<Longrightarrow> marked s s''"
  by (auto simp: marked_def)

lemma marked_capable: "marked s (snd (capable env c s))"
  by (simp add: capable_def marked_def split: sum.splits)

lemma marked_or_capable: "marked s (snd (or_capable env b c s))"
  using marked_capable [of s env c] by (simp add: or_capable_def marked_def)

text \<open>The outcome \<open>out\<close> is that of a call that at most marks the task; the call goes on from \<open>v'\<close>.\<close>

definition touched :: "vfs \<Rightarrow> vfs \<Rightarrow> bool" where
  "touched v v' \<longleftrightarrow> heap_ok v' {#} \<and> umask v' = umask v \<and> abs_fs v' = abs_fs v \<and> marked (task v) (task v')"

lemma reads_iff: "reads v r out \<longleftrightarrow> (\<exists>v'. out = Some (r, v') \<and> touched v v')"
  by (simp add: reads_def touched_def)

lemma touched_refl: "heap_ok v {#} \<Longrightarrow> touched v v"
  by (simp add: touched_def marked_def)

lemma touched_trans: "touched v v' \<Longrightarrow> touched v' v'' \<Longrightarrow> touched v v''"
  by (auto simp: touched_def intro: marked_trans)

lemma touched_length: "touched v v' \<Longrightarrow> length (inodes v') = length (inodes v)"
  using length_abs_fs unfolding touched_def by metis

lemma touched_with_task:
  "heap_ok v {#} \<Longrightarrow> marked (task v) (snd (f (task v))) \<Longrightarrow> touched v (snd (with_task v f))"
  by (simp add: touched_def with_task_def split_def Let_def)

lemma xattr_permission_reads:
  assumes h: "heap_ok v {#}" and ino: "ino < length (inodes v)"
  shows "\<exists>r v'. xattr_permission env ino name want v = Some (r, v') \<and> touched v v'"
proof -
  have perm: "\<exists>r v'. tmpfs_permission env ino want u = Some (r, v') \<and> touched v v'" if u: "touched v u" for u
  proof -
    have "heap_ok u {#}" "ino < length (inodes u)"
      using u ino touched_length [OF u] by (auto simp: touched_def)
    from tmpfs_permission_reads [OF this, of env want] show ?thesis
      using touched_trans [OF u] by (auto simp: reads_iff)
  qed
  have cap: "touched v (snd (with_task v (capable env CAP_SYS_ADMIN)))"
    "touched v (snd (with_task v (is_owner_or_cap env (get_inode v ino))))"
    by (rule touched_with_task [OF h], simp add: is_owner_or_cap_def marked_capable marked_or_capable)+
  show ?thesis
    using touched_refl [OF h] perm [OF touched_refl [OF h]] perm [OF cap(2)] cap
    unfolding xattr_permission_def Let_def split_def by (simp split: if_split)
qed

definition sets_acl :: "vfs \<Rightarrow> nat \<Rightarrow> (unit kres \<times> vfs) option \<Rightarrow> bool" where
  "sets_acl v ino out \<longleftrightarrow> (\<exists>r v' i. out = Some (r, v') \<and> heap_ok v' {#} \<and> umask v' = umask v
     \<and> abs_fs v' = (abs_fs v)[ino := i]
     \<and> (i = abs_fs v ! ino
        \<or> (\<exists>allowed mem type val. i = snd (set_value allowed mem type val (abs_fs v ! ino)))))"

lemma sets_acl_touched: "touched v u \<Longrightarrow> sets_acl u ino out \<Longrightarrow> sets_acl v ino out"
  by (simp add: sets_acl_def touched_def)

lemma sets_acl_none: "touched v u \<Longrightarrow> sets_acl v ino (Some (r, u))"
  by (auto simp: sets_acl_def touched_def intro: exI [of _ "abs_fs v ! ino"])

lemma sets_acl_generic:
  assumes "heap_ok v {#}" "ino < length (inodes v)"
  shows "sets_acl v ino (generic_acl_set env shmem_acl_ops mem ino type val v)"
  using shmem.generic_acl_set_ok [OF assms, of env mem type val] unfolding sets_acl_def by blast

lemma xattr_set_sets_acl:
  assumes h: "heap_ok v {#}" and ino: "ino < length (inodes v)" and r: "xattr_resolve_name shmem_xattr_handlers name = Some (x, n)"
  shows "sets_acl v ino (xh_set x env mem ino n val v)"
proof -
  have "xh_set x \<in> {shmem_set_acl_access, shmem_set_acl_default, shmem_xattr_security_set}"
    using r by (auto simp: shmem_xattr_handlers_def split: option.splits)
  then show ?thesis
    using sets_acl_generic [OF h ino] sets_acl_none [OF touched_refl [OF h]]
    by (auto simp: shmem_set_acl_access_def shmem_set_acl_default_def shmem_xattr_security_set_def)
qed

lemma vfs_setxattr_ok:
  assumes h: "heap_ok v {#}" and ino: "ino < length (inodes v)"
  shows "sets_acl v ino (vfs_setxattr env mem ino name val v)" "sets_acl v ino (vfs_removexattr env mem ino name v)"
proof -
  obtain r u where u: "xattr_permission env ino name MAY_WRITE v = Some (r, u)" "touched v u"
    using xattr_permission_reads [OF h ino] by blast
  have hu: "heap_ok u {#}" using u by (simp add: touched_def)
  have cap: "touched v (snd (with_task u (cap_inode_setxattr env name)))"
    "touched v (snd (with_task u (cap_inode_removexattr env name)))"
    by (auto intro!: touched_trans [OF u(2)] touched_with_task [OF hu] marked_capable marked_or_capable
      simp: cap_inode_setxattr_def cap_inode_removexattr_def split_def)
  have go: "sets_acl v ino (xh_set x env mem ino n w y)"
    if "touched v y" "xattr_resolve_name shmem_xattr_handlers name = Some (x, n)" for x y n w
    using that touched_length [OF that(1)] ino
    by (intro sets_acl_touched [OF that(1)] xattr_set_sets_acl) (auto simp: touched_def)
  obtain e1 u1 e2 u2 where c: "with_task u (cap_inode_setxattr env name) = (e1, u1)"
    "with_task u (cap_inode_removexattr env name) = (e2, u2)" "touched v u1" "touched v u2"
    using cap by (metis prod.collapse)
  show "sets_acl v ino (vfs_setxattr env mem ino name val v)"
    using u c go sets_acl_none
    by (auto simp: vfs_setxattr_def generic_setxattr_def split: option.splits)
  show "sets_acl v ino (vfs_removexattr env mem ino name v)"
    using u c go sets_acl_none touched_refl [OF h]
    by (auto simp: vfs_removexattr_def generic_removexattr_def split: option.splits)
qed

definition acls_ok :: "vfs \<Rightarrow> bool" where
  "acls_ok v \<longleftrightarrow> (\<forall>i\<in>set (abs_fs v). acl_ok i)"

lemma acls_ok_update:
  "acls_ok v \<Longrightarrow> abs_fs v' = (abs_fs v)[ino := i] \<Longrightarrow> acl_ok i \<Longrightarrow> acls_ok v'"
  by (auto simp: acls_ok_def dest!: subsetD [OF set_update_subset_insert])

lemma acls_okD: "acls_ok v \<Longrightarrow> ino < length (inodes v) \<Longrightarrow> acl_ok (abs_fs v ! ino)"
  by (simp add: acls_ok_def)

lemma abs_fs_update_length: "abs_fs v' = (abs_fs v)[ino := i] \<Longrightarrow> length (inodes v') = length (inodes v)"
  by (metis length_abs_fs length_list_update)

lemma sets_aclD:
  assumes "sets_acl v ino out" "ino < length (inodes v)"
  obtains r v' where "out = Some (r, v')" "heap_ok v' {#}" "umask v' = umask v"
    "length (inodes v') = length (inodes v)" "acls_ok v \<longrightarrow> acls_ok v'"
proof -
  obtain r v' i where o: "out = Some (r, v')" "heap_ok v' {#}" "umask v' = umask v"
    "abs_fs v' = (abs_fs v)[ino := i]"
    "i = abs_fs v ! ino \<or> (\<exists>allowed mem type val. i = snd (set_value allowed mem type val (abs_fs v ! ino)))"
    using assms(1) unfolding sets_acl_def by blast
  have "acls_ok v \<longrightarrow> acl_ok i"
    using o(5) acls_okD [OF _ assms(2)] set_value_ok(1) by blast
  then show thesis
    using that [OF o(1-3) abs_fs_update_length [OF o(4)]] acls_ok_update [OF _ o(4)] by blast
qed

text \<open>Reading an attribute and listing the attributes.\<close>

lemma touched_getter:
  assumes "\<exists>r v'. out = Some (r, v') \<and> heap_ok v' {#} \<and> task v' = task v \<and> umask v' = umask v \<and> abs_fs v' = abs_fs v"
  shows "\<exists>r v'. out = Some (r, v') \<and> touched v v'"
  using assms by (auto simp: touched_def marked_def)

lemma xattr_get_touched:
  assumes h: "heap_ok v {#}" and ino: "ino < length (inodes v)" and r: "xattr_resolve_name shmem_xattr_handlers name = Some (x, n)"
  shows "\<exists>r v'. xh_get x ino n buffer v = Some (r, v') \<and> touched v v'"
proof -
  have "xh_get x \<in> {shmem_get_acl_access, shmem_get_acl_default, shmem_xattr_security_get}"
    using r by (auto simp: shmem_xattr_handlers_def split: option.splits)
  moreover have "\<exists>r v'. generic_acl_get shmem_acl_ops ino type buffer v = Some (r, v') \<and> touched v v'" for type
    using shmem.generic_acl_get_ok [OF h ino, of type buffer] by (intro touched_getter) blast
  ultimately show ?thesis
    using touched_refl [OF h]
    by (auto simp: shmem_get_acl_access_def shmem_get_acl_default_def shmem_xattr_security_get_def)
qed

lemma xattr_list_touched:
  assumes h: "heap_ok v {#}" and ino: "ino < length (inodes v)" and x: "x \<in> set shmem_xattr_handlers"
  shows "\<exists>n s v'. xh_list x ino buffer v = Some ((n, s), v') \<and> touched v v'"
proof -
  have "xh_list x \<in> {shmem_list_acl_access, shmem_list_acl_default, shmem_xattr_security_list}"
    using x by (auto simp: shmem_xattr_handlers_def)
  moreover have "\<exists>r v'. generic_acl_list shmem_acl_ops ino type buffer v = Some (r, v') \<and> touched v v'" for type
    using shmem.generic_acl_list_ok [OF h ino, of type buffer] by (intro touched_getter)
  ultimately show ?thesis
    using touched_refl [OF h]
    by (fastforce simp: shmem_list_acl_access_def shmem_list_acl_default_def shmem_xattr_security_list_def)
qed

lemma vfs_getxattr_touched:
  assumes h: "heap_ok v {#}" and ino: "ino < length (inodes v)"
  shows "\<exists>r v'. vfs_getxattr env ino name buffer v = Some (r, v') \<and> touched v v'"
proof -
  obtain r u where u: "xattr_permission env ino name MAY_READ v = Some (r, u)" "touched v u"
    using xattr_permission_reads [OF h ino] by blast
  have "heap_ok u {#}" "ino < length (inodes u)"
    using u ino touched_length [OF u(2)] by (auto simp: touched_def)
  then have "\<exists>r v'. generic_getxattr shmem_xattr_handlers ino name buffer u = Some (r, v') \<and> touched v v'"
    using xattr_get_touched [of u ino name] touched_trans [OF u(2)] u(2)
    by (fastforce simp: generic_getxattr_def split: option.splits)
  with u show ?thesis by (auto simp: vfs_getxattr_def split: sum.splits)
qed

lemma listxattr_touched:
  assumes "heap_ok v {#}" "ino < length (inodes v)" "set hs \<subseteq> set shmem_xattr_handlers"
  shows "\<exists>r v'. listxattr_size hs ino v = Some (r, v') \<and> touched v v'"
    "\<exists>r v'. listxattr_fill hs ino sz v = Some (r, v') \<and> touched v v'"
  using assms
proof (induction hs arbitrary: v sz)
  case Nil
  { case 1 then show ?case by (auto intro: touched_refl) next
    case 2 then show ?case by (auto intro: touched_refl) }
next
  case (Cons x hs)
  { case 1
    then obtain n s u where "xh_list x ino None v = Some ((n, s), u)" and u: "touched v u"
      using xattr_list_touched [of v ino x None] by auto
    moreover have "\<exists>r v'. listxattr_size hs ino u = Some (r, v') \<and> touched u v'"
      using 1 u touched_length [OF u] by (intro Cons.IH) (auto simp: touched_def)
    ultimately show ?case using touched_trans [OF u] by auto
  next
    case 2
    then obtain n s u where "xh_list x ino (Some sz) v = Some ((n, s), u)" and u: "touched v u"
      using xattr_list_touched [of v ino x "Some sz"] by auto
    moreover have "\<exists>r v'. listxattr_fill hs ino (sz - n) u = Some (r, v') \<and> touched u v'"
      using 2 u touched_length [OF u] by (intro Cons.IH) (auto simp: touched_def)
    ultimately show ?case using touched_trans [OF u] u by auto }
qed

lemma vfs_listxattr_touched:
  assumes h: "heap_ok v {#}" and ino: "ino < length (inodes v)"
  shows "\<exists>r v'. vfs_listxattr ino buffer v = Some (r, v') \<and> touched v v'"
  using listxattr_touched [OF h ino subset_refl] touched_refl [OF h]
  by (fastforce simp: vfs_listxattr_def generic_listxattr_def split: option.splits)

section \<open>Creating and destroying inodes\<close>

definition new_value :: "u32 \<Rightarrow> u32 \<Rightarrow> kstate \<Rightarrow> 'p inode" where
  "new_value sb_flags mode s =
     \<lparr>i_mode = ucast mode, i_uid = fsuid (current_cred s), i_gid = fsgid (current_cred s), i_flags = 0,
      s_flags = sb_flags, i_acl = None, i_default_acl = None\<rparr>"

definition inherit_gid :: "'p inode \<Rightarrow> u32 \<Rightarrow> 'q inode \<Rightarrow> 'q inode" where
  "inherit_gid d mode i =
     (if i_mode d AND S_ISGID \<noteq> 0
      then i\<lparr>i_gid := i_gid d, i_mode := if S_ISDIR (ucast mode) then i_mode i OR S_ISGID else i_mode i\<rparr>
      else i)"

lemma get_inode_ok:
  assumes "heap_ok v {#}" "shmem_get_inode sb mode v = (ino, v')"
  shows "heap_ok v' {#}" "ino = length (inodes v)" "task v' = task v" "umask v' = umask v"
    "abs_fs v' = abs_fs v @ [new_value sb mode (task v)]" "length (inodes v') = Suc (length (inodes v))"
proof -
  have v': "v' = v\<lparr>inodes := inodes v @ [new_value sb mode (task v)]\<rparr>" and ino: "ino = length (inodes v)"
    using assms(2) by (auto simp: shmem_get_inode_def new_value_def)
  have "acl_at v' = acl_at v" by (simp add: v' acl_at_def fun_eq_iff)
  moreover from this have "ents v' = ents v" by (simp add: ents_def fun_eq_iff)
  moreover have "refs v' = refs v" by (simp add: v' refs_def new_value_def inode_refs_def)
  ultimately show "heap_ok v' {#}" "abs_fs v' = abs_fs v @ [new_value sb mode (task v)]"
    using assms(1)
    by (simp_all add: heap_ok_def ref_count_def abs_fs_def v') (simp add: new_value_def abs_inode_def)
qed (use assms(2) in \<open>auto simp: shmem_get_inode_def\<close>)

lemma abs_no_refs:
  assumes h: "heap_ok v R" and i: "i \<in> set (inodes v)"
    and n: "i_acl (abs_inode (ents v) i) = None" "i_default_acl (abs_inode (ents v) i) = None"
  shows "inode_refs i = {#}"
proof -
  have "ents v q \<noteq> None" if "q \<in># inode_refs i" for q
  proof -
    have "q \<in># R + refs v" using inode_refs_in_refs [OF i that] by simp
    then obtain a where "acl_at v q = Some a" using heap_okD [OF h] by blast
    then show ?thesis by (simp add: ents_def)
  qed
  with n show ?thesis
    by (cases "i_acl i"; cases "i_default_acl i") (auto simp: inode_refs_def)
qed

lemma iput_new_ok:
  assumes h: "heap_ok v {#}" and a: "abs_fs v = as @ [i]"
  shows "\<exists>v'. iput_new v = Some v' \<and> heap_ok v' {#} \<and> task v' = task v \<and> umask v' = umask v \<and> abs_fs v' = as"
proof -
  have len: "length (inodes v) = Suc (length as)" using a length_abs_fs [of v] by simp
  obtain w where w: "shmem_acl_destroy_inode (length as) v = Some w" "heap_ok w {#}" "task w = task v"
    "umask w = umask v" "abs_fs w = (abs_fs v)[length as := (abs_fs v ! length as)\<lparr>i_acl := None, i_default_acl := None\<rparr>]"
    using shmem_acl_destroy_inode_ok [OF h, of "length as"] len by auto
  have aw: "abs_fs w = as @ [i\<lparr>i_acl := None, i_default_acl := None\<rparr>]"
    using w(5) a by simp
  then have "inodes w \<noteq> []" by (auto simp: abs_fs_def)
  then obtain js l where js: "inodes w = js @ [l]" by (metis append_butlast_last_id)
  have l: "map (abs_inode (ents w)) js = as" "abs_inode (ents w) l = i\<lparr>i_acl := None, i_default_acl := None\<rparr>"
    using aw js by (simp_all add: abs_fs_def)
  have "inode_refs l = {#}" using js l by (intro abs_no_refs [OF w(2)]) simp_all
  define v' where "v' = w\<lparr>inodes := js\<rparr>"
  have "refs v' = refs w" using \<open>inode_refs l = {#}\<close> js by (simp add: v'_def refs_def)
  moreover have "acl_at v' = acl_at w" by (simp add: v'_def acl_at_def fun_eq_iff)
  moreover from this have "ents v' = ents w" by (simp add: ents_def fun_eq_iff)
  ultimately have "heap_ok v' {#}" "abs_fs v' = as"
    using w(2) l by (simp_all add: heap_ok_def ref_count_def abs_fs_def v'_def)
  moreover have "iput_new v = Some v'"
    using w(1) len js by (simp add: iput_new_def v'_def)
  ultimately show ?thesis using w by (simp add: v'_def)
qed

lemma shmem_mknod_ok:
  fixes mem :: "nat \<Rightarrow> bool" and mode :: u32
  assumes h: "heap_ok v {#}" and dir: "dir < length (inodes v)"
  defines "d \<equiv> abs_fs v ! dir"
  defines "res \<equiv> init_value mem (umask v) (i_default_acl d) (new_value (s_flags d) mode (task v))"
  shows "\<exists>v'. shmem_mknod True mem dir mode v =
      Some (case fst res of Inl e \<Rightarrow> Inl e | Inr _ \<Rightarrow> Inr (length (inodes v)), v')
    \<and> heap_ok v' {#} \<and> task v' = task v \<and> umask v' = umask v
    \<and> abs_fs v' = (if is_ok (fst res) then abs_fs v @ [inherit_gid d mode (snd res)] else abs_fs v)"
proof -
  let ?n = "length (inodes v)"
  obtain u where g: "shmem_get_inode (s_flags d) mode v = (?n, u)"
    by (simp add: shmem_get_inode_def)
  note u = get_inode_ok [OF h g]
  have nth: "abs_fs u ! ?n = new_value (s_flags d) mode (task v)" "abs_fs u ! dir = d"
    using u(5) dir by (simp_all add: nth_append d_def)
  obtain w where w: "shmem_acl_init mem ?n dir u = Some (fst res, w)" "heap_ok w {#}" "task w = task v"
    "umask w = umask v" "abs_fs w = abs_fs v @ [snd res]"
    using shmem.generic_acl_init_ok [OF u(1), of ?n dir mem] u dir nth
    by (auto simp: shmem_acl_init_def res_def list_update_append)
  have sf: "s_flags (get_inode v dir) = s_flags d" using dir by (simp add: d_def)
  show ?thesis
  proof (cases "fst res")
    case (Inl e)
    with w(1-4) g sf iput_new_ok [OF w(2,5)] show ?thesis by (auto simp: shmem_mknod_def)
  next
    case (Inr x)
    have len: "length (inodes w) = Suc ?n" using w(5) length_abs_fs [of w] by simp
    have dw: "abs_fs w ! dir = d" "abs_fs w ! ?n = snd res"
      using w(5) dir by (simp_all add: nth_append d_def)
    then have dm: "i_mode (get_inode w dir) = i_mode d" "i_gid (get_inode w dir) = i_gid d"
      using len dir abs_fs_fields(1,3) [of dir w] by simp_all
    define j where "j = inherit_gid d mode (get_inode w ?n)"
    have "shmem_mknod True mem dir mode v = Some (Inr ?n, put_inode ?n j w)"
      using g sf w(1) Inr dm len
      by (auto simp: shmem_mknod_def Let_def j_def inherit_gid_def put_inode_def)
    moreover have "heap_ok (put_inode ?n j w) {#}"
      using len by (intro put_inode_ok [OF w(2)]) (simp_all add: j_def inherit_gid_def inode_refs_def)
    moreover have "abs_inode (ents w) j = inherit_gid d mode (abs_inode (ents w) (get_inode w ?n))"
      by (simp add: j_def inherit_gid_def abs_inode_def)
    moreover have "abs_inode (ents w) (get_inode w ?n) = snd res"
      using dw(2) len by (simp add: abs_fs_nth)
    ultimately show ?thesis
      using Inr w(3-5) by (simp add: abs_put_inode list_update_append)
  qed
qed

lemma acl_ok_setgid:
  assumes "acl_ok i"
  shows "acl_ok (i\<lparr>i_mode := i_mode i OR S_ISGID\<rparr>)"
proof -
  let ?m = "i_mode i"
  have "S_ISGID AND NOT S_IRWXUGO = S_ISGID" "S_ISGID AND S_IFMT = 0" by code_simp+
  then have g: "(?m OR S_ISGID) AND NOT S_IRWXUGO = (?m AND NOT S_IRWXUGO) OR S_ISGID"
    and t: "same_type (?m OR S_ISGID) ?m"
    by (simp_all add: same_type_def bit.conj_disj_distrib2)
  have "posix_acl_equiv_mode es (?m OR S_ISGID) = Inr (True, ?m OR S_ISGID)"
    if es: "extended es" "posix_acl_equiv_mode es ?m = Inr (True, ?m)" for es
  proof -
    obtain uo us go gs m ot where p: "acl_parts es uo us go gs [m] ot"
      using es(1) by (auto simp: extended_def)
    have "(?m AND NOT S_IRWXUGO) OR class_mode (e_perm uo) (group_class go [m]) (e_perm ot) = ?m"
      using es(2) by (simp add: equiv_mode_parts [OF p])
    then show ?thesis
      unfolding equiv_mode_parts [OF p] g by (simp add: or.assoc or.left_commute or.commute)
  qed
  with assms same_typeD [OF t] show ?thesis by (auto simp: acl_ok_def)
qed

lemma mknod_acls_ok:
  assumes a: "acls_ok v" and um: "umask_ok (umask v)" and dir: "dir < length (inodes v)"
  defines "d \<equiv> abs_fs v ! dir"
  shows "acl_ok (inherit_gid d mode (snd (init_value mem (umask v) (i_default_acl d) (new_value sb mode s))))"
proof -
  have "acl_ok d" using acls_okD [OF a dir] by (simp add: d_def)
  then have "\<forall>es. i_default_acl d = Some es \<longrightarrow> well_formed es" by (simp add: acl_ok_def)
  then have "acl_ok (snd (init_value mem (umask v) (i_default_acl d) (new_value sb mode s)))"
    using init_value_ok [OF um, of "new_value sb mode s"] by (simp add: new_value_def)
  then show ?thesis
    using acl_ok_setgid by (fastforce simp: inherit_gid_def acl_ok_def)
qed

end
