(* ===== verification/TmpfsRun.thy ===== *)
theory TmpfsRun
  imports TmpfsXattrOk
begin

text \<open>
  The calls on a tmpfs as a step relation, and the invariant that every sequence of calls keeps.

  \<open>tmpfs_step\<close> is one call: setting, removing, reading or listing extended attributes, \<open>chmod\<close>,
  \<open>chown\<close>, creating a file, checking a permission or whether a file may be deleted, releasing the last reference to an inode,
  setting the umask (\<open>sys_umask\<close> keeps the permission bits only), or another task running. The
  parameter \<open>oom\<close> says whether a \<open>chmod\<close> or \<open>chown\<close> may run out of memory for its copy of the ACL.
\<close>

inductive tmpfs_step :: "bool \<Rightarrow> vfs \<Rightarrow> vfs \<Rightarrow> bool" for oom :: bool where
  setxattr_call: "tmpfs_step oom v v'"
    if "ino < length (inodes v)" "vfs_setxattr env mem ino name val v = Some (r, v')"
| removexattr_call: "tmpfs_step oom v v'"
    if "ino < length (inodes v)" "vfs_removexattr env mem ino name v = Some (r, v')"
| getxattr_call: "tmpfs_step oom v v'"
    if "ino < length (inodes v)" "vfs_getxattr env ino name buffer v = Some (x, v')"
| listxattr_call: "tmpfs_step oom v v'"
    if "ino < length (inodes v)" "vfs_listxattr ino buffer v = Some (y, v')"
| permission_call: "tmpfs_step oom v v'"
    if "ino < length (inodes v)" "tmpfs_permission env ino want v = Some (r, v')"
| chmod_call: "tmpfs_step oom v v'"
    if "ino < length (inodes v)" "sys_fchmod env mem ino mode v = Some (r, v')" "oom \<or> r \<noteq> Inl ENOMEM"
| chown_call: "tmpfs_step oom v v'"
    if "ino < length (inodes v)" "chown_common env mem ino usr grp v = Some (r, v')" "oom \<or> r \<noteq> Inl ENOMEM"
| mknod_call: "tmpfs_step oom v v'"
    if "dir < length (inodes v)" "shmem_mknod inode_ok mems dir dmode v = Some (n, v')"
| create_call: "tmpfs_step oom v v'"
    if "dir < length (inodes v)" "vfs_create env inode_ok mems dir child dmode v = Some (n, v')"
| vfs_mknod_call: "tmpfs_step oom v v'"
    if "dir < length (inodes v)" "vfs_mknod env inode_ok mems dir child dmode v = Some (n, v')"
| mkdir_call: "tmpfs_step oom v v'"
    if "dir < length (inodes v)" "vfs_mkdir env inode_ok mems dir child dmode v = Some (n, v')"
| may_delete_call: "tmpfs_step oom v v'"
    if "dir < length (inodes v)" "may_delete env dir victim is_root isdir v = Some (r, v')"
| evict_call: "tmpfs_step oom v v'"
    if "ino < length (inodes v)" "shmem_acl_destroy_inode ino v = Some v'"
| umask_call: "tmpfs_step oom v v'"
    if "sys_umask um v = (old, v')"
| switch_task: "tmpfs_step oom v (v\<lparr>task := s\<rparr>)"

inductive_cases tmpfs_stepE: "tmpfs_step oom v v'"

section \<open>Each call keeps the invariant\<close>

definition fs_ok :: "bool \<Rightarrow> vfs \<Rightarrow> bool" where
  "fs_ok oom v \<longleftrightarrow> heap_ok v {#} \<and> umask_ok (umask v) \<and> (oom \<or> acls_ok v)"

text \<open>The call returns, and its new state is \<open>fs_ok\<close> if its result satisfies \<open>P\<close>.\<close>

definition keeps_fs_ok :: "bool \<Rightarrow> ('a \<Rightarrow> bool) \<Rightarrow> ('a \<times> vfs) option \<Rightarrow> bool" where
  "keeps_fs_ok oom P out \<longleftrightarrow> (\<exists>r v'. out = Some (r, v') \<and> (P r \<longrightarrow> fs_ok oom v'))"

lemma keeps_fs_okD: "keeps_fs_ok oom P out \<Longrightarrow> out = Some (r, v') \<Longrightarrow> P r \<Longrightarrow> fs_ok oom v'"
  by (auto simp: keeps_fs_ok_def)

lemma keeps_fs_ok_some: "keeps_fs_ok oom P out \<Longrightarrow> out \<noteq> None"
  by (auto simp: keeps_fs_ok_def)

lemma fs_ok_heap: "fs_ok oom v \<Longrightarrow> heap_ok v {#}"
  by (simp add: fs_ok_def)

lemma fs_ok_touched: "fs_ok oom v \<Longrightarrow> touched v v' \<Longrightarrow> fs_ok oom v'"
  by (auto simp: fs_ok_def touched_def acls_ok_def)

lemma keeps_touched: "fs_ok oom v \<Longrightarrow> \<exists>r v'. out = Some (r, v') \<and> touched v v' \<Longrightarrow> keeps_fs_ok oom P out"
  by (auto simp: keeps_fs_ok_def intro: fs_ok_touched)

lemma keeps_sets_acl:
  assumes "fs_ok oom v" "sets_acl v ino out" "ino < length (inodes v)"
  shows "keeps_fs_ok oom P out"
  by (rule sets_aclD [OF assms(2,3)]) (use assms(1) in \<open>auto simp: fs_ok_def keeps_fs_ok_def\<close>)

lemma xattr_calls_keep:
  assumes "fs_ok oom v" "ino < length (inodes v)"
  shows "keeps_fs_ok oom (\<lambda>_. True) (vfs_setxattr env mem ino name val v)"
    "keeps_fs_ok oom (\<lambda>_. True) (vfs_removexattr env mem ino name v)"
    "keeps_fs_ok oom (\<lambda>_. True) (vfs_getxattr env ino name buffer v)"
    "keeps_fs_ok oom (\<lambda>_. True) (vfs_listxattr ino buffer v)"
    "keeps_fs_ok oom (\<lambda>_. True) (tmpfs_permission env ino want v)"
  using vfs_setxattr_ok [OF fs_ok_heap [OF assms(1)] assms(2)]
    vfs_getxattr_touched [OF fs_ok_heap [OF assms(1)] assms(2)]
    vfs_listxattr_touched [OF fs_ok_heap [OF assms(1)] assms(2)]
    tmpfs_permission_reads [OF fs_ok_heap [OF assms(1)] assms(2)]
  by (blast intro: keeps_sets_acl [OF assms(1) _ assms(2)] keeps_touched [OF assms(1)]
    dest: reads_iff [THEN iffD1])+

lemma notify_change_keeps:
  assumes ok: "fs_ok oom v" and ino: "ino < length (inodes v)"
    and attr: "attr_ok attr" "keeps_type attr (i_mode (get_inode v ino))"
  shows "keeps_fs_ok oom (\<lambda>r. oom \<or> r \<noteq> Inl ENOMEM) (notify_change env mem ino attr v)"
proof -
  let ?res = "change_value env mem attr (abs_fs v ! ino) (task v)"
  obtain v' where v': "notify_change env mem ino attr v = Some (fst ?res, v')" "heap_ok v' {#}"
    "umask v' = umask v" "abs_fs v' = (abs_fs v)[ino := snd ?res]"
    using notify_change_ok [OF fs_ok_heap [OF ok] ino attr(1), of env mem] by auto
  have "acls_ok v'" if "\<not> oom" "fst ?res \<noteq> Inl ENOMEM"
  proof -
    have "acls_ok v" using that ok by (simp add: fs_ok_def)
    from acls_ok_update [OF this v'(4)] acls_okD [OF this ino] show ?thesis
      using change_value_ok [of "abs_fs v ! ino" attr env mem "task v"] attr(2) ino that by simp
  qed
  with ok v' show ?thesis by (auto simp: keeps_fs_ok_def fs_ok_def)
qed

definition chmod_attr :: "mode_t \<Rightarrow> mode_t \<Rightarrow> iattr" where
  "chmod_attr mode old =
     \<lparr>ia_valid = ATTR_MODE OR ATTR_CTIME,
      ia_mode = ((if mode = -1 then old else mode) AND S_IALLUGO) OR (old AND NOT S_IALLUGO),
      ia_uid = 0, ia_gid = 0\<rparr>"

definition chown_attr :: "mode_t \<Rightarrow> uid_t \<Rightarrow> gid_t \<Rightarrow> iattr" where
  "chown_attr m usr grp =
     \<lparr>ia_valid = ATTR_CTIME OR (if usr \<noteq> -1 then ATTR_UID else 0)
         OR (if grp \<noteq> -1 then ATTR_GID else 0)
         OR (if \<not> S_ISDIR m then ATTR_KILL_SUID OR ATTR_KILL_SGID OR ATTR_KILL_PRIV else 0),
      ia_mode = 0, ia_uid = usr, ia_gid = grp\<rparr>"

lemma sys_fchmod_eq:
  "sys_fchmod env mem ino mode v = notify_change env mem ino (chmod_attr mode (i_mode (get_inode v ino))) v"
  by (simp add: sys_fchmod_def chmod_attr_def Let_def)

lemma chown_common_eq:
  "chown_common env mem ino usr grp v =
     notify_change env mem ino (chown_attr (i_mode (get_inode v ino)) usr grp) v"
  by (simp add: chown_common_def chown_attr_def)

lemma chmod_attr_ok: "attr_ok (chmod_attr mode old)" "keeps_type (chmod_attr mode old) old"
proof -
  show "attr_ok (chmod_attr mode old)" by (simp add: attr_ok_def chmod_attr_def attr_defs)
  have 1: "S_IALLUGO AND S_IFMT = 0" "NOT S_IALLUGO AND S_IFMT = S_IFMT" by code_simp+
  show "keeps_type (chmod_attr mode old) old"
    unfolding keeps_type_def same_type_def chmod_attr_def by (simp add: bit.conj_disj_distrib2 and.assoc 1)
qed

lemma chown_attr_ok: "attr_ok (chown_attr m usr grp)" "keeps_type (chown_attr m usr grp) m'"
proof -
  have "\<not> has_attr (chown_attr m usr grp) ATTR_MODE" by (simp add: chown_attr_def attr_defs)
  then show "attr_ok (chown_attr m usr grp)" "keeps_type (chown_attr m usr grp) m'"
    by (simp_all add: attr_ok_def keeps_type_def)
qed

lemma attr_calls_keep:
  assumes "fs_ok oom v" "ino < length (inodes v)"
  shows "keeps_fs_ok oom (\<lambda>r. oom \<or> r \<noteq> Inl ENOMEM) (sys_fchmod env mem ino mode v)"
    "keeps_fs_ok oom (\<lambda>r. oom \<or> r \<noteq> Inl ENOMEM) (chown_common env mem ino usr grp v)"
  unfolding sys_fchmod_eq chown_common_eq
  by (intro notify_change_keeps assms chmod_attr_ok chown_attr_ok)+

lemma mknod_keeps:
  assumes ok: "fs_ok oom v" and dir: "dir < length (inodes v)"
  shows "keeps_fs_ok oom (\<lambda>_. True) (shmem_mknod inode_ok mem dir mode v)"
proof (cases inode_ok)
  case False
  with ok show ?thesis by (simp add: shmem_mknod_def keeps_fs_ok_def)
next
  case True
  let ?d = "abs_fs v ! dir"
  let ?res = "init_value mem (umask v) (i_default_acl ?d) (new_value (s_flags ?d) mode (task v))"
  obtain r v' where v': "shmem_mknod True mem dir mode v = Some (r, v')" "heap_ok v' {#}"
    "umask v' = umask v"
    "abs_fs v' = (if is_ok (fst ?res) then abs_fs v @ [inherit_gid ?d mode (snd ?res)] else abs_fs v)"
    using shmem_mknod_ok [OF fs_ok_heap [OF ok] dir, of mem mode] by blast
  have "acls_ok v'" if "acls_ok v" "umask_ok (umask v)"
    using v'(4) that mknod_acls_ok [OF that dir, of mode mem "s_flags ?d" "task v"]
    by (simp add: acls_ok_def)
  with ok v' True show ?thesis by (auto simp: keeps_fs_ok_def fs_ok_def)
qed

lemma may_create_touched:
  assumes "fs_ok oom v" "dir < length (inodes v)"
  shows "\<exists>r u. may_create env dir child v = Some (r, u) \<and> touched v u"
  using tmpfs_permission_reads [OF fs_ok_heap [OF assms(1)] assms(2), of env "MAY_WRITE OR MAY_EXEC"]
    touched_refl [OF fs_ok_heap [OF assms(1)]]
  by (auto simp: may_create_def reads_iff)

lemma create_calls_keep:
  assumes ok: "fs_ok oom v" and dir: "dir < length (inodes v)"
  shows "keeps_fs_ok oom (\<lambda>_. True) (vfs_create env inode_ok mem dir child mode v)"
    "keeps_fs_ok oom (\<lambda>_. True) (vfs_mknod env inode_ok mem dir child mode v)"
    "keeps_fs_ok oom (\<lambda>_. True) (vfs_mkdir env inode_ok mem dir child mode v)"
proof -
  obtain r u where u: "may_create env dir child v = Some (r, u)" "touched v u"
    using may_create_touched [OF assms] by blast
  have go: "keeps_fs_ok oom (\<lambda>_. True) (shmem_mknod inode_ok mem dir m w)"
    "keeps_fs_ok oom (\<lambda>_. True) (Some (e, w))" if "touched v w" for m w and e :: "nat kres"
    using mknod_keeps [OF fs_ok_touched [OF ok that]] fs_ok_touched [OF ok that] touched_length [OF that] dir
    by (simp_all add: keeps_fs_ok_def)
  have "touched v (snd (with_task u (capable env CAP_MKNOD)))"
    using u(2) by (intro touched_trans [OF u(2)] touched_with_task marked_capable) (simp add: touched_def)
  then obtain b w where w: "with_task u (capable env CAP_MKNOD) = (b, w)" "touched v w"
    by (metis prod.collapse)
  show "keeps_fs_ok oom (\<lambda>_. True) (vfs_create env inode_ok mem dir child mode v)"
    "keeps_fs_ok oom (\<lambda>_. True) (vfs_mknod env inode_ok mem dir child mode v)"
    "keeps_fs_ok oom (\<lambda>_. True) (vfs_mkdir env inode_ok mem dir child mode v)"
    using u(1) w(1) go [OF u(2)] go [OF w(2)]
    by (auto simp: vfs_create_def vfs_mknod_def vfs_mkdir_def shmem_create_def shmem_mkdir_def split: sum.splits)
qed

lemma may_delete_keeps:
  assumes ok: "fs_ok oom v" and dir: "dir < length (inodes v)"
  shows "keeps_fs_ok oom (\<lambda>_. True) (may_delete env dir victim is_root isdir v)"
proof (rule keeps_touched [OF ok])
  obtain r u where u: "tmpfs_permission env dir (MAY_WRITE OR MAY_EXEC) v = Some (r, u)" "touched v u"
    using tmpfs_permission_reads [OF fs_ok_heap [OF ok] dir, of env "MAY_WRITE OR MAY_EXEC"]
    by (auto simp: reads_iff)
  have "touched v (snd (with_task u (check_sticky env d i)))" for d i :: "acl_ptr inode"
    using u(2) marked_capable [of "task u" env CAP_FOWNER]
    by (intro touched_trans [OF u(2)] touched_with_task)
      (auto simp: touched_def check_sticky_def marked_def Let_def split_def)
  then show "\<exists>r v'. may_delete env dir victim is_root isdir v = Some (r, v') \<and> touched v v'"
    using u touched_refl [OF fs_ok_heap [OF ok]]
    by (auto simp: may_delete_def Let_def split_def split: option.splits)
qed

lemma evict_keeps:
  assumes ok: "fs_ok oom v" and ino: "ino < length (inodes v)"
  shows "\<exists>v'. shmem_acl_destroy_inode ino v = Some v' \<and> fs_ok oom v'"
proof -
  let ?i = "(abs_fs v ! ino)\<lparr>i_acl := None, i_default_acl := None\<rparr>"
  obtain v' where v': "shmem_acl_destroy_inode ino v = Some v'" "heap_ok v' {#}" "umask v' = umask v"
    "abs_fs v' = (abs_fs v)[ino := ?i]"
    using shmem_acl_destroy_inode_ok [OF fs_ok_heap [OF ok] ino] by blast
  have "acl_ok ?i" by (simp add: acl_ok_def)
  with v' ok acls_ok_update [OF _ v'(4)] show ?thesis by (auto simp: fs_ok_def)
qed

lemma evict_fs_ok:
  "fs_ok oom v \<Longrightarrow> ino < length (inodes v) \<Longrightarrow> shmem_acl_destroy_inode ino v = Some v' \<Longrightarrow> fs_ok oom v'"
  using evict_keeps by fastforce

lemma umask_keeps: "fs_ok oom v \<Longrightarrow> sys_umask um v = (old, v') \<Longrightarrow> fs_ok oom v'"
  by (auto simp: sys_umask_def fs_ok_def acls_ok_def umask_ok_def and.assoc)

lemma step_fs_ok:
  assumes "tmpfs_step oom v v'" "fs_ok oom v"
  shows "fs_ok oom v'"
  using assms(1)
proof (elim tmpfs_stepE)
  fix s
  assume "v' = v\<lparr>task := s\<rparr>"
  with assms(2) show ?thesis by (simp add: fs_ok_def acls_ok_def)
qed (blast intro: xattr_calls_keep [OF assms(2), THEN keeps_fs_okD]
  attr_calls_keep [OF assms(2), THEN keeps_fs_okD] mknod_keeps [OF assms(2), THEN keeps_fs_okD]
  create_calls_keep [OF assms(2), THEN keeps_fs_okD] may_delete_keeps [OF assms(2), THEN keeps_fs_okD]
  umask_keeps [OF assms(2)] evict_fs_ok [OF assms(2)])+

lemma mount_fs_ok:
  assumes "umask_ok um"
  shows "fs_ok oom (shmem_fill_super sb mode usr grp s um)"
proof -
  let ?sb = "sb OR MS_POSIXACL" and ?m = "ucast (S_IFDIR OR mode)"
  define u where "u = \<lparr>task = s, umask = um, inodes = [], acls = []\<rparr>"
  obtain n w where g: "shmem_get_inode ?sb ?m u = (n, w)" by fastforce
  have "heap_ok u {#}" by (simp add: u_def heap_ok_def ref_count_def acl_at_def refs_def)
  note w = get_inode_ok [OF this g]
  let ?i = "(get_inode w n)\<lparr>i_uid := usr, i_gid := grp\<rparr>"
  have mk: "shmem_fill_super sb mode usr grp s um = put_inode n ?i w"
    using g by (simp add: shmem_fill_super_def u_def)
  have n: "n < length (inodes w)" using w by simp
  have none: "i_acl (get_inode w n) = None" "i_default_acl (get_inode w n) = None"
    using g by (auto simp: shmem_get_inode_def)
  have "heap_ok (put_inode n ?i w) {#}"
    by (rule put_inode_ok [OF w(1) n]) (simp add: inode_refs_def)
  moreover have "acl_ok (abs_inode (ents w) ?i)" by (simp add: acl_ok_def none)
  moreover have "length (abs_fs w) = 1" using w by (simp add: u_def)
  ultimately show ?thesis
    using assms w(2,4) unfolding mk
    by (cases "abs_fs w") (auto simp: fs_ok_def acls_ok_def abs_put_inode u_def)
qed

text \<open>The states of a tmpfs after it was mounted and any number of calls.\<close>

inductive tmpfs_run :: "bool \<Rightarrow> vfs \<Rightarrow> bool" for oom :: bool where
  mounted: "tmpfs_run oom (shmem_fill_super sb mode usr grp s (um AND ucast S_IRWXUGO))"
| call: "tmpfs_run oom v \<Longrightarrow> tmpfs_step oom v v' \<Longrightarrow> tmpfs_run oom v'"

lemma run_fs_ok: "tmpfs_run oom v \<Longrightarrow> fs_ok oom v"
proof (induction rule: tmpfs_run.induct)
  case (mounted sb mode usr grp s um)
  show ?case by (rule mount_fs_ok) (simp add: umask_ok_def and.assoc)
qed (rule step_fs_ok)

lemmas run_heap = fs_ok_heap [OF run_fs_ok]

lemma run_acls_ok: "tmpfs_run False v \<Longrightarrow> acls_ok v"
  using run_fs_ok [of False v] by (simp add: fs_ok_def)

end
