(* ===== verification/TmpfsSafety.thy ===== *)
theory TmpfsSafety
  imports TmpfsRun CredSafety
begin

text \<open>
  The properties of ACLs and permissions on a tmpfs, and example states for their witnesses.
\<close>

section \<open>Example states\<close>

lemma run_mknod:
  assumes "tmpfs_run oom v" "dir < length (inodes v)"
  shows "tmpfs_run oom (snd (the (shmem_mknod inode_ok mem dir mode v)))"
  using mknod_keeps [OF run_fs_ok [OF assms(1)] assms(2), of inode_ok mem mode]
  by (auto simp: keeps_fs_ok_def intro: call [OF assms(1) mknod_call [OF assms(2)]])

lemma run_setxattr:
  assumes "tmpfs_run oom v" "ino < length (inodes v)"
  shows "tmpfs_run oom (snd (the (vfs_setxattr env mem ino name val v)))"
  using xattr_calls_keep(1) [OF run_fs_ok [OF assms(1)] assms(2), of env mem name val]
  by (auto simp: keeps_fs_ok_def intro: call [OF assms(1) setxattr_call [OF assms(2)]])

text \<open>
  A tmpfs that root has mounted and on which it has created a file with mode 0644 and given it an
  ACL; the user 1000 may read and write as far as the mask \<open>m\<close> allows.
\<close>

definition ex_acl :: "u16 \<Rightarrow> u16 \<Rightarrow> posix_acl_entry list" where
  "ex_acl m oth =
     [\<lparr>e_tag = ACL_USER_OBJ, e_perm = 6, e_id = ACL_UNDEFINED_ID\<rparr>,
      \<lparr>e_tag = ACL_USER, e_perm = 6, e_id = 1000\<rparr>,
      \<lparr>e_tag = ACL_GROUP_OBJ, e_perm = 4, e_id = ACL_UNDEFINED_ID\<rparr>,
      \<lparr>e_tag = ACL_MASK, e_perm = m, e_id = ACL_UNDEFINED_ID\<rparr>,
      \<lparr>e_tag = ACL_OTHER, e_perm = oth, e_id = ACL_UNDEFINED_ID\<rparr>]"

definition ex_mount :: vfs where
  "ex_mount = shmem_fill_super 0 0x3FF 0 0 ex_root (18 AND ucast S_IRWXUGO)"

definition ex_file :: vfs where
  "ex_file = snd (the (shmem_mknod True (\<lambda>_. True) 0 0x81A4 ex_mount))"

definition ex_bytes :: "posix_acl_entry list \<Rightarrow> u8 list" where
  "ex_bytes acl = snd (projr (posix_acl_to_xattr acl (Some 100)))"

definition ex_fs :: "u16 \<Rightarrow> u16 \<Rightarrow> kstate \<Rightarrow> vfs" where
  "ex_fs m oth s = (snd (the (vfs_setxattr ex_env True 1 POSIX_ACL_XATTR_ACCESS
     (Some (ex_bytes (ex_acl m oth))) ex_file)))\<lparr>task := s\<rparr>"

lemma ex_file_length: "length (inodes ex_file) = 2"
  by code_simp

lemma ex_file_run: "tmpfs_run oom ex_file"
  unfolding ex_file_def ex_mount_def
  by (rule run_mknod [OF mounted])
    (simp add: shmem_fill_super_def shmem_get_inode_def put_inode_def)

lemma ex_fs_run: "tmpfs_run oom (ex_fs m oth s)"
  unfolding ex_fs_def
  by (rule call [OF run_setxattr [OF ex_file_run] switch_task]) (simp add: ex_file_length)

lemma ex_fs_6:
  "length (inodes (ex_fs 6 0 ex_root)) = 2 \<and> i_acl (abs_fs (ex_fs 6 0 ex_root) ! 1) = Some (ex_acl 6 0)
   \<and> i_mode (get_inode (ex_fs 6 0 ex_root) 1) = 0x81B0"
  by code_simp

lemma well_formed_from_mode: "well_formed (posix_acl_from_mode mode)"
proof -
  have "perm_ok \<lparr>e_tag = t, e_perm = p, e_id = n\<rparr> = three_bits p" for t p n
    by (simp add: perm_ok_iff three_bits_def)
  then have "acl_parts (posix_acl_from_mode mode)
     \<lparr>e_tag = ACL_USER_OBJ, e_perm = mode_owner mode, e_id = ACL_UNDEFINED_ID\<rparr> []
     \<lparr>e_tag = ACL_GROUP_OBJ, e_perm = mode_group mode, e_id = ACL_UNDEFINED_ID\<rparr> [] []
     \<lparr>e_tag = ACL_OTHER, e_perm = mode_other mode, e_id = ACL_UNDEFINED_ID\<rparr>"
    unfolding posix_acl_from_mode_def mode_owner_def [symmetric] mode_group_def [symmetric]
      mode_other_def [symmetric]
    by (simp add: acl_parts_def named_ok_def)
  then show ?thesis unfolding well_formed_def by blast
qed

lemma masq_well_formed:
  assumes "well_formed acl"
  shows "fst (posix_acl_chmod_masq acl mode) = Inr ()" "well_formed (snd (posix_acl_chmod_masq acl mode))"
    "is_ok (fst (posix_acl_create_masq acl mode))" "well_formed (snd (posix_acl_create_masq acl mode))"
proof -
  obtain uo us go gs ms ot where p: "acl_parts acl uo us go gs ms ot"
    using assms by (auto simp: well_formed_def)
  note r = parts_rebuild [OF p]
  note t = parts_three_bits [OF p]
  show "fst (posix_acl_chmod_masq acl mode) = Inr ()" "is_ok (fst (posix_acl_create_masq acl mode))"
    by (simp_all add: chmod_masq_parts [OF p] create_masq_parts [OF p])
  show "well_formed (snd (posix_acl_chmod_masq acl mode))"
    using r [OF three_bits_mode] unfolding chmod_masq_parts [OF p] well_formed_def by simp blast
  show "well_formed (snd (posix_acl_create_masq acl mode))"
    using r [OF t [THEN three_bits_AND]] unfolding create_masq_parts [OF p] well_formed_def by simp blast
qed

section \<open>Properties of every run\<close>



text \<open>
  C7. As long as no \<open>chmod\<close> or \<open>chown\<close> fails for want of memory, the ACLs of a tmpfs are valid and
  agree with the modes: each access ACL has exactly the permission bits of the mode of its inode as
  its classes, and says more than these; each default ACL is that of a directory.
\<close>

theorem acl_and_mode_agree:
  assumes "tmpfs_run False v" "i \<in> set (abs_fs v)"
  shows "(\<forall>es. i_acl i = Some es \<longrightarrow>
       is_ok (posix_acl_valid es) \<and> posix_acl_equiv_mode es (i_mode i) = Inr (True, i_mode i))
    \<and> (\<forall>es. i_default_acl i = Some es \<longrightarrow> is_ok (posix_acl_valid es) \<and> S_ISDIR (i_mode i))"
  using run_acls_ok [OF assms(1)] assms(2) extended_well_formed
  by (auto simp: acls_ok_def acl_ok_def valid_iff_well_formed)

theorem acl_and_mode_agree_witness:
  "posix_acl_equiv_mode (ex_acl 6 0) 0x81B0 = Inr (True, 0x81B0)"
proof -
  let ?i = "abs_fs (ex_fs 6 0 ex_root) ! 1"
  have "?i \<in> set (abs_fs (ex_fs 6 0 ex_root))" using ex_fs_6 by (intro nth_mem) simp
  from acl_and_mode_agree [OF ex_fs_run this] ex_fs_6 show ?thesis by auto
qed



text \<open>
  C13. \<open>posix_acl_permission\<close>, which walks the entries once and jumps between them, computes the
  access algorithm of POSIX.1e on every valid ACL: the owner's entry, else that of the named user,
  else those of the groups, the last two limited by the mask, else the entry for others.
\<close>

theorem posix_acl_permission_correct:
  assumes "is_ok (posix_acl_valid acl)"
  shows "posix_acl_permission s iuid igid acl want = verdict (acl_access s iuid igid acl want)"
  using assms by (simp add: valid_iff_well_formed permission_is_acl_access)

theorem posix_acl_permission_correct_witness:
  "posix_acl_permission ex_user 0 0 (ex_acl 4 0) 6 = Inl EACCES"
proof -
  have "is_ok (posix_acl_valid (ex_acl 4 0)) \<and> \<not> acl_access ex_user 0 0 (ex_acl 4 0) 6" by code_simp
  then show ?thesis using posix_acl_permission_correct [of "ex_acl 4 0" ex_user 0 0 6] by (simp add: verdict_def)
qed

text \<open>
  C24. \<open>posix_acl_valid\<close> accepts exactly the lists of the grammar of ACLs, and the operations that
  make or change an ACL stay within it: the ACL of a mode, the ACL of a new file and that after a
  \<open>chmod\<close> are valid.
\<close>

theorem acl_operations_keep_valid:
  assumes "is_ok (posix_acl_valid acl)"
  shows "well_formed acl \<and> is_ok (posix_acl_valid (posix_acl_from_mode mode))
    \<and> is_ok (fst (posix_acl_chmod_masq acl mode)) \<and> is_ok (posix_acl_valid (snd (posix_acl_chmod_masq acl mode)))
    \<and> is_ok (fst (posix_acl_create_masq acl mode)) \<and> is_ok (posix_acl_valid (snd (posix_acl_create_masq acl mode)))"
  using assms masq_well_formed well_formed_from_mode by (simp add: valid_iff_well_formed)

theorem acl_operations_keep_valid_witness:
  "is_ok (posix_acl_valid (snd (posix_acl_create_masq (ex_acl 6 4) 0x81A0)))"
proof -
  have "is_ok (posix_acl_valid (ex_acl 6 4))" by code_simp
  from acl_operations_keep_valid [OF this, of "0x81A0"] show ?thesis by simp
qed

end
