(* ===== verification/TmpfsAccess.thy ===== *)
theory TmpfsAccess
  imports TmpfsSafety
begin

text \<open>
  Who may change what on a tmpfs: the owner's rights over modes, owners and ACLs, the permissions of
  new files, sticky directories, and ACLs read back as they were set.
\<close>

section \<open>Changing the mode\<close>

lemma chmod_attr_bits:
  "has_attr (chmod_attr mode old) ATTR_MODE" "\<not> has_attr (chmod_attr mode old) ATTR_UID"
  "\<not> has_attr (chmod_attr mode old) ATTR_GID" "\<not> has_attr (chmod_attr mode old) ATTR_FORCE"
  "\<not> has_attr (chmod_attr mode old) ATTR_KILL_SUID" "\<not> has_attr (chmod_attr mode old) ATTR_KILL_SGID"
  "\<not> has_attr (chmod_attr mode old) (ATTR_MTIME_SET OR ATTR_ATIME_SET OR ATTR_TIMES_SET)"
  "has_attr (chmod_attr mode old) (ATTR_MODE OR ATTR_UID OR ATTR_GID OR ATTR_TIMES_SET)"
  "has_attr (chmod_attr mode old) (NOT (ATTR_KILL_SUID OR ATTR_KILL_SGID))"
  "(chmod_attr mode old)\<lparr>ia_valid := ia_valid (chmod_attr mode old) AND NOT ATTR_KILL_PRIV\<rparr>
     = chmod_attr mode old"
  by (simp_all add: chmod_attr_def attr_defs)

lemma or_capable_True [simp]: "or_capable env True c s = (True, s)"
  by (simp add: or_capable_def)

lemma or_capable_False: "c \<noteq> CAP_NET_RAW \<Longrightarrow> c \<noteq> CAP_NET_ADMIN \<Longrightarrow> \<not> has_cap s c \<Longrightarrow> or_capable env False c s = (False, s)"
  by (simp add: or_capable_def capable_dac)

lemma owner_caps [simp]: "CAP_FOWNER \<noteq> CAP_NET_RAW" "CAP_FOWNER \<noteq> CAP_NET_ADMIN"
  "CAP_CHOWN \<noteq> CAP_NET_RAW" "CAP_CHOWN \<noteq> CAP_NET_ADMIN"
  by (simp_all add: CAP_FOWNER_def CAP_CHOWN_def CAP_NET_RAW_def CAP_NET_ADMIN_def)

lemma chmod_value_eq:
  assumes "\<not> IS_IMMUTABLE i" "\<not> IS_APPEND i"
  shows "change_value env mem (chmod_attr mode old) i s =
    (if S_ISLNK (i_mode i)
     then (let (error, attr, s) = inode_change_ok env i (chmod_attr mode old) s
           in (error, if is_ok error then fst (setattr_inode env attr i s) else i))
     else shmem_change_value env mem (chmod_attr mode old) i s)"
proof -
  have "attr_kill (i_mode i) (chmod_attr mode old) = chmod_attr mode old"
    by (simp add: attr_kill_def chmod_attr_bits)
  then show ?thesis
    using assms unfolding change_value_def chmod_attr_bits(10) Let_def
    by (simp add: chmod_attr_bits chmod_attr_bits(9) [simplified])
qed

lemma change_ok_owner:
  assumes "fsuid (current_cred s) = i_uid i"
  shows "fst (inode_change_ok env i (chmod_attr mode old) s) = Inr ()"
  using assms
  by (simp add: inode_change_ok_def chown_ok_def chgrp_ok_def chmod_ok_def times_ok_def
    is_owner_or_cap_def chmod_attr_bits Let_def split_def)

lemma change_ok_stranger:
  assumes "fsuid (current_cred s) \<noteq> i_uid i" "\<not> has_cap s CAP_FOWNER"
  shows "fst (inode_change_ok env i (chmod_attr mode old) s) = Inl EPERM"
  using assms
  by (simp add: inode_change_ok_def chown_ok_def chgrp_ok_def chmod_ok_def
    is_owner_or_cap_def chmod_attr_bits or_capable_False)

lemma setattr_perm_bits:
  assumes "attr_le attr (chmod_attr mode old)"
  shows "i_mode (fst (setattr_inode env attr i s)) AND S_IRWXUGO = ia_mode (chmod_attr mode old) AND S_IRWXUGO"
proof -
  have "NOT S_ISGID AND S_IRWXUGO = S_IRWXUGO" by code_simp
  then have "(m AND NOT S_ISGID) AND S_IRWXUGO = m AND S_IRWXUGO" for m
    by (simp add: and.assoc)
  with assms show ?thesis
    by (auto simp: setattr_inode_def attr_le_def chmod_attr_bits Let_def split_def)
qed

lemma fchmod_run:
  assumes "tmpfs_run oom v" "ino < length (inodes v)"
    and "res = change_value env mem (chmod_attr mode (i_mode (abs_fs v ! ino))) (abs_fs v ! ino) (task v)"
  obtains v' where "sys_fchmod env mem ino mode v = Some (fst res, v')" "abs_fs v' = (abs_fs v)[ino := snd res]"
  using notify_change_ok [OF run_heap [OF assms(1)] assms(2) chmod_attr_ok(1), of env mem mode "i_mode (abs_fs v ! ino)"]
    assms(2,3) that by (auto simp: sys_fchmod_eq)

lemma chown_run:
  assumes "tmpfs_run oom v" "ino < length (inodes v)"
    and "res = change_value env mem (chown_attr (i_mode (abs_fs v ! ino)) usr grp) (abs_fs v ! ino) (task v)"
  obtains v' where "chown_common env mem ino usr grp v = Some (fst res, v')" "abs_fs v' = (abs_fs v)[ino := snd res]"
  using notify_change_ok [OF run_heap [OF assms(1)] assms(2) chown_attr_ok(1), of env mem "i_mode (abs_fs v ! ino)" usr grp]
    assms(2,3) that by (auto simp: chown_common_eq)

text \<open>
  C33. A \<open>chmod\<close> that finds no memory for the new ACL reports \<open>ENOMEM\<close> but has changed the mode: the
  permission bits are the new ones, while the access ACL is the old one and no longer agrees with them.
\<close>

theorem chmod_nomem_changes_mode:
  assumes "tmpfs_run True v" "ino < length (inodes v)" "i = abs_fs v ! ino"
    "i_acl i = Some es" "\<not> S_ISLNK (i_mode i)" "\<not> IS_IMMUTABLE i" "\<not> IS_APPEND i"
    "fsuid (current_cred (task v)) = i_uid i" "mode \<noteq> -1"
  shows "\<exists>v'. sys_fchmod env False ino mode v = Some (Inl ENOMEM, v')
    \<and> i_mode (abs_fs v' ! ino) AND S_IRWXUGO = mode AND S_IRWXUGO \<and> i_acl (abs_fs v' ! ino) = Some es"
proof -
  let ?a = "chmod_attr mode (i_mode i)"
  obtain attr s where c: "inode_change_ok env i ?a (task v) = (Inr (), attr, s)"
    using change_ok_owner [OF assms(8), of env mode "i_mode i"] by (metis prod.collapse)
  have le: "attr_le attr ?a" using change_ok_attr [of env i ?a "task v"] c by simp
  define j where "j = fst (setattr_inode env attr i s)"
  have t: "keeps_type attr (i_mode i)" by (rule change_ok_keeps_type [OF c chmod_attr_ok(2)])
  have j: "i_acl j = Some es" "\<not> S_ISLNK (i_mode j)"
    using setattr_value [OF t, of env s] same_typeD [OF setattr_value(3) [OF t, of env s]] assms(4,5)
    by (simp_all add: j_def)
  have res: "change_value env False ?a i (task v) = (Inl ENOMEM, j)"
    using c j le assms(5-7) chmod_attr_bits(1)
    by (simp add: chmod_value_eq shmem_change_value_def split_def attr_le_def chmod_value_def flip: j_def)
  have "S_IALLUGO AND S_IRWXUGO = S_IRWXUGO" "NOT S_IALLUGO AND S_IRWXUGO = 0" by code_simp+
  then have "i_mode j AND S_IRWXUGO = mode AND S_IRWXUGO"
    using setattr_perm_bits [OF le, of env i s] assms(9)
    by (simp add: j_def chmod_attr_def bit.conj_disj_distrib2 and.assoc)
  moreover obtain v' where "sys_fchmod env False ino mode v = Some (Inl ENOMEM, v')" "abs_fs v' = (abs_fs v)[ino := j]"
    using fchmod_run [OF assms(1,2) refl, of env False mode] res assms(3) by auto
  ultimately show ?thesis using j assms(2) by auto
qed

theorem chmod_nomem_changes_mode_witness:
  "\<exists>v'. sys_fchmod ex_env False 1 0x1C0 (ex_fs 6 0 ex_root) = Some (Inl ENOMEM, v')
    \<and> i_mode (abs_fs v' ! 1) AND S_IRWXUGO = 0x1C0 \<and> i_acl (abs_fs v' ! 1) = Some (ex_acl 6 0)"
proof -
  let ?v = "ex_fs 6 0 ex_root"
  have "1 < length (inodes ?v) \<and> \<not> S_ISLNK (i_mode (abs_fs ?v ! 1)) \<and> \<not> IS_IMMUTABLE (abs_fs ?v ! 1)
    \<and> \<not> IS_APPEND (abs_fs ?v ! 1) \<and> fsuid (current_cred (task ?v)) = i_uid (abs_fs ?v ! 1)"
    by code_simp
  moreover have "(0x1C0 :: mode_t) AND S_IRWXUGO = 0x1C0" by code_simp
  ultimately show ?thesis
    using chmod_nomem_changes_mode [OF ex_fs_run [of _ 6 0 ex_root] _ refl, of 1 "ex_acl 6 0" "0x1C0" ex_env] ex_fs_6
    by auto
qed

section \<open>Setting and reading ACLs\<close>

lemma acl_names:
  "has_prefix XATTR_SYSTEM_PREFIX POSIX_ACL_XATTR_ACCESS" "has_prefix XATTR_SYSTEM_PREFIX POSIX_ACL_XATTR_DEFAULT"
  "\<not> has_prefix XATTR_SECURITY_PREFIX POSIX_ACL_XATTR_ACCESS" "\<not> has_prefix XATTR_SECURITY_PREFIX POSIX_ACL_XATTR_DEFAULT"
  "POSIX_ACL_XATTR_ACCESS \<noteq> XATTR_NAME_CAPS" "POSIX_ACL_XATTR_DEFAULT \<noteq> XATTR_NAME_CAPS"
  by code_simp+

lemma resolve_acl_names:
  "\<exists>h. xattr_resolve_name shmem_xattr_handlers POSIX_ACL_XATTR_ACCESS = Some (h, [])
     \<and> xh_set h = shmem_set_acl_access \<and> xh_get h = shmem_get_acl_access"
  "\<exists>h. xattr_resolve_name shmem_xattr_handlers POSIX_ACL_XATTR_DEFAULT = Some (h, [])
     \<and> xh_set h = shmem_set_acl_default \<and> xh_get h = shmem_get_acl_default"
  by (simp_all add: shmem_xattr_handlers_def POSIX_ACL_XATTR_ACCESS_def POSIX_ACL_XATTR_DEFAULT_def)

definition acl_name :: "int \<Rightarrow> string" where
  "acl_name type = (if type = ACL_TYPE_ACCESS then POSIX_ACL_XATTR_ACCESS else POSIX_ACL_XATTR_DEFAULT)"

text \<open>What \<open>setxattr\<close>, \<open>removexattr\<close> and \<open>getxattr\<close> come to for the two names of ACLs.\<close>

lemma xattr_calls_acl:
  assumes "type = ACL_TYPE_ACCESS \<or> type = ACL_TYPE_DEFAULT"
  shows "vfs_setxattr env mem ino (acl_name type) val v =
     (if IS_IMMUTABLE (get_inode v ino) \<or> IS_APPEND (get_inode v ino) then Some (Inl EPERM, v)
      else if S_ISLNK (i_mode (get_inode v ino)) then Some (Inl EOPNOTSUPP, v)
      else generic_acl_set env shmem_acl_ops mem ino type (Some (case val of None \<Rightarrow> [] | Some bs \<Rightarrow> bs)) v)"
    (is ?set)
  and "vfs_removexattr env mem ino (acl_name type) v =
     (if S_ISLNK (i_mode (get_inode v ino)) then Some (Inl EOPNOTSUPP, v)
      else if IS_IMMUTABLE (get_inode v ino) \<or> IS_APPEND (get_inode v ino) then Some (Inl EPERM, v)
      else generic_acl_set env shmem_acl_ops mem ino type None v)"
    (is ?remove)
  and "vfs_getxattr env ino (acl_name type) buffer v =
     (if S_ISLNK (i_mode (get_inode v ino)) then Some (Inl EOPNOTSUPP, v)
      else generic_acl_get shmem_acl_ops ino type buffer v)"
    (is ?get)
proof -
  have w: "MAY_WRITE AND MAY_WRITE \<noteq> 0" "MAY_READ AND MAY_WRITE = 0" by code_simp+
  have perm: "xattr_permission env ino (acl_name type) want v =
     (if want AND MAY_WRITE \<noteq> 0 \<and> (IS_IMMUTABLE (get_inode v ino) \<or> IS_APPEND (get_inode v ino))
      then Some (Inl EPERM, v) else Some (Inr (), v))" for want
    using acl_names by (simp add: xattr_permission_def Let_def acl_name_def)
  have cap: "with_task v (cap_inode_setxattr env (acl_name type)) = (Inr (), v)"
    "with_task v (cap_inode_removexattr env (acl_name type)) = (Inr (), v)"
    using acl_names by (simp_all add: with_task_def cap_inode_setxattr_def cap_inode_removexattr_def acl_name_def)
  obtain h where h: "xattr_resolve_name shmem_xattr_handlers (acl_name type) = Some (h, [])"
    "\<And>env mem val u. xh_set h env mem ino [] val u = generic_acl_set env shmem_acl_ops mem ino type val u"
    "\<And>buffer u. xh_get h ino [] buffer u = generic_acl_get shmem_acl_ops ino type buffer u"
    using resolve_acl_names assms
    by (auto simp: acl_name_def shmem_set_acl_access_def shmem_get_acl_access_def
      shmem_set_acl_default_def shmem_get_acl_default_def)
  show ?set ?remove ?get
    using w by (auto simp: vfs_setxattr_def vfs_removexattr_def vfs_getxattr_def perm cap
      generic_setxattr_def generic_removexattr_def generic_getxattr_def h split: option.splits)
qed




section \<open>Only the owner changes permissions\<close>

lemma is_owner_stranger:
  assumes "fsuid (current_cred s) \<noteq> i_uid i" "\<not> has_cap s CAP_FOWNER"
  shows "is_owner_or_cap env i s = (False, s)"
  using assms by (simp add: is_owner_or_cap_def or_capable_False)

lemma acl_set_stranger:
  assumes "tmpfs_run oom v" "ino < length (inodes v)"
    "fsuid (current_cred (task v)) \<noteq> i_uid (abs_fs v ! ino)" "\<not> has_cap (task v) CAP_FOWNER"
  shows "\<exists>e v'. generic_acl_set env shmem_acl_ops mem ino type val v = Some (Inl e, v') \<and> abs_fs v' = abs_fs v"
  using assms by (auto simp: generic_acl_set_def is_owner_stranger)

lemma chmod_stranger:
  assumes "fsuid (current_cred s) \<noteq> i_uid i" "\<not> has_cap s CAP_FOWNER"
  shows "change_value env mem (chmod_attr mode old) i s = (Inl EPERM, i)"
proof (cases "IS_IMMUTABLE i \<or> IS_APPEND i")
  case True
  then show ?thesis by (simp add: change_value_def chmod_attr_bits)
next
  case False
  with change_ok_stranger [OF assms, of env mode old] show ?thesis
    by (simp add: chmod_value_eq shmem_change_value_def split_def Let_def)
qed

lemma attr_kill_bits:
  "ATTR_MODE AND f = 0 \<Longrightarrow> ia_valid (attr_kill m attr) AND f = ia_valid attr AND f"
  by (simp add: attr_kill_def Let_def bit.conj_disj_distrib2)

lemma chown_attr_bits:
  fixes m m' usr grp
  defines "a \<equiv> chown_attr m usr grp"
  defines "b \<equiv> attr_kill m' (a\<lparr>ia_valid := ia_valid a AND NOT ATTR_KILL_PRIV\<rparr>)"
  shows "has_attr a ATTR_UID = (usr \<noteq> -1)" "has_attr a ATTR_GID = (grp \<noteq> -1)"
    "has_attr b ATTR_UID = (usr \<noteq> -1)" "has_attr b ATTR_GID = (grp \<noteq> -1)"
    "\<not> has_attr b ATTR_FORCE" "has_attr b ATTR_CTIME"
proof -
  have z: "ATTR_MODE AND ATTR_UID = 0" "ATTR_MODE AND ATTR_GID = 0" "ATTR_MODE AND ATTR_FORCE = 0"
    "ATTR_MODE AND ATTR_CTIME = 0"
    by code_simp+
  show "has_attr a ATTR_UID = (usr \<noteq> -1)" "has_attr a ATTR_GID = (grp \<noteq> -1)"
    by (simp_all add: a_def chown_attr_def attr_defs)
  show "has_attr b ATTR_UID = (usr \<noteq> -1)" "has_attr b ATTR_GID = (grp \<noteq> -1)"
    "\<not> has_attr b ATTR_FORCE" "has_attr b ATTR_CTIME"
    unfolding b_def attr_kill_bits [OF z(1)] attr_kill_bits [OF z(2)] attr_kill_bits [OF z(3)]
      attr_kill_bits [OF z(4)]
    by (simp_all add: a_def chown_attr_def attr_defs)
qed

lemma has_attr_mono: "has_attr a f \<Longrightarrow> f AND g = f \<Longrightarrow> has_attr a g"
  by (metis and.left_commute and_zero_eq)

lemma chown_change_stranger:
  assumes "has_attr b ATTR_UID \<or> has_attr b ATTR_GID" "\<not> has_attr b ATTR_FORCE"
    "fsuid (current_cred s) \<noteq> i_uid i" "\<not> has_cap s CAP_CHOWN"
  shows "fst (inode_change_ok env i b s) = Inl EPERM"
  using assms
  by (cases "has_attr b ATTR_UID")
    (simp_all add: inode_change_ok_def chown_ok_def chgrp_ok_def or_capable_False)

lemma chown_stranger:
  assumes "fsuid (current_cred s) \<noteq> i_uid i" "\<not> has_cap s CAP_CHOWN" "usr \<noteq> -1 \<or> grp \<noteq> -1"
  shows "change_value env mem (chown_attr m usr grp) i s = (Inl EPERM, i)"
proof -
  let ?a = "chown_attr m usr grp"
  define b where "b = attr_kill (i_mode i) (?a\<lparr>ia_valid := ia_valid ?a AND NOT ATTR_KILL_PRIV\<rparr>)"
  note set = chown_attr_bits(1,2) [where m = m and usr = usr and grp = grp]
  note bits = chown_attr_bits(3-6) [where m = m and m' = "i_mode i" and usr = usr and grp = grp, folded b_def]
  have sub: "ATTR_UID AND (ATTR_MODE OR ATTR_UID OR ATTR_GID OR ATTR_TIMES_SET) = ATTR_UID"
    "ATTR_GID AND (ATTR_MODE OR ATTR_UID OR ATTR_GID OR ATTR_TIMES_SET) = ATTR_GID"
    "ATTR_CTIME AND NOT (ATTR_KILL_SUID OR ATTR_KILL_SGID) = ATTR_CTIME"
    by code_simp+
  have 1: "has_attr ?a (ATTR_MODE OR ATTR_UID OR ATTR_GID OR ATTR_TIMES_SET)"
    using assms(3) set has_attr_mono [OF _ sub(1)] has_attr_mono [OF _ sub(2)] by blast
  have 2: "has_attr b (NOT (ATTR_KILL_SUID OR ATTR_KILL_SGID))"
    using has_attr_mono [OF bits(4) sub(3)] .
  have 3: "fst (inode_change_ok env i b s) = Inl EPERM"
    using assms bits by (intro chown_change_stranger) auto
  then show ?thesis
    using 1 2 unfolding change_value_def Let_def b_def [symmetric] shmem_change_value_def
    by (simp add: split_def)
qed

text \<open>
  C16. A task that does not own a file and has neither \<open>CAP_FOWNER\<close> nor \<open>CAP_CHOWN\<close> cannot change its
  mode, owner, group or ACLs: each of these calls fails and leaves every file as it was.
\<close>

theorem only_owner_changes_permissions:
  assumes "tmpfs_run oom v" "ino < length (inodes v)"
    "fsuid (current_cred (task v)) \<noteq> i_uid (get_inode v ino)"
    "\<not> has_cap (task v) CAP_FOWNER" "\<not> has_cap (task v) CAP_CHOWN" "usr \<noteq> -1 \<or> grp \<noteq> -1"
    "name = POSIX_ACL_XATTR_ACCESS \<or> name = POSIX_ACL_XATTR_DEFAULT"
  shows "(\<exists>v'. sys_fchmod env mem ino mode v = Some (Inl EPERM, v') \<and> abs_fs v' = abs_fs v)
    \<and> (\<exists>v'. chown_common env mem ino usr grp v = Some (Inl EPERM, v') \<and> abs_fs v' = abs_fs v)
    \<and> (\<exists>e v'. vfs_setxattr env mem ino name val v = Some (Inl e, v') \<and> abs_fs v' = abs_fs v)
    \<and> (\<exists>e v'. vfs_removexattr env mem ino name v = Some (Inl e, v') \<and> abs_fs v' = abs_fs v)"
proof -
  let ?i = "abs_fs v ! ino"
  have i: "fsuid (current_cred (task v)) \<noteq> i_uid ?i" using assms(2,3) by simp
  obtain type where t: "name = acl_name type" "type = ACL_TYPE_ACCESS \<or> type = ACL_TYPE_DEFAULT"
    using assms(7) acl_name_def type_distinct by metis
  have chmod: "\<exists>v'. sys_fchmod env mem ino mode v = Some (Inl EPERM, v') \<and> abs_fs v' = abs_fs v"
    by (rule fchmod_run [OF assms(1,2) refl, of env mem mode]) (auto simp: chmod_stranger [OF i assms(4)])
  have chown: "\<exists>v'. chown_common env mem ino usr grp v = Some (Inl EPERM, v') \<and> abs_fs v' = abs_fs v"
    by (rule chown_run [OF assms(1,2) refl, of env mem usr grp]) (auto simp: chown_stranger [OF i assms(5,6)])
  show ?thesis
    using chmod chown acl_set_stranger [OF assms(1,2) i assms(4), of env mem type]
    by (simp add: t(1) xattr_calls_acl [OF t(2)])
qed

theorem only_owner_changes_permissions_witness:
  "\<exists>v'. sys_fchmod ex_env True 1 0x1FF (ex_fs 6 0 ex_user) = Some (Inl EPERM, v')"
proof -
  let ?v = "ex_fs 6 0 ex_user"
  have "1 < length (inodes ?v) \<and> fsuid (current_cred (task ?v)) \<noteq> i_uid (get_inode ?v 1)
    \<and> \<not> has_cap (task ?v) CAP_FOWNER \<and> \<not> has_cap (task ?v) CAP_CHOWN"
    by code_simp
  then show ?thesis
    using only_owner_changes_permissions [OF ex_fs_run [of True 6 0 ex_user], of 1 1000 0
      POSIX_ACL_XATTR_ACCESS ex_env True "0x1FF"] by auto
qed

end
