(* ===== verification/TmpfsCreate.thy ===== *)
theory TmpfsCreate
  imports TmpfsSafety
begin

text \<open>
  The permissions of new files, the removal of files from sticky directories, the ACL with an empty
  mask, and the operations on ACLs as operations on values.
\<close>

section \<open>New files\<close>

lemma class_mode_AND_bits:
  assumes "bit ((mode AND NOT S_IRWXUGO) OR class_mode (a AND drop_bit 6 mode) (b AND drop_bit 3 mode) (c AND mode)) k"
  shows "bit (mode :: mode_t) k"
  using assms by (auto simp: class_mode_def bit_or_iff bit_and_iff bit_push_bit_iff bit_drop_bit_eq)

lemma init_value_bits:
  assumes "\<forall>es. dflt = Some es \<longrightarrow> well_formed es" "bit (i_mode (snd (init_value mem um dflt i))) k"
  shows "bit (i_mode i) k"
proof -
  define i1 where "i1 = i\<lparr>i_mode := i_mode i AND NOT (ucast um)\<rparr>"
  have 1: "bit (i_mode i1) k \<Longrightarrow> bit (i_mode i) k" by (simp add: i1_def bit_and_iff)
  show ?thesis
  proof (cases "S_ISLNK (i_mode i1) \<or> dflt = None")
    case True
    with assms(2) 1 show ?thesis
      by (auto simp: init_value_def Let_def simp flip: i1_def split: if_splits)
  next
    case False
    then obtain es where es: "dflt = Some es" "well_formed es" using assms(1) by auto
    then obtain uo us go gs ms ot where p: "acl_parts es uo us go gs ms ot" by (auto simp: well_formed_def)
    have "i_mode (inherit_value es (i_mode i) j) = (i_mode i AND NOT S_IRWXUGO) OR
        class_mode (e_perm uo AND drop_bit 6 (i_mode i)) (group_class go ms AND drop_bit 3 (i_mode i))
          (e_perm ot AND i_mode i)" for j
      by (simp add: inherit_value_def create_masq_parts [OF p])
    then have 2: "bit (i_mode (inherit_value es (i_mode i) j)) k \<Longrightarrow> bit (i_mode i) k" for j
      using class_mode_AND_bits by metis
    show ?thesis
      using assms(2) False es 1 2 by (auto simp: init_value_def Let_def simp flip: i1_def split: if_splits)
  qed
qed

lemma init_value_umask:
  assumes "bit um k" "k < 16"
  shows "\<not> bit (i_mode (snd (init_value mem um None i))) k"
  using assms by (simp add: init_value_def Let_def bit_simps)

lemma bit_S_ISGID [simp]: "bit S_ISGID k \<longleftrightarrow> k = 10"
proof -
  have eq: "S_ISGID = 2 ^ 10" by code_simp
  show ?thesis unfolding eq bit_exp_iff by auto
qed

lemma inherit_gid_bits: "k < 9 \<Longrightarrow> bit (i_mode (inherit_gid d mode i)) k = bit (i_mode i) k"
  by (simp add: inherit_gid_def bit_or_iff)

text \<open>
  C17. A file that is created on a tmpfs never has a permission bit that its creator did not ask for,
  whatever the default ACL of the directory says; and without a default ACL it has none that the
  umask takes away. It belongs to the file system user of the task that creates it.
\<close>

theorem new_file_permissions_bounded:
  assumes "tmpfs_run False v" "dir < length (inodes v)"
    "shmem_mknod inode_ok mem dir mode v = Some (Inr n, v')"
  shows "n = length (inodes v)
    \<and> i_mode (get_inode v' n) AND S_IRWXUGO AND NOT (ucast mode) = 0
    \<and> (i_default_acl (get_inode v dir) = None \<longrightarrow> i_mode (get_inode v' n) AND S_IRWXUGO AND ucast (umask v) = 0)
    \<and> i_uid (get_inode v' n) = fsuid (current_cred (task v))"
proof -
  let ?d = "abs_fs v ! dir"
  define i :: ainode where "i = new_value (s_flags ?d) mode (task v)"
  define r where "r = init_value mem (umask v) (i_default_acl ?d) i"
  have ok: inode_ok using assms(3) by (cases inode_ok) (simp_all add: shmem_mknod_def)
  have r: "is_ok (fst r)" "n = length (inodes v)" "abs_fs v' = abs_fs v @ [inherit_gid ?d mode (snd r)]"
    using shmem_mknod_ok [OF run_heap [OF assms(1)] assms(2), of mem mode] assms(3) ok
    by (auto simp: r_def i_def split: sum.splits)
  then have len: "n < length (inodes v')" using length_abs_fs [of v'] by simp
  have nth: "abs_fs v' ! n = inherit_gid ?d mode (snd r)" using r by (simp add: nth_append)
  have m: "bit (i_mode (get_inode v' n)) k = bit (i_mode (snd r)) k" if "k < 9" for k
    using abs_fs_fields(1) [OF len] nth inherit_gid_bits [OF that] by metis
  have wf: "\<forall>es. i_default_acl ?d = Some es \<longrightarrow> well_formed es"
    using acls_okD [OF run_acls_ok [OF assms(1)] assms(2)] by (simp add: acl_ok_def)
  have "bit (ucast mode :: mode_t) k" if "bit (i_mode (snd r)) k" for k
    using init_value_bits [OF wf, of mem "umask v" i k] that by (simp add: r_def i_def new_value_def)
  then have 1: "i_mode (get_inode v' n) AND S_IRWXUGO AND NOT (ucast mode) = 0"
    using m by (auto intro!: bit_eqI simp: bit_and_iff bit_not_iff)
  have 2: "i_mode (get_inode v' n) AND S_IRWXUGO AND ucast (umask v) = 0" if "i_default_acl (get_inode v dir) = None"
  proof -
    have "i_default_acl ?d = None" using that assms(2) by (simp add: abs_fs_nth)
    then show ?thesis
      using m init_value_umask by (auto intro!: bit_eqI simp: bit_and_iff r_def bit_unsigned_iff)
  qed
  have "i_uid (snd r) = i_uid i"
    by (auto simp: r_def init_value_def inherit_value_def Let_def split: option.splits prod.splits sum.splits)
  then have "i_uid (get_inode v' n) = fsuid (current_cred (task v))"
    using abs_fs_fields(2) [OF len] nth by (simp add: inherit_gid_def i_def new_value_def split: if_splits)
  with 1 2 r(2) show ?thesis by blast
qed

theorem new_file_permissions_bounded_witness:
  "i_mode (get_inode ex_file 1) AND S_IRWXUGO AND NOT 0x81A4 = 0 \<and> i_uid (get_inode ex_file 1) = 0"
proof -
  have dir: "0 < length (inodes ex_mount)" by code_simp
  have run: "tmpfs_run False ex_mount" unfolding ex_mount_def by (rule mounted)
  have new: "map_option fst (shmem_mknod True (\<lambda>_. True) 0 0x81A4 ex_mount) = Some (Inr 1)" by code_simp
  then have "shmem_mknod True (\<lambda>_. True) 0 0x81A4 ex_mount = Some (Inr 1, ex_file)"
    by (auto simp: ex_file_def)
  from new_file_permissions_bounded [OF run dir this, THEN conjunct2]
  have "i_mode (get_inode ex_file 1) AND S_IRWXUGO AND NOT 0x81A4 = 0"
    "i_uid (get_inode ex_file 1) = fsuid (current_cred (task ex_mount))"
    by simp_all
  moreover have "fsuid (current_cred (task ex_mount)) = 0" by code_simp
  ultimately show ?thesis by simp
qed

section \<open>Sticky directories\<close>

lemma marked_cred: "marked s s' \<Longrightarrow> current_cred s' = current_cred s"
  by (auto simp: marked_def current_cred_def split: option.splits)

lemma check_sticky_ok:
  assumes "\<not> fst (check_sticky env d i s)"
  shows "i_mode d AND S_ISVTX = 0 \<or> fsuid (current_cred s) = i_uid i \<or> fsuid (current_cred s) = i_uid d
    \<or> has_cap s CAP_FOWNER"
proof -
  have "CAP_FOWNER \<noteq> CAP_NET_RAW" "CAP_FOWNER \<noteq> CAP_NET_ADMIN"
    by (simp_all add: CAP_FOWNER_def CAP_NET_RAW_def CAP_NET_ADMIN_def)
  with assms show ?thesis by (auto simp: check_sticky_def capable_dac Let_def split: if_splits)
qed

text \<open>
  C22. \<open>may_delete\<close> lets a task remove an entry of a sticky directory only if it owns the file or
  the directory or has \<open>CAP_FOWNER\<close>; and in every directory only if it has write and search
  permission there, and neither the directory is append-only nor the file append-only or immutable.
\<close>

theorem sticky_deletion:
  assumes "tmpfs_run oom v" "dir < length (inodes v)" "ino < length (inodes v)"
    "may_delete env dir (Some ino) is_root isdir v = Some (Inr (), v')"
    "d = get_inode v dir" "i = get_inode v ino"
  shows "(i_mode d AND S_ISVTX = 0 \<or> fsuid (current_cred (task v)) \<in> {i_uid i, i_uid d}
      \<or> has_cap (task v) CAP_FOWNER)
    \<and> (\<exists>u. tmpfs_permission env dir (MAY_WRITE OR MAY_EXEC) v = Some (Inr (), u))
    \<and> \<not> IS_APPEND d \<and> \<not> IS_APPEND i \<and> \<not> IS_IMMUTABLE i"
proof -
  obtain r u where u: "tmpfs_permission env dir (MAY_WRITE OR MAY_EXEC) v = Some (r, u)" "touched v u"
    using tmpfs_permission_reads [OF run_heap [OF assms(1)] assms(2), of env "MAY_WRITE OR MAY_EXEC"]
    by (auto simp: reads_iff)
  have eq: "abs_fs u = abs_fs v" "current_cred (task u) = current_cred (task v)"
    using u(2) by (auto simp: touched_def marked_cred)
  have len: "length (inodes u) = length (inodes v)" using touched_length [OF u(2)] .
  have same: "i_mode (get_inode u k) = i_mode (get_inode v k) \<and> i_uid (get_inode u k) = i_uid (get_inode v k)
      \<and> i_flags (get_inode u k) = i_flags (get_inode v k)" if "k < length (inodes v)" for k
    using abs_fs_fields [of k u] abs_fs_fields [of k v] that len eq(1) by simp
  let ?d = "get_inode u dir" and ?i = "get_inode u ino"
  have "r = Inr ()" "\<not> IS_APPEND ?d" "\<not> fst (check_sticky env ?d ?i (task u))" "\<not> IS_APPEND ?i"
    "\<not> IS_IMMUTABLE ?i"
    using assms(4) u(1)
    by (cases r; auto simp: may_delete_def Let_def with_task_def split_def split: if_splits)+
  then show ?thesis
    using check_sticky_ok [of env ?d ?i "task u"] same [OF assms(2)] same [OF assms(3)] u(1) eq(2)
    by (auto simp: assms(5,6) IS_APPEND_def IS_IMMUTABLE_def has_cap_def)
qed

theorem sticky_deletion_witness:
  "map_option fst (may_delete ex_env 0 (Some 1) False False (ex_fs 6 0 ex_root)) = Some (Inr ())
   \<and> (fsuid (current_cred ex_root) = 0 \<or> has_cap ex_root CAP_FOWNER)"
proof -
  let ?v = "ex_fs 6 0 ex_root"
  have len: "0 < length (inodes ?v)" "1 < length (inodes ?v)" using ex_fs_6 by simp_all
  have "map_option fst (may_delete ex_env 0 (Some 1) False False ?v) = Some (Inr ())
    \<and> i_mode (get_inode ?v 0) AND S_ISVTX \<noteq> 0 \<and> i_uid (get_inode ?v 0) = 0 \<and> i_uid (get_inode ?v 1) = 0"
    by code_simp
  moreover have "task ?v = ex_root" by (simp add: ex_fs_def)
  ultimately show ?thesis
    using sticky_deletion [OF ex_fs_run [of True 6 0 ex_root] len, of ex_env False False] by auto
qed

section \<open>An empty mask\<close>

text \<open>
  C34. When the mask of an ACL is empty, \<open>generic_permission\<close> does not look at the ACL: a named user,
  to whom the ACL gives nothing then, gets the permissions of others.
\<close>

theorem empty_mask_gives_others:
  assumes "tmpfs_run False v" "ino < length (inodes v)" "i = abs_fs v ! ino"
    "i_acl i = Some es" "list_ex (named_user (fsuid (current_cred (task v)))) es"
    "fsuid (current_cred (task v)) \<noteq> i_uid i" "\<not> in_group_p (task v) (i_gid i)"
    "i_mode i AND S_IRWXG = 0" "want AND (MAY_READ OR MAY_WRITE OR MAY_EXEC) = want" "want \<noteq> 0"
    "grants (i_mode i) want"
  shows "posix_acl_permission (task v) (i_uid i) (i_gid i) es want = Inl EACCES
    \<and> (\<exists>v'. shmem_permission env ino want v = Some (Inr (), v'))"
proof -
  have ok: "acl_ok i" using acls_okD [OF run_acls_ok [OF assms(1)] assms(2)] assms(3) by simp
  obtain uo us go gs m ot where p: "acl_parts es uo us go gs [m] ot"
    and e: "posix_acl_equiv_mode es (i_mode i) = Inr (True, i_mode i)"
    using ok assms(4) by (auto simp: acl_ok_def extended_def)
  obtain k where k: "bit want k" using assms(10) by (metis bit_eqI bit_0_eq bot_apply bot_bool_def)
  have k3: "k < 3" using rwx_only_AND [of want] k assms(9) by (simp add: rwx_only_def)
  have "i_mode i = (i_mode i AND NOT S_IRWXUGO) OR class_mode (e_perm uo) (group_class go [m]) (e_perm ot)"
    using e by (simp add: equiv_mode_parts [OF p])
  moreover have "\<not> bit (i_mode i) (3 + k)"
  proof
    assume "bit (i_mode i) (3 + k)"
    then have "bit (i_mode i AND S_IRWXG) (3 + k)" using k3 by (simp add: bit_and_iff)
    then show False by (simp add: assms(8))
  qed
  ultimately have "\<not> bit ((i_mode i AND NOT S_IRWXUGO) OR class_mode (e_perm uo) (group_class go [m]) (e_perm ot)) (3 + k)"
    by metis
  then have "\<not> bit (e_perm m) k"
    using k3 by (auto simp: class_mode_def group_class_def bit_simps)
  then have "\<not> grants (e_perm m) want" using k by (auto simp: grants_iff_bits)
  moreover have "m \<in> set es" "e_tag m = ACL_MASK" using p by (auto simp: acl_parts_def)
  ultimately have "\<not> mask_grants es want" by (auto simp: mask_grants_def list_all_iff)
  then have "\<not> acl_access (task v) (i_uid i) (i_gid i) es want"
    using assms(5,6) by (simp add: acl_access_def)
  moreover have "well_formed es" using p unfolding well_formed_def by blast
  moreover have "perm_decision (task v) i want = Inr ()"
    using assms(6-8,11) by (simp add: perm_decision_def mode_decision_def verdict_def)
  ultimately show ?thesis
    using shmem_permission_reads [OF run_heap [OF assms(1)] assms(2), of want env] assms(3,9)
    by (auto simp: permission_is_acl_access verdict_def reads_def)
qed

definition ex_guest :: kstate where
  "ex_guest = ex_user\<lparr>real_cred := (real_cred ex_user)\<lparr>fsgid := 1000\<rparr>\<rparr>"

theorem empty_mask_gives_others_witness:
  "posix_acl_permission ex_guest 0 0 (ex_acl 0 4) MAY_READ = Inl EACCES
   \<and> (\<exists>v'. shmem_permission ex_env 1 MAY_READ (ex_fs 0 4 ex_guest) = Some (Inr (), v'))"
proof -
  let ?v = "ex_fs 0 4 ex_guest"
  let ?i = "abs_fs ?v ! 1"
  have 1: "1 < length (inodes ?v) \<and> i_acl ?i = Some (ex_acl 0 4) \<and> i_uid ?i = 0 \<and> i_gid ?i = 0 \<and> i_mode ?i = 0x8184"
    by code_simp
  have 2: "list_ex (named_user (fsuid (current_cred ex_guest))) (ex_acl 0 4) \<and> fsuid (current_cred ex_guest) \<noteq> 0
    \<and> \<not> in_group_p ex_guest 0 \<and> 0x8184 AND S_IRWXG = 0
    \<and> MAY_READ AND (MAY_READ OR MAY_WRITE OR MAY_EXEC) = MAY_READ \<and> MAY_READ \<noteq> 0 \<and> grants 0x8184 MAY_READ"
    by code_simp
  have t: "task ?v = ex_guest" by (simp add: ex_fs_def)
  show ?thesis
    using empty_mask_gives_others [OF ex_fs_run [of _ 0 4 ex_guest] _ refl, of 1 "ex_acl 0 4" MAY_READ ex_env]
      1 2 unfolding t by auto
qed

section \<open>ACLs as values\<close>

text \<open>
  C12. The generic operations, which share ACLs between inodes under reference counts and copy them
  before they change them, do to each inode what they would do if ACLs were values: setting the ACL,
  changing it with the mode, and giving a new inode the default ACL of its directory affect only that
  inode.
\<close>

theorem acl_operations_refine_values:
  assumes "tmpfs_run oom v" "ino < length (inodes v)" "dir < length (inodes v)" "dir \<noteq> ino"
    and "i = abs_fs v ! ino" "allowed = fst (is_owner_or_cap env (get_inode v ino) (task v))"
    and "w = set_value allowed mem type val i" "x = chmod_value mem i"
      "y = init_value mems (umask v) (i_default_acl (abs_fs v ! dir)) i"
  shows "(\<exists>v'. generic_acl_set env shmem_acl_ops mem ino type val v = Some (fst w, v')
        \<and> abs_fs v' = (abs_fs v)[ino := snd w])
    \<and> (\<exists>v'. generic_acl_chmod shmem_acl_ops mem ino v = Some (fst x, v')
        \<and> abs_fs v' = (abs_fs v)[ino := snd x])
    \<and> (\<exists>v'. generic_acl_init shmem_acl_ops mems ino dir v = Some (fst y, v')
        \<and> abs_fs v' = (abs_fs v)[ino := snd y])"
  using shmem.generic_acl_set_ok [OF run_heap [OF assms(1)] assms(2), of env mem type val]
    shmem.generic_acl_chmod_ok [OF run_heap [OF assms(1)] assms(2), of mem]
    shmem.generic_acl_init_ok [OF run_heap [OF assms(1)] assms(2-4), of mems]
  unfolding assms(5-9) by blast

theorem acl_operations_refine_values_witness:
  "\<exists>v'. generic_acl_chmod shmem_acl_ops True 1 (ex_fs 6 0 ex_root) = Some (Inr (), v')
    \<and> abs_fs v' = (abs_fs (ex_fs 6 0 ex_root))[1 := snd (chmod_value True (abs_fs (ex_fs 6 0 ex_root) ! 1))]"
proof -
  let ?v = "ex_fs 6 0 ex_root"
  have "fst (chmod_value True (abs_fs ?v ! 1)) = Inr ()" by code_simp
  then show ?thesis
    using acl_operations_refine_values [OF ex_fs_run [of True 6 0 ex_root], of 1 0, OF _ _ _ refl refl refl refl refl,
      of ex_env True ACL_TYPE_ACCESS None "\<lambda>_. True"] ex_fs_6 by simp
qed

end
