(* ===== verification/Spec2Isabelle.thy ===== *)
theory Spec2Isabelle
  imports CredSafety CredOps VmAccount PageAllocSafety Kfifo LoggerSafety TmpfsSafety TmpfsAccess TmpfsCreate
begin

text \<open>
  Verification of parts of the Linux 2.6.29 kernel under \<open>src/kernel\<close>, in the configuration
  \<open>apollo_rev02_defconfig\<close>: a 32-bit uniprocessor ARM with the Android drivers, without security modules
  (\<open>CONFIG_SECURITY\<close>), key rings, quotas, control groups and user namespaces, and with ACLs on tmpfs.
  File names below are relative to \<open>src/kernel\<close>.

  \<^bold>\<open>Conventions\<close> (\<open>KPrelude\<close>). A C function that returns an error number is a function into
  \<open>'a kres\<close>: \<open>Inl e\<close> for \<open>-e\<close>, \<open>Inr v\<close> for success. State is passed explicitly. A function that can
  end in \<open>BUG()\<close>, or use memory after it was freed, has values of type \<open>option\<close>, with \<open>None\<close> for that
  end; the theorems then say that \<open>None\<close> does not occur. Integers keep their width as words where
  wrap-around or single bits matter. Failing allocations, faulting user memory and configuration symbols
  are arguments, so the theorems hold whether or not they fail. A function that the kernel runs under
  a lock is one step; where the code leaves a lock in between, the parts are separate steps.

  \<^bold>\<open>Credentials.\<close> \<open>Capability\<close> (\<open>include/linux/capability.h\<close>) models capability sets as two words; the
  locale \<open>cap_sets\<close> with its interpretation \<open>kcap\<close> relates them to sets of numbers. \<open>GroupInfo\<close> models
  the block-structured supplementary groups of \<open>kernel/sys.c\<close> with their Shell sort and binary search.
  \<open>Cred\<close> and \<open>CredOps\<close> model \<open>kernel/cred.c\<close>: the current task (\<open>kstate\<close>) and the protocol of copying,
  changing and committing credentials, the credentials of a new process, and temporary overrides.
  \<open>Commoncap\<close> models \<open>security/commoncap.c\<close> and the system calls of \<open>kernel/capability.c\<close>, \<open>SetId\<close> the
  system calls on ids of \<open>kernel/sys.c\<close>, \<open>VmAccount\<close> the hook for memory accounting with
  \<open>__vm_enough_memory\<close> of \<open>mm/mmap.c\<close>. \<open>CredSafety\<close> has the properties: no sequence of calls
  (\<open>cred_step\<close>, whose closure goes through the locale \<open>step_preorder\<close>) gains capabilities, leaves the
  ids it has without the right to, or unlocks securebits; what \<open>exec\<close> may give; how
  \<open>setgroups\<close>, \<open>getgroups\<close> and membership agree, and where they do not.

  \<^bold>\<open>Page allocator.\<close> \<open>Dyadic\<close> has the arithmetic of aligned blocks. \<open>Buddy\<close> models one zone of
  \<open>mm/page_alloc.c\<close>: free lists by order and migrate type, merging and splitting, fallback between
  migrate types, the per-cpu list, the checks on pages. \<open>BuddyOk\<close> proves its invariant and relates it to
  the set of free blocks; \<open>PageAlloc\<close> does so for the allocator with the per-cpu list. In
  \<open>PageAllocSafety\<close> the locale \<open>block_allocator\<close> is the contract for the users of the allocator, with
  \<open>page_alloc\<close> as its interpretation: blocks handed out are free, aligned and disjoint over all
  sequences of calls, an allocation fails exactly when there is no run of free pages, and freeing
  returns the block. \<open>buffered_rmqueue\<close> restarts when a page fails its checks; it is a
  \<open>partial_function\<close>, and the theorems show that it returns.

  \<^bold>\<open>Rings.\<close> \<open>Ring\<close> has the lemmas on arrays used as rings. \<open>Kfifo\<close> models \<open>kernel/kfifo.c\<close> with indices
  of 32 bits that wrap: the operations refine a bounded queue, and one producer and one consumer whose
  byte copies interleave need no lock. \<open>Logger\<close> models \<open>drivers/staging/android/logger.c\<close>;
  \<open>LoggerOk\<close> splits the ring into whole entries; \<open>LoggerSafety\<close> shows that a write appends one entry
  and drops the oldest ones of each reader, that a read takes exactly one entry, that a fault of user
  memory is invisible, and proves two defects.

  \<^bold>\<open>ACLs and permissions of files.\<close> \<open>PosixAcl\<close> models \<open>fs/posix_acl.c\<close> and \<open>fs/xattr_acl.c\<close>;
  \<open>PosixAclOk\<close> gives the grammar of valid ACLs and the access algorithm of POSIX.1e, and shows that the
  code implements them. \<open>AclStore\<close> models reference-counted ACLs, \<open>fs/generic_acl.c\<close> and
  \<open>mm/shmem_acl.c\<close> over a state (\<open>vfs\<close>) with the current task of \<open>Cred\<close>, the inodes of a tmpfs and a
  store of ACLs. \<open>AclStoreOk\<close> abstracts it to inodes that have ACLs as values (\<open>abs_fs\<close>): the locale
  \<open>acl_operations\<close> is what the generic operations rely on, \<open>shmem\<close> its interpretation on tmpfs, and the
  operations on values (\<open>set_value\<close>, \<open>chmod_value\<close>, \<open>init_value\<close>) the specification. \<open>AclValueOk\<close> has the
  invariant that ACL and mode agree. \<open>VfsPerm\<close> models the permission checks of \<open>fs/namei.c\<close>, \<open>fs/attr.c\<close>
  and the \<open>chmod\<close> and \<open>chown\<close> calls of \<open>fs/open.c\<close>; \<open>Tmpfs\<close> the extended attributes of \<open>fs/xattr.c\<close>,
  creation of files and mounting. \<open>TmpfsOk\<close> and \<open>TmpfsXattrOk\<close> lift them to the abstract view,
  \<open>TmpfsRun\<close> proves the invariant for all sequences of calls (\<open>tmpfs_step\<close>). The properties are in
  \<open>TmpfsSafety\<close> (exact reference counts, agreement of ACL and mode, the decision on permissions),
  \<open>TmpfsAccess\<close> (who may change what; ACLs are read back as set; the \<open>chmod\<close> that runs out of memory) and
  \<open>TmpfsCreate\<close> (permissions of new files, sticky directories, ACLs as values, the empty mask).

  The components meet in the task: its capabilities and groups, which \<open>SetId\<close> and \<open>Commoncap\<close> change,
  decide the permissions on files through \<open>capable\<close>, \<open>in_group_p\<close> and \<open>fsuid\<close>; the hooks of \<open>Commoncap\<close>
  are called on extended attributes and on changes of attributes.

  \<^bold>\<open>Loops and bounds.\<close> There is no fuel. Every loop is a structural recursion or a \<open>function\<close> with a
  termination proof, except for \<open>buffered_rmqueue\<close> above. Sizes that are natural numbers are bounded by
  the code: 256 KiB for a log, 65536 bytes for an extended attribute, 65536 supplementary groups.

  \<^bold>\<open>Not modelled.\<close> Drivers with hardware, architecture code, the network stack, sound, the block layer,
  file systems on disks and the scheduler depend on devices, interrupts, page tables or time, for which
  the repository has no description that a model could follow. Of the modelled components: RCU and the
  reference counts of credentials; zone lists, watermarks and reclaim above the buddy allocator;
  path lookup, the dentry cache, open files and links; sizes, times and contents of tmpfs files; weak
  memory ordering, which the barriers of the code are there to exclude.
\<close>

end
